(* ===== verification/Realm_Prelude.thy ===== *)
theory Realm_Prelude
  imports Main "HOL-Library.Word" "HOL-Library.AList"
begin

text \<open>
  The vocabulary every component of the development shares: Go errors as values, Go maps,
  Go byte strings with the functions of \<^verbatim>\<open>strings\<close>, \<^verbatim>\<open>strconv\<close> and \<^verbatim>\<open>path/filepath\<close> that the
  sources call, and Go times.

  \<^item> A Go \<^verbatim>\<open>string\<close> or \<^verbatim>\<open>[]byte\<close> is a \<^typ>\<open>string\<close>: a list of \<^typ>\<open>char\<close>, and a \<^typ>\<open>char\<close> is one byte.
  \<^item> A Go \<^verbatim>\<open>(T, error)\<close> result is a \<open>go_error + 'a\<close>, \<^term>\<open>Inl\<close> being the error.
  \<^item> A Go map is an association list with distinct keys; the locale \<open>go_map\<close> states the
    laws the components use, and is interpreted on these association lists.
  \<^item> A \<^verbatim>\<open>time.Time\<close> or \<^verbatim>\<open>time.Duration\<close> is an \<^typ>\<open>int\<close> number of nanoseconds (since the Unix
    epoch, for a time).
\<close>

named_theorems go_defs "definitions of the Go string and path functions"

section \<open>Errors\<close>

text \<open>
  \<open>Err\<close> is an error whose text the source fixes (\<^verbatim>\<open>errors.New\<close>); \<open>ErrLib\<close> one that a library
  call or the system returns, tagged with the call. The two context errors and \<^verbatim>\<open>io.EOF\<close> are
  distinguished because the sources test for them. \<open>ErrWrap\<close> is \<^verbatim>\<open>fmt.Errorf\<close> with \<^verbatim>\<open>%w\<close>: the text before the
  wrapped error, and that error. \<open>ErrStatus\<close> is a gRPC status and \<open>ErrObserved\<close>
  the \<^verbatim>\<open>observationError\<close> wrapper of \<^verbatim>\<open>metrics_listener.go\<close>.
\<close>

datatype grpc_code =
    CodeUnknown | CodeCanceled | CodeDeadlineExceeded | CodeInvalidArgument
  | CodeFailedPrecondition | CodeUnauthenticated | CodeInternal

datatype go_error =
    Err string
  | ErrLib string
  | ErrCanceled
  | ErrDeadline
  | ErrEOF
  | ErrStatus grpc_code string
  | ErrObserved go_error string string
  | ErrWrap string go_error

type_synonym 'a result = "go_error + 'a"

abbreviation Ok :: "'a \<Rightarrow> 'a result" where
  "Ok x \<equiv> Inr x"

abbreviation Fail :: "string \<Rightarrow> 'a result" where
  "Fail msg \<equiv> Inl (Err msg)"

definition is_ok :: "'a result \<Rightarrow> bool" where
  "is_ok r = (case r of Inl _ \<Rightarrow> False | Inr _ \<Rightarrow> True)"

lemma is_ok_simps [simp]: "is_ok (Inr x)" "\<not> is_ok (Inl e)"
  by (simp_all add: is_ok_def)

lemma is_ok_iff: "is_ok r \<longleftrightarrow> (\<exists>x. r = Inr x)"
  by (auto simp: is_ok_def split: sum.splits)

section \<open>Go maps\<close>

type_synonym ('k, 'v) gmap = "('k \<times> 'v) list"

definition gm_get :: "('k, 'v) gmap \<Rightarrow> 'k \<Rightarrow> 'v option" where
  "gm_get m k = map_of m k"

definition gm_put :: "'k \<Rightarrow> 'v \<Rightarrow> ('k, 'v) gmap \<Rightarrow> ('k, 'v) gmap" where
  "gm_put k v m = AList.update k v m"

definition gm_del :: "'k \<Rightarrow> ('k, 'v) gmap \<Rightarrow> ('k, 'v) gmap" where
  "gm_del k m = AList.delete k m"

definition gm_count :: "('v \<Rightarrow> bool) \<Rightarrow> ('k, 'v) gmap \<Rightarrow> nat" where
  "gm_count P m = length (filter (\<lambda>e. P (snd e)) m)"

definition gm_ok :: "('k, 'v) gmap \<Rightarrow> bool" where
  "gm_ok m = distinct (map fst m)"

text \<open>The interface: lookup after each operation, and how many values satisfy a predicate.\<close>

locale go_map =
  fixes mempty :: "'m"
    and get :: "'m \<Rightarrow> 'k \<Rightarrow> 'v option"
    and put :: "'k \<Rightarrow> 'v \<Rightarrow> 'm \<Rightarrow> 'm"
    and del :: "'k \<Rightarrow> 'm \<Rightarrow> 'm"
    and count :: "('v \<Rightarrow> bool) \<Rightarrow> 'm \<Rightarrow> nat"
    and ok :: "'m \<Rightarrow> bool"
  assumes get_empty: "get mempty k = None"
    and get_put: "get (put k v m) k' = (if k' = k then Some v else get m k')"
    and get_del: "get (del k m) k' = (if k' = k then None else get m k')"
    and ok_empty: "ok mempty"
    and ok_put: "ok m \<Longrightarrow> ok (put k v m)"
    and ok_del: "ok m \<Longrightarrow> ok (del k m)"
    and count_empty: "count P mempty = 0"
    and count_put_new: "get m k = None \<Longrightarrow> count P (put k v m) = count P m + (if P v then 1 else 0)"
    and count_del_old:
      "ok m \<Longrightarrow> get m k = Some v \<Longrightarrow> count P m = count P (del k m) + (if P v then 1 else 0)"
    and count_put_old: "ok m \<Longrightarrow> get m k = Some w \<Longrightarrow>
      count P (put k v m) + (if P w then 1 else 0) = count P m + (if P v then 1 else 0)"
    and del_absent: "get m k = None \<Longrightarrow> del k m = m"
begin

lemma count_del_le: "ok m \<Longrightarrow> count P (del k m) \<le> count P m"
  by (cases "get m k") (auto simp: del_absent dest: count_del_old [of m k _ P])

text \<open>A guarded insertion, the shape every bounded table of the program has, keeps its bound.\<close>

lemma guarded_put_bound:
  assumes "ok m" and "count P m \<le> cap" and "get m k = None \<Longrightarrow> count P m < cap"
    and "\<And>w. get m k = Some w \<Longrightarrow> P w"
  shows "count P (put k v m) \<le> cap"
proof (cases "get m k")
  case None
  then show ?thesis using assms(3) by (simp add: count_put_new)
next
  case (Some w)
  with assms(4) have "P w" by simp
  with count_put_old [OF assms(1) Some, of P v] assms(2) show ?thesis
    by (cases "P v") auto
qed

end

lemma gm_count_put_new:
  "map_of m k = None \<Longrightarrow>
    length (filter (\<lambda>e. P (snd e)) (AList.update k v m)) =
    length (filter (\<lambda>e. P (snd e)) m) + (if P v then 1 else 0)"
  by (induction m) (auto split: if_splits)

lemma gm_count_del_old:
  "distinct (map fst m) \<Longrightarrow> map_of m k = Some v \<Longrightarrow>
    length (filter (\<lambda>e. P (snd e)) m) =
    length (filter (\<lambda>e. P (snd e)) (AList.delete k m)) + (if P v then 1 else 0)"
proof (induction m)
  case Nil
  then show ?case by simp
next
  case (Cons e m)
  show ?case
  proof (cases "fst e = k")
    case True
    with Cons.prems have "k \<notin> fst ` set m" by auto
    with True Cons.prems(2) show ?thesis by simp
  next
    case False
    with Cons show ?thesis by (cases e) auto
  qed
qed

lemma gm_count_put_old:
  "distinct (map fst m) \<Longrightarrow> map_of m k = Some w \<Longrightarrow>
    length (filter (\<lambda>e. P (snd e)) (AList.update k v m)) + (if P w then 1 else 0) =
    length (filter (\<lambda>e. P (snd e)) m) + (if P v then 1 else 0)"
  by (induction m) (auto split: if_splits)

interpretation gm: go_map "[]" gm_get gm_put gm_del gm_count gm_ok
proof unfold_locales
  show "gm_count P (gm_put k v m) = gm_count P m + (if P v then 1 else 0)"
    if "gm_get m k = None" for m :: "('a, 'b) gmap" and k P v
    using that unfolding gm_get_def gm_put_def gm_count_def by (rule gm_count_put_new)
  show "gm_count P m = gm_count P (gm_del k m) + (if P v then 1 else 0)"
    if "gm_ok m" "gm_get m k = Some v" for m :: "('a, 'b) gmap" and k P v
    using that unfolding gm_get_def gm_del_def gm_count_def gm_ok_def by (rule gm_count_del_old)
  show "gm_count P (gm_put k v m) + (if P w then 1 else 0) = gm_count P m + (if P v then 1 else 0)"
    if "gm_ok m" "gm_get m k = Some w" for m :: "('a, 'b) gmap" and k w P v
    using that unfolding gm_get_def gm_put_def gm_count_def gm_ok_def by (rule gm_count_put_old)
qed (auto simp: gm_get_def gm_put_def gm_del_def gm_count_def gm_ok_def update_conv' delete_conv'
      distinct_update distinct_delete map_of_eq_None_iff)

lemmas gm_get_simps [simp] = gm.get_empty gm.get_put gm.get_del
lemmas gm_ok_intros [simp, intro] = gm.ok_empty gm.ok_put gm.ok_del

abbreviation gm_len :: "('k, 'v) gmap \<Rightarrow> nat" where
  "gm_len m \<equiv> gm_count (\<lambda>_. True) m"

lemma gm_len_length: "gm_len m = length m"
  by (simp add: gm_count_def)

text \<open>Removing every entry whose value satisfies a predicate, as a loop that deletes does.\<close>

definition gm_prune :: "('v \<Rightarrow> bool) \<Rightarrow> ('k, 'v) gmap \<Rightarrow> ('k, 'v) gmap" where
  "gm_prune P m = filter (\<lambda>e. \<not> P (snd e)) m"

lemma gm_ok_prune [simp, intro]: "gm_ok m \<Longrightarrow> gm_ok (gm_prune P m)"
  by (simp add: gm_ok_def gm_prune_def distinct_map_filter)

lemma gm_get_prune:
  "gm_ok m \<Longrightarrow> gm_get (gm_prune P m) k =
    (case gm_get m k of None \<Rightarrow> None | Some v \<Rightarrow> if P v then None else Some v)"
proof (induction m)
  case Nil
  then show ?case by (simp add: gm_get_def gm_prune_def)
next
  case (Cons e m)
  then have *: "gm_get (gm_prune P m) k =
      (case gm_get m k of None \<Rightarrow> None | Some v \<Rightarrow> if P v then None else Some v)"
    by (simp add: gm_ok_def)
  show ?case
  proof (cases "fst e = k")
    case True
    with Cons.prems have "gm_get m k = None"
      by (auto simp: gm_ok_def gm_get_def map_of_eq_None_iff)
    with True * show ?thesis by (cases e) (auto simp: gm_get_def gm_prune_def)
  next
    case False
    with * show ?thesis by (cases e) (auto simp: gm_get_def gm_prune_def)
  qed
qed

lemma gm_count_prune: "gm_count Q m = gm_count Q (gm_prune P m) + gm_count (\<lambda>v. P v \<and> Q v) m"
  by (induction m) (auto simp: gm_count_def gm_prune_def)

lemma gm_get_mem: "gm_get m k = Some v \<Longrightarrow> (k, v) \<in> set m"
  by (simp add: gm_get_def map_of_SomeD)

lemma gm_mem_get: "gm_ok m \<Longrightarrow> (k, v) \<in> set m \<Longrightarrow> gm_get m k = Some v"
  by (simp add: gm_get_def gm_ok_def)

section \<open>Times\<close>

type_synonym time = int

abbreviation seconds :: "int \<Rightarrow> int" where
  "seconds n \<equiv> n * 1000000000"

text \<open>\<^verbatim>\<open>Time.Unix\<close>: whole seconds, rounded towards minus infinity.\<close>

definition unix_of :: "time \<Rightarrow> int" where
  "unix_of t = t div 1000000000"

lemma unix_of_mono: "s \<le> t \<Longrightarrow> unix_of s \<le> unix_of t"
  by (simp add: unix_of_def zdiv_mono1)

lemma unix_of_add_seconds [simp]: "unix_of (t + seconds n) = unix_of t + n"
  by (simp add: unix_of_def)

end
