(* ===== verification/Go_Text.thy ===== *)
theory Go_Text
  imports Realm_Prelude
begin

text \<open>
  The parts of Go's \<^verbatim>\<open>strings\<close>, \<^verbatim>\<open>strconv\<close>, \<^verbatim>\<open>path/filepath\<close> and \<^verbatim>\<open>regexp\<close> packages that the
  sources call, over byte strings. Regular expressions are data, matched by derivatives;
  \<open>rx_match_lang\<close> shows that the matcher decides the language of the expression.
\<close>

section \<open>strings\<close>

definition has_prefix :: "string \<Rightarrow> string \<Rightarrow> bool" where
  [go_defs]: "has_prefix p s = (take (length p) s = p)"

definition has_suffix :: "string \<Rightarrow> string \<Rightarrow> bool" where
  [go_defs]: "has_suffix p s = (length p \<le> length s \<and> drop (length s - length p) s = p)"

definition trim_prefix :: "string \<Rightarrow> string \<Rightarrow> string" where
  [go_defs]: "trim_prefix p s = (if has_prefix p s then drop (length p) s else s)"

fun split_on :: "char \<Rightarrow> string \<Rightarrow> string list" where
  "split_on c [] = [[]]"
| "split_on c (x # xs) =
     (if x = c then [] # split_on c xs
      else case split_on c xs of [] \<Rightarrow> [[x]] | y # ys \<Rightarrow> (x # y) # ys)"

fun join_with :: "string \<Rightarrow> string list \<Rightarrow> string" where
  "join_with sep [] = []"
| "join_with sep [x] = x"
| "join_with sep (x # xs) = x @ sep @ join_with sep xs"

fun contains_sub :: "string \<Rightarrow> string \<Rightarrow> bool" where
  "contains_sub p [] = (p = [])"
| "contains_sub p (c # s) = (has_prefix p (c # s) \<or> contains_sub p s)"

definition contains_any :: "string \<Rightarrow> string \<Rightarrow> bool" where
  "contains_any s chars = list_ex (\<lambda>c. c \<in> set chars) s"

lemma has_prefix_append [simp]: "has_prefix p (p @ s)"
  by (simp add: has_prefix_def)

lemma has_prefix_iff: "has_prefix p s \<longleftrightarrow> (\<exists>r. s = p @ r)"
  by (metis append_eq_conv_conj append_take_drop_id has_prefix_def)

lemma has_suffix_iff: "has_suffix p s \<longleftrightarrow> (\<exists>r. s = r @ p)"
proof
  assume "has_suffix p s"
  then have "s = take (length s - length p) s @ p"
    by (metis append_take_drop_id has_suffix_def)
  then show "\<exists>r. s = r @ p" by blast
next
  assume "\<exists>r. s = r @ p"
  then show "has_suffix p s" by (auto simp: has_suffix_def)
qed

lemma trim_prefix_append [simp]: "trim_prefix p (p @ s) = s"
  by (simp add: trim_prefix_def)

lemma split_on_nonempty [simp]: "split_on c s \<noteq> []"
  by (induction s) (auto split: list.splits)

lemma split_on_free: "x \<in> set (split_on c s) \<Longrightarrow> c \<notin> set x"
  by (induction s arbitrary: x) (auto split: if_splits list.splits)

lemma split_on_absent: "c \<notin> set s \<Longrightarrow> split_on c s = [s]"
  by (induction s) auto

lemma split_on_append: "c \<notin> set a \<Longrightarrow> split_on c (a @ c # b) = a # split_on c b"
  by (induction a) (auto split: list.splits)

lemma join_with_Cons: "xs \<noteq> [] \<Longrightarrow> join_with sep (x # xs) = x @ sep @ join_with sep xs"
  by (cases xs) simp_all

lemma join_split [simp]: "join_with [c] (split_on c s) = s"
proof (induction s)
  case Nil
  then show ?case by simp
next
  case (Cons x s)
  show ?case
  proof (cases "x = c")
    case True
    with Cons.IH show ?thesis by (simp add: join_with_Cons)
  next
    case False
    obtain y ys where ys: "split_on c s = y # ys" by (cases "split_on c s") auto
    with Cons.IH have "join_with [c] (y # ys) = s" by simp
    with False ys show ?thesis by (cases ys) auto
  qed
qed

lemma split_join:
  "xs \<noteq> [] \<Longrightarrow> (\<And>x. x \<in> set xs \<Longrightarrow> c \<notin> set x) \<Longrightarrow> split_on c (join_with [c] xs) = xs"
proof (induction xs)
  case (Cons x xs)
  then show ?case
    by (cases xs) (auto simp: split_on_append split_on_absent)
qed simp

text \<open>\<^verbatim>\<open>unicode.IsSpace\<close> in UTF-8, and \<^verbatim>\<open>strings.TrimSpace\<close>.\<close>

definition space_runes :: "string list" where
  "space_runes = [[CHR 0x09], [CHR 0x0A], [CHR 0x0B], [CHR 0x0C], [CHR 0x0D], [CHR 0x20], [CHR 0xC2, CHR 0x85],
     [CHR 0xC2, CHR 0xA0], [CHR 0xE1, CHR 0x9A, CHR 0x80], [CHR 0xE2, CHR 0x80, CHR 0x80], [CHR 0xE2, CHR 0x80, CHR 0x81],
     [CHR 0xE2, CHR 0x80, CHR 0x82], [CHR 0xE2, CHR 0x80, CHR 0x83], [CHR 0xE2, CHR 0x80, CHR 0x84],
     [CHR 0xE2, CHR 0x80, CHR 0x85], [CHR 0xE2, CHR 0x80, CHR 0x86], [CHR 0xE2, CHR 0x80, CHR 0x87],
     [CHR 0xE2, CHR 0x80, CHR 0x88], [CHR 0xE2, CHR 0x80, CHR 0x89], [CHR 0xE2, CHR 0x80, CHR 0x8A],
     [CHR 0xE2, CHR 0x80, CHR 0xA8], [CHR 0xE2, CHR 0x80, CHR 0xA9], [CHR 0xE2, CHR 0x80, CHR 0xAF],
     [CHR 0xE2, CHR 0x81, CHR 0x9F], [CHR 0xE3, CHR 0x80, CHR 0x80]]"

fun trim_left :: "string list \<Rightarrow> nat \<Rightarrow> string \<Rightarrow> string" where
  "trim_left rs 0 s = s"
| "trim_left rs (Suc n) s =
     (case find (\<lambda>r. has_prefix r s) rs of None \<Rightarrow> s | Some r \<Rightarrow> trim_left rs n (drop (length r) s))"

definition trim_space :: "string \<Rightarrow> string" where
  "trim_space s =
     (let l = trim_left space_runes (length s) s
      in rev (trim_left (map rev space_runes) (length l) (rev l)))"

section \<open>strconv\<close>

definition is_digit :: "char \<Rightarrow> bool" where
  "is_digit c = (48 \<le> (of_char c :: nat) \<and> (of_char c :: nat) \<le> 57)"

definition digit_val :: "char \<Rightarrow> nat" where
  "digit_val c = of_char c - 48"

definition digit_char :: "nat \<Rightarrow> char" where
  "digit_char d = char_of (d + 48)"

definition dec_val :: "string \<Rightarrow> nat" where
  "dec_val s = foldl (\<lambda>n c. 10 * n + digit_val c) 0 s"

fun show_nat :: "nat \<Rightarrow> string" where
  "show_nat n = (if n < 10 then [digit_char n] else show_nat (n div 10) @ [digit_char (n mod 10)])"

declare show_nat.simps [simp del]

definition itoa :: "int \<Rightarrow> string" where
  "itoa n = (if n < 0 then CHR ''-'' # show_nat (nat (- n)) else show_nat (nat n))"

text \<open>\<^verbatim>\<open>strconv.ParseInt(s, 10, 64)\<close>, which \<^verbatim>\<open>strconv.Atoi\<close> is on a 64-bit platform.\<close>

definition parse_digits :: "string \<Rightarrow> nat option" where
  "parse_digits s = (if s \<noteq> [] \<and> list_all is_digit s then Some (dec_val s) else None)"

definition atoi :: "string \<Rightarrow> int option" where
  "atoi s =
     (case s of [] \<Rightarrow> None
      | c # cs \<Rightarrow>
          if c = CHR ''-'' then
            (case parse_digits cs of None \<Rightarrow> None
             | Some n \<Rightarrow> if int n \<le> 2 ^ 63 then Some (- int n) else None)
          else
            (case parse_digits (if c = CHR ''+'' then cs else s) of None \<Rightarrow> None
             | Some n \<Rightarrow> if int n < 2 ^ 63 then Some (int n) else None))"

lemma digit_char_simps:
  assumes "d < 10"
  shows "is_digit (digit_char d)" and "digit_val (digit_char d) = d"
    and "of_char (digit_char d) = d + 48"
proof -
  show *: "of_char (digit_char d) = d + 48"
    using assms by (simp add: digit_char_def)
  then show "is_digit (digit_char d)" "digit_val (digit_char d) = d"
    using assms by (simp_all add: is_digit_def digit_val_def)
qed

lemma digit_char_literals:
  "digit_char 0 = CHR ''0''" "digit_char 1 = CHR ''1''" "digit_char 2 = CHR ''2''" "digit_char 3 = CHR ''3''"
  "digit_char 4 = CHR ''4''" "digit_char 5 = CHR ''5''" "digit_char 6 = CHR ''6''" "digit_char 7 = CHR ''7''"
  "digit_char 8 = CHR ''8''" "digit_char 9 = CHR ''9''" "digit_char (Suc 0) = CHR ''1''"
  by code_simp+

lemma dec_val_snoc: "dec_val (s @ [c]) = 10 * dec_val s + digit_val c"
  by (simp add: dec_val_def)

lemma show_nat_digits: "list_all is_digit (show_nat n) \<and> show_nat n \<noteq> [] \<and> dec_val (show_nat n) = n"
proof (induction n rule: show_nat.induct)
  case (1 n)
  show ?case
  proof (cases "n < 10")
    case True
    then have "show_nat n = [digit_char n]" by (subst show_nat.simps) simp
    with True show ?thesis by (simp add: digit_char_simps dec_val_def)
  next
    case False
    then have *: "show_nat n = show_nat (n div 10) @ [digit_char (n mod 10)]"
      by (subst show_nat.simps) simp
    from False 1 show ?thesis
      by (simp add: * dec_val_snoc digit_char_simps)
  qed
qed

lemma parse_show_nat [simp]: "parse_digits (show_nat n) = Some n"
  using show_nat_digits [of n] by (simp add: parse_digits_def)

lemma show_nat_hd: "show_nat n = c # cs \<Longrightarrow> is_digit c"
  using show_nat_digits [of n] by simp

text \<open>A printed number has no leading zero.\<close>

lemma show_nat_zero: "show_nat n = CHR ''0'' # cs \<Longrightarrow> cs = []"
proof (induction n arbitrary: cs rule: show_nat.induct)
  case (1 n)
  show ?case
  proof (cases "n < 10")
    case True
    with "1.prems" show ?thesis by (subst (asm) show_nat.simps) simp
  next
    case False
    then have eq: "show_nat n = show_nat (n div 10) @ [digit_char (n mod 10)]"
      by (subst show_nat.simps) simp
    obtain c ds where c: "show_nat (n div 10) = c # ds"
      using show_nat_digits [of "n div 10"] by (cases "show_nat (n div 10)") auto
    with eq "1.prems" have "c = CHR ''0''" by simp
    with "1.IH" [OF False] c have "ds = []" by simp
    with c \<open>c = CHR ''0''\<close> have "show_nat (n div 10) = ''0''" by simp
    then have "n div 10 = 0" using show_nat_digits [of "n div 10"] by (simp add: dec_val_def digit_val_def)
    with False show ?thesis by simp
  qed
qed

lemma atoi_itoa:
  assumes "- (2 ^ 63) \<le> n" and "n < 2 ^ 63"
  shows "atoi (itoa n) = Some n"
proof (cases "n < 0")
  case True
  with assms show ?thesis by (simp add: itoa_def atoi_def)
next
  case False
  obtain c cs where c: "show_nat (nat n) = c # cs"
    using show_nat_digits [of "nat n"] by (cases "show_nat (nat n)") auto
  then have "is_digit c" by (rule show_nat_hd)
  then have "c \<noteq> CHR ''-''" "c \<noteq> CHR ''+''" by (auto simp: is_digit_def)
  moreover have "parse_digits (c # cs) = Some (nat n)" using c [symmetric] by simp
  ultimately show ?thesis using False assms by (simp add: itoa_def atoi_def c)
qed

section \<open>path/filepath\<close>

text \<open>\<^verbatim>\<open>filepath.Clean\<close> on Unix: the components are read left to right onto a stack.\<close>

definition clean_step :: "bool \<Rightarrow> string list \<Rightarrow> string \<Rightarrow> string list" where
  "clean_step rooted st c =
     (if c = [] \<or> c = ''.'' then st
      else if c = ''..'' then
        (case st of [] \<Rightarrow> if rooted then [] else [c]
         | t # ts \<Rightarrow> if t = ''..'' then c # st else ts)
      else c # st)"

definition path_is_abs :: "string \<Rightarrow> bool" where
  "path_is_abs p = has_prefix ''/'' p"

definition path_clean :: "string \<Rightarrow> string" where
  "path_clean p =
     (let rooted = path_is_abs p;
          body = join_with ''/'' (rev (foldl (clean_step rooted) [] (split_on CHR ''/'' p)));
          out = (if rooted then CHR ''/'' # body else body)
      in if out = [] then ''.'' else out)"

text \<open>\<^verbatim>\<open>filepath.Dir\<close> cleans everything up to and including the last slash; \<^verbatim>\<open>filepath.Base\<close> is
  what follows the last slash once trailing slashes are removed.\<close>

definition upto_last_slash :: "string \<Rightarrow> string" where
  "upto_last_slash p = rev (dropWhile (\<lambda>c. c \<noteq> CHR ''/'') (rev p))"

definition path_dir :: "string \<Rightarrow> string" where
  "path_dir p = path_clean (upto_last_slash p)"

definition path_base :: "string \<Rightarrow> string" where
  "path_base p =
     (if p = [] then ''.''
      else let q = rev (dropWhile (\<lambda>c. c = CHR ''/'') (rev p))
           in if q = [] then ''/'' else rev (takeWhile (\<lambda>c. c \<noteq> CHR ''/'') (rev q)))"

lemma path_is_abs_iff: "path_is_abs p \<longleftrightarrow> (\<exists>q. p = CHR ''/'' # q)"
  by (auto simp: path_is_abs_def has_prefix_iff)

lemma path_clean_abs: "path_is_abs p \<Longrightarrow> path_is_abs (path_clean p)"
  by (simp add: path_clean_def Let_def path_is_abs_def has_prefix_def)

text \<open>A cleaned absolute path has no component that climbs: the stack never holds one.\<close>

definition plain_component :: "string \<Rightarrow> bool" where
  "plain_component c = (c \<noteq> [] \<and> c \<noteq> ''.'' \<and> c \<noteq> ''..'')"

lemma clean_step_plain:
  "list_all plain_component st \<Longrightarrow> list_all plain_component (clean_step True st c)"
  by (cases st) (simp_all add: plain_component_def clean_step_def)

lemma clean_stack_plain:
  "list_all plain_component st \<Longrightarrow> list_all plain_component (foldl (clean_step True) st cs)"
  by (induction cs arbitrary: st) (simp_all add: clean_step_plain)

lemma clean_step_set: "set (clean_step r st c) \<subseteq> insert c (set st)"
  by (cases st) (auto simp: clean_step_def)

lemma clean_stack_set: "set (foldl (clean_step r) st cs) \<subseteq> set st \<union> set cs"
proof (induction cs arbitrary: st)
  case (Cons c cs)
  have "set (foldl (clean_step r) (clean_step r st c) cs) \<subseteq> set (clean_step r st c) \<union> set cs"
    by (rule Cons.IH)
  also have "\<dots> \<subseteq> set st \<union> set (c # cs)"
    using clean_step_set [of r st c] by auto
  finally show ?case by simp
qed simp

lemma path_clean_components:
  assumes "path_is_abs p"
  obtains cs where "path_clean p = CHR ''/'' # join_with ''/'' cs"
    and "list_all plain_component cs" and "\<And>c. c \<in> set cs \<Longrightarrow> CHR ''/'' \<notin> set c"
proof
  let ?st = "foldl (clean_step True) [] (split_on CHR ''/'' p)"
  show "path_clean p = CHR ''/'' # join_with ''/'' (rev ?st)"
    using assms by (simp add: path_clean_def Let_def)
  have "list_all plain_component ?st" by (rule clean_stack_plain) simp
  then show "list_all plain_component (rev ?st)" by simp
  show "CHR ''/'' \<notin> set c" if "c \<in> set (rev ?st)" for c
  proof -
    from that clean_stack_set [of True "[]" "split_on CHR ''/'' p"]
    have "c \<in> set (split_on CHR ''/'' p)" by auto
    then show ?thesis by (rule split_on_free)
  qed
qed

section \<open>regexp\<close>

datatype rx =
    RNone | REps | RCls "char \<Rightarrow> bool" | RSeq rx rx | RAlt rx rx | RUpTo nat rx | RStar rx

fun rx_seq :: "rx \<Rightarrow> rx \<Rightarrow> rx" where
  "rx_seq RNone s = RNone"
| "rx_seq REps s = s"
| "rx_seq r s = RSeq r s"

fun rx_alt :: "rx \<Rightarrow> rx \<Rightarrow> rx" where
  "rx_alt RNone s = s"
| "rx_alt r s = (case s of RNone \<Rightarrow> r | _ \<Rightarrow> RAlt r s)"

primrec rx_nullable :: "rx \<Rightarrow> bool" where
  "rx_nullable RNone = False"
| "rx_nullable REps = True"
| "rx_nullable (RCls P) = False"
| "rx_nullable (RSeq r s) = (rx_nullable r \<and> rx_nullable s)"
| "rx_nullable (RAlt r s) = (rx_nullable r \<or> rx_nullable s)"
| "rx_nullable (RUpTo n r) = True"
| "rx_nullable (RStar r) = True"

primrec rx_deriv :: "char \<Rightarrow> rx \<Rightarrow> rx" where
  "rx_deriv c RNone = RNone"
| "rx_deriv c REps = RNone"
| "rx_deriv c (RCls P) = (if P c then REps else RNone)"
| "rx_deriv c (RSeq r s) =
     (if rx_nullable r then rx_alt (rx_seq (rx_deriv c r) s) (rx_deriv c s)
      else rx_seq (rx_deriv c r) s)"
| "rx_deriv c (RAlt r s) = rx_alt (rx_deriv c r) (rx_deriv c s)"
| "rx_deriv c (RUpTo n r) =
     (case n of 0 \<Rightarrow> RNone | Suc k \<Rightarrow> rx_seq (rx_deriv c r) (RUpTo k r))"
| "rx_deriv c (RStar r) = rx_seq (rx_deriv c r) (RStar r)"

fun rx_match :: "rx \<Rightarrow> string \<Rightarrow> bool" where
  "rx_match r [] = rx_nullable r"
| "rx_match r (c # s) = rx_match (rx_deriv c r) s"

primrec rx_lang :: "rx \<Rightarrow> string set" where
  "rx_lang RNone = {}"
| "rx_lang REps = {[]}"
| "rx_lang (RCls P) = {[c] | c. P c}"
| "rx_lang (RSeq r s) = {u @ v | u v. u \<in> rx_lang r \<and> v \<in> rx_lang s}"
| "rx_lang (RAlt r s) = rx_lang r \<union> rx_lang s"
| "rx_lang (RUpTo n r) = {concat ws | ws. length ws \<le> n \<and> set ws \<subseteq> rx_lang r}"
| "rx_lang (RStar r) = {concat ws | ws. set ws \<subseteq> rx_lang r}"

fun rx_lit :: "string \<Rightarrow> rx" where
  "rx_lit [] = REps"
| "rx_lit (c # s) = RSeq (RCls (\<lambda>x. x = c)) (rx_lit s)"

abbreviation rx_opt :: "rx \<Rightarrow> rx" where
  "rx_opt r \<equiv> RUpTo 1 r"

lemma rx_seq_lang [simp]: "rx_lang (rx_seq r s) = rx_lang (RSeq r s)"
  by (cases r) auto

lemma rx_alt_lang [simp]: "rx_lang (rx_alt r s) = rx_lang r \<union> rx_lang s"
  by (cases r; cases s) auto

lemma rx_nullable_lang: "rx_nullable r \<longleftrightarrow> [] \<in> rx_lang r"
  by (induction r) (auto intro: exI [of _ "[]"])

text \<open>A nonempty word split into pieces has a first nonempty piece.\<close>

lemma concat_first_nonempty:
  assumes "c # s = concat ws"
  obtains u vs where "c # u \<in> set ws" "s = u @ concat vs" "set vs \<subseteq> set ws" "length vs < length ws"
  using assms
proof (induction ws arbitrary: thesis)
  case (Cons w ws)
  show ?case
  proof (cases w)
    case Nil
    with Cons.prems(2) have "c # s = concat ws" by simp
    then obtain u vs where "c # u \<in> set ws" "s = u @ concat vs" "set vs \<subseteq> set ws" "length vs < length ws"
      using Cons.IH by blast
    then show ?thesis by (intro Cons.prems(1) [of u vs]) auto
  next
    case (Cons d u)
    with Cons.prems(2) show ?thesis by (intro Cons.prems(1) [of u ws]) auto
  qed
qed simp

lemma rx_deriv_lang: "s \<in> rx_lang (rx_deriv c r) \<longleftrightarrow> c # s \<in> rx_lang r"
proof (induction r arbitrary: s)
  case (RSeq r1 r2)
  show ?case
    by (auto simp: RSeq rx_nullable_lang Cons_eq_append_conv)
next
  case (RUpTo n r)
  show ?case
  proof
    assume "s \<in> rx_lang (rx_deriv c (RUpTo n r))"
    then obtain k u ws where "n = Suc k" "s = u @ concat ws" "c # u \<in> rx_lang r"
      "length ws \<le> k" "set ws \<subseteq> rx_lang r"
      by (auto simp: RUpTo.IH split: nat.splits)
    then show "c # s \<in> rx_lang (RUpTo n r)"
      by (auto intro!: exI [of _ "(c # u) # ws"])
  next
    assume "c # s \<in> rx_lang (RUpTo n r)"
    then obtain ws where ws: "c # s = concat ws" "length ws \<le> n" "set ws \<subseteq> rx_lang r" by auto
    from ws(1) obtain u vs where *: "c # u \<in> set ws" "s = u @ concat vs" "set vs \<subseteq> set ws"
      "length vs < length ws"
      by (rule concat_first_nonempty)
    then obtain k where "n = Suc k" using ws(2) by (cases n) auto
    moreover have "c # u \<in> rx_lang r" "set vs \<subseteq> rx_lang r" using * ws by auto
    ultimately show "s \<in> rx_lang (rx_deriv c (RUpTo n r))"
      using * ws(2) by (force simp: RUpTo.IH)
  qed
next
  case (RStar r)
  show ?case
  proof
    assume "s \<in> rx_lang (rx_deriv c (RStar r))"
    then obtain u ws where "s = u @ concat ws" "c # u \<in> rx_lang r" "set ws \<subseteq> rx_lang r"
      by (auto simp: RStar.IH)
    then show "c # s \<in> rx_lang (RStar r)"
      by (auto intro!: exI [of _ "(c # u) # ws"])
  next
    assume "c # s \<in> rx_lang (RStar r)"
    then obtain ws where ws: "c # s = concat ws" "set ws \<subseteq> rx_lang r" by auto
    from ws(1) obtain u vs where *: "c # u \<in> set ws" "s = u @ concat vs" "set vs \<subseteq> set ws"
      by (rule concat_first_nonempty)
    then have "c # u \<in> rx_lang r" "set vs \<subseteq> rx_lang r" using ws by auto
    with * show "s \<in> rx_lang (rx_deriv c (RStar r))"
      by (auto simp: RStar.IH)
  qed
qed auto

theorem rx_match_lang: "rx_match r s \<longleftrightarrow> s \<in> rx_lang r"
  by (induction s arbitrary: r) (simp_all add: rx_nullable_lang rx_deriv_lang)

text \<open>Bounded and unbounded repetition of one character class.\<close>

lemma concat_singletons:
  "set ws \<subseteq> {[c] | c. P c} \<Longrightarrow> length (concat ws) = length ws \<and> list_all P (concat ws)"
  by (induction ws) auto

lemma singletons_concat: "concat (map (\<lambda>c. [c]) s) = s"
  by (induction s) auto

lemma map_singletons: "list_all P s \<Longrightarrow> set (map (\<lambda>c. [c]) s) \<subseteq> {[c] | c. P c}"
  by (auto simp: list_all_iff)

lemma rx_lang_upto_cls: "s \<in> rx_lang (RUpTo n (RCls P)) \<longleftrightarrow> length s \<le> n \<and> list_all P s"
proof
  show "length s \<le> n \<and> list_all P s" if "s \<in> rx_lang (RUpTo n (RCls P))"
    using that by (auto dest!: concat_singletons)
  show "s \<in> rx_lang (RUpTo n (RCls P))" if "length s \<le> n \<and> list_all P s"
  proof -
    from that have "set (map (\<lambda>c. [c]) s) \<subseteq> rx_lang (RCls P)" by (simp only: map_singletons rx_lang.simps)
    moreover have "s = concat (map (\<lambda>c. [c]) s)" by (rule singletons_concat [symmetric])
    moreover have "length (map (\<lambda>c. [c]) s) \<le> n" using that by simp
    ultimately show ?thesis unfolding rx_lang.simps(6) by blast
  qed
qed

lemma rx_lang_star_cls: "s \<in> rx_lang (RStar (RCls P)) \<longleftrightarrow> list_all P s"
proof
  show "list_all P s" if "s \<in> rx_lang (RStar (RCls P))"
    using that by (auto dest!: concat_singletons)
  show "s \<in> rx_lang (RStar (RCls P))" if "list_all P s"
  proof -
    from that have "set (map (\<lambda>c. [c]) s) \<subseteq> rx_lang (RCls P)" by (simp only: map_singletons rx_lang.simps)
    moreover have "s = concat (map (\<lambda>c. [c]) s)" by (rule singletons_concat [symmetric])
    ultimately show ?thesis unfolding rx_lang.simps(7) by blast
  qed
qed

lemma rx_lang_lit: "rx_lang (rx_lit s) = {s}"
  by (induction s) auto

lemma rx_lang_opt: "s \<in> rx_lang (rx_opt r) \<longleftrightarrow> s = [] \<or> s \<in> rx_lang r"
proof
  assume "s \<in> rx_lang (rx_opt r)"
  then obtain ws where ws: "s = concat ws" "length ws \<le> 1" "set ws \<subseteq> rx_lang r" by auto
  then show "s = [] \<or> s \<in> rx_lang r" by (cases ws) auto
next
  assume "s = [] \<or> s \<in> rx_lang r"
  then show "s \<in> rx_lang (rx_opt r)"
    by (auto intro: exI [of _ "[]"] exI [of _ "[s]"])
qed

lemma rx_lang_seqI: "u \<in> rx_lang r \<Longrightarrow> v \<in> rx_lang q \<Longrightarrow> u @ v \<in> rx_lang (RSeq r q)"
  by auto

lemma rx_lang_clsI: "P c \<Longrightarrow> [c] \<in> rx_lang (RCls P)"
  by simp

end
