(* ===== verification/Go_Base64.thy ===== *)
theory Go_Base64
  imports Go_Text
begin

text \<open>
  Go's \<^verbatim>\<open>base64.RawURLEncoding\<close>: \<open>b64_encode\<close> is \<^verbatim>\<open>EncodeToString\<close>, and \<open>b64_decode_strict\<close> is
  \<^verbatim>\<open>Strict().DecodeString\<close>, which still ignores carriage returns and line feeds, refuses padding
  characters and refuses non-zero trailing bits. Decoding undoes encoding, so encoding is
  injective, and every encoded character is a letter, a digit, a dash or an underscore.
\<close>

definition b64_char :: "nat \<Rightarrow> char" where
  "b64_char n =
     char_of (if n < 26 then n + 65 else if n < 52 then n + 71 else if n < 62 then n - 4
              else if n = 62 then 45 else (95 :: nat))"

definition b64_val :: "char \<Rightarrow> nat option" where
  "b64_val c =
     (let n = of_char c in
      if 65 \<le> n \<and> n \<le> 90 then Some (n - 65)
      else if 97 \<le> n \<and> n \<le> 122 then Some (n - 71)
      else if 48 \<le> n \<and> n \<le> 57 then Some (n + 4)
      else if n = 45 then Some 62
      else if n = 95 then Some 63
      else None)"

fun b64_encode :: "string \<Rightarrow> string" where
  "b64_encode [] = []"
| "b64_encode [a] = (let x = of_char a in [b64_char (x div 4), b64_char (x mod 4 * 16)])"
| "b64_encode [a, b] =
     (let x = of_char a; y = of_char b in
      [b64_char (x div 4), b64_char (x mod 4 * 16 + y div 16), b64_char (y mod 16 * 4)])"
| "b64_encode (a # b # c # cs) =
     (let x = of_char a; y = of_char b; z = of_char c in
      b64_char (x div 4) # b64_char (x mod 4 * 16 + y div 16) #
      b64_char (y mod 16 * 4 + z div 64) # b64_char (z mod 64) # b64_encode cs)"

fun b64_quanta :: "string \<Rightarrow> string option" where
  "b64_quanta [] = Some []"
| "b64_quanta [_] = None"
| "b64_quanta [p, q] =
     (case (b64_val p, b64_val q) of
        (Some x, Some y) \<Rightarrow> if y mod 16 = 0 then Some [char_of (x * 4 + y div 16)] else None
      | _ \<Rightarrow> None)"
| "b64_quanta [p, q, r] =
     (case (b64_val p, b64_val q, b64_val r) of
        (Some x, Some y, Some z) \<Rightarrow>
          if z mod 4 = 0
          then Some [char_of (x * 4 + y div 16), char_of (y mod 16 * 16 + z div 4)] else None
      | _ \<Rightarrow> None)"
| "b64_quanta (p # q # r # s # cs) =
     (case (b64_val p, b64_val q, b64_val r, b64_val s) of
        (Some x, Some y, Some z, Some w) \<Rightarrow>
          map_option (\<lambda>bs. char_of (x * 4 + y div 16) # char_of (y mod 16 * 16 + z div 4)
                             # char_of (z mod 4 * 64 + w) # bs) (b64_quanta cs)
      | _ \<Rightarrow> None)"

definition b64_decode_strict :: "string \<Rightarrow> string option" where
  "b64_decode_strict s = b64_quanta (filter (\<lambda>c. c \<noteq> CHR 0x0A \<and> c \<noteq> CHR 0x0D) s)"

definition b64_safe :: "char \<Rightarrow> bool" where
  "b64_safe c = (b64_val c \<noteq> None)"

lemma b64_val_char [simp]: "n < 64 \<Longrightarrow> b64_val (b64_char n) = Some n"
  by (auto simp: b64_val_def b64_char_def Let_def)

lemma b64_safe_char: "n < 64 \<Longrightarrow> b64_safe (b64_char n)"
  by (simp add: b64_safe_def)

lemma b64_safe_not_newline: "b64_safe c \<Longrightarrow> c \<noteq> CHR 0x0A \<and> c \<noteq> CHR 0x0D"
  by (auto simp: b64_safe_def b64_val_def)

lemma of_char_bound: "(of_char c :: nat) < 256"
  using of_char_mod_256 [where 'a = nat, of c] by simp

lemma byte_divs: "(of_char c :: nat) div 4 < 64" "(of_char c :: nat) div 16 < 16" "(of_char c :: nat) div 64 < 4"
  using of_char_bound [of c] by (simp_all add: div_less_iff_less_mult)

lemma six_bits:
  "m < 16 \<Longrightarrow> x mod 4 * 16 + m < (64 :: nat)" "n < 4 \<Longrightarrow> x mod 16 * 4 + n < (64 :: nat)"
proof -
  have "x mod 4 \<le> 3" "x mod 16 \<le> 15" by simp_all
  then show "m < 16 \<Longrightarrow> x mod 4 * 16 + m < 64" "n < 4 \<Longrightarrow> x mod 16 * 4 + n < 64" by linarith+
qed

lemma b64_encode_safe: "list_all b64_safe (b64_encode s)"
  by (induction s rule: b64_encode.induct)
    (simp_all add: Let_def b64_safe_char byte_divs six_bits six_bits(1) [of 0, simplified]
      six_bits(2) [of 0, simplified])

lemma split_16: "m < 16 \<Longrightarrow> (k * 16 + m) div 16 = k" "m < 16 \<Longrightarrow> (k * 16 + m) mod 16 = (m :: nat)"
  by simp_all

lemma split_4: "m < 4 \<Longrightarrow> (k * 4 + m) div 4 = k" "m < 4 \<Longrightarrow> (k * 4 + m) mod 4 = (m :: nat)"
  by simp_all

lemma b64_quanta_encode: "b64_quanta (b64_encode s) = Some s"
  by (induction s rule: b64_encode.induct)
    (simp_all add: Let_def byte_divs six_bits split_16 split_4 six_bits(1) [of 0, simplified]
      six_bits(2) [of 0, simplified])

theorem b64_decode_encode: "b64_decode_strict (b64_encode s) = Some s"
proof -
  have "filter (\<lambda>c. c \<noteq> CHR 0x0A \<and> c \<noteq> CHR 0x0D) (b64_encode s) = b64_encode s"
    using b64_encode_safe [of s] by (auto simp: list_all_iff filter_id_conv dest: b64_safe_not_newline)
  then show ?thesis by (simp add: b64_decode_strict_def b64_quanta_encode)
qed

lemma b64_encode_inj: "b64_encode s = b64_encode t \<longleftrightarrow> s = t"
  by (metis b64_decode_encode option.inject)

lemma b64_encode_length: "length (b64_encode s) = (4 * length s + 2) div 3"
  by (induction s rule: b64_encode.induct) (auto simp: Let_def)

end
