(* ===== verification/Go_Json.thy ===== *)
theory Go_Json
  imports Go_Text
begin

text \<open>
  Go's \<^verbatim>\<open>encoding/json\<close>, as the sources use it: \<open>json_next\<close> is the value a
  \<^verbatim>\<open>json.Decoder\<close> reads next, with what is left of the input; the \<open>dec_\<close> combinators store a
  value into a Go variable (\<^verbatim>\<open>null\<close> leaves it alone, keys match a field exactly or up to case, a
  repeated key overwrites, an unknown key is refused when the decoder says so); \<open>json_print\<close> is
  \<^verbatim>\<open>json.Marshal\<close> of a tree. The parser recurses on fuel; \<open>json_next_fuel\<close> shows that
  the fuel it is given never runs out.

  The scanner's nesting limit of 10000 is left out: a document the sources decode is either at
  most 8192 bytes long or decoded into a type of bounded depth with unknown fields refused, so a
  deeper document is an error either way. The exceptions are what the \<^verbatim>\<open>ip\<close> tool prints and the manifest of
  registrations, which the model decodes at any depth.
\<close>

datatype json =
    JNull | JBool bool | JNum string | JStr string | JArr "json list" | JObj "(string \<times> json) list"

section \<open>Strings\<close>

definition is_cont :: "nat \<Rightarrow> bool" where
  "is_cont n = (128 \<le> n \<and> n \<le> 191)"

text \<open>The length of the UTF-8 sequence a byte string starts with, as \<^verbatim>\<open>utf8.DecodeRune\<close> accepts it.\<close>

definition utf8_len :: "string \<Rightarrow> nat option" where
  "utf8_len s =
     (let b = (\<lambda>i. if i < length s then of_char (s ! i) else (0::nat)) in
      if s = [] then None
      else if b 0 < 128 then Some 1
      else if 194 \<le> b 0 \<and> b 0 \<le> 223 then (if is_cont (b 1) then Some 2 else None)
      else if 224 \<le> b 0 \<and> b 0 \<le> 239 then
        (if (if b 0 = 224 then 160 \<le> b 1 \<and> b 1 \<le> 191
             else if b 0 = 237 then 128 \<le> b 1 \<and> b 1 \<le> 159 else is_cont (b 1)) \<and> is_cont (b 2)
         then Some 3 else None)
      else if 240 \<le> b 0 \<and> b 0 \<le> 244 then
        (if (if b 0 = 240 then 144 \<le> b 1 \<and> b 1 \<le> 191
             else if b 0 = 244 then 128 \<le> b 1 \<and> b 1 \<le> 143 else is_cont (b 1))
            \<and> is_cont (b 2) \<and> is_cont (b 3)
         then Some 4 else None)
      else None)"

definition utf8_encode :: "nat \<Rightarrow> string" where
  "utf8_encode r =
     (if r < 128 then [char_of r]
      else if r < 2048 then [char_of (192 + r div 64), char_of (128 + r mod 64)]
      else if r < 65536 then
        [char_of (224 + r div 4096), char_of (128 + r div 64 mod 64), char_of (128 + r mod 64)]
      else [char_of (240 + r div 262144), char_of (128 + r div 4096 mod 64),
            char_of (128 + r div 64 mod 64), char_of (128 + r mod 64)])"

definition rune_error :: string where
  "rune_error = [CHR 0xEF, CHR 0xBF, CHR 0xBD]"

definition hex_val :: "char \<Rightarrow> nat option" where
  "hex_val c =
     (let n = of_char c in
      if 48 \<le> n \<and> n \<le> 57 then Some (n - 48)
      else if 97 \<le> n \<and> n \<le> 102 then Some (n - 87)
      else if 65 \<le> n \<and> n \<le> 70 then Some (n - 55)
      else None)"

definition hex4 :: "char \<Rightarrow> char \<Rightarrow> char \<Rightarrow> char \<Rightarrow> nat option" where
  "hex4 a b c d =
     (case (hex_val a, hex_val b, hex_val c, hex_val d) of
        (Some w, Some x, Some y, Some z) \<Rightarrow> Some (4096 * w + 256 * x + 16 * y + z)
      | _ \<Rightarrow> None)"

definition short_escape :: "char \<Rightarrow> char option" where
  "short_escape c =
     (if c = CHR 0x22 \<or> c = CHR 0x5C \<or> c = CHR ''/'' then Some c
      else if c = CHR ''b'' then Some (CHR 0x08)
      else if c = CHR ''f'' then Some (CHR 0x0C)
      else if c = CHR ''n'' then Some (CHR 0x0A)
      else if c = CHR ''r'' then Some (CHR 0x0D)
      else if c = CHR ''t'' then Some (CHR 0x09)
      else None)"

abbreviation lex_more :: "string \<Rightarrow> (string \<times> string) option \<Rightarrow> (string \<times> string) option" where
  "lex_more p r \<equiv> map_option (\<lambda>(x, t). (p @ x, t)) r"

definition hex4_at :: "string \<Rightarrow> nat option" where
  "hex4_at s = (if length s < 4 then None else hex4 (s ! 0) (s ! 1) (s ! 2) (s ! 3))"

text \<open>
  An escape, from after its backslash: the bytes it stands for and how many it takes. A surrogate
  pair written as two escapes is one rune; a lone surrogate becomes U+FFFD.
\<close>

definition lex_escape :: "string \<Rightarrow> (string \<times> nat) option" where
  "lex_escape s =
     (case s of
        [] \<Rightarrow> None
      | e # t \<Rightarrow>
          if e = CHR ''u'' then
            (case hex4_at t of
               None \<Rightarrow> None
             | Some rr \<Rightarrow>
                 if 55296 \<le> rr \<and> rr < 57344 then
                   (case (if has_prefix [CHR 0x5C, CHR ''u''] (drop 4 t) then hex4_at (drop 6 t) else None) of
                      None \<Rightarrow> Some (rune_error, 5)
                    | Some ll \<Rightarrow>
                        if rr < 56320 \<and> 56320 \<le> ll \<and> ll < 57344
                        then Some (utf8_encode (65536 + (rr - 55296) * 1024 + (ll - 56320)), 11)
                        else Some (rune_error, 5))
                 else Some (utf8_encode rr, 5))
          else map_option (\<lambda>d. ([d], 1)) (short_escape e))"

text \<open>
  A string literal, from after its opening quote. The first argument counts the bytes of the
  current UTF-8 sequence that are still to be copied; a malformed sequence becomes U+FFFD.
\<close>

fun lex_string :: "nat \<Rightarrow> string \<Rightarrow> (string \<times> string) option" where
  "lex_string k [] = None"
| "lex_string (Suc k) (c # s) = lex_more [c] (lex_string k s)"
| "lex_string 0 (c # s) =
     (if c = CHR 0x22 then Some ([], s)
      else if c = CHR 0x5C then
        (case lex_escape s of
           None \<Rightarrow> None
         | Some (d, n) \<Rightarrow> lex_more d (lex_string 0 (drop n s)))
      else if (of_char c :: nat) < 32 then None
      else (case utf8_len (c # s) of
              Some n \<Rightarrow> lex_more [c] (lex_string (n - 1) s)
            | None \<Rightarrow> lex_more rune_error (lex_string 0 s)))"

section \<open>Numbers\<close>

definition lex_frac :: "string \<Rightarrow> (string \<times> string) option" where
  "lex_frac s =
     (case s of
        c # r \<Rightarrow>
          (if c = CHR ''.'' then
             (let ds = takeWhile is_digit r in
              if ds = [] then None else Some (c # ds, dropWhile is_digit r))
           else Some ([], s))
      | [] \<Rightarrow> Some ([], s))"

definition lex_exp :: "string \<Rightarrow> (string \<times> string) option" where
  "lex_exp s =
     (case s of
        c # r \<Rightarrow>
          (if c = CHR ''e'' \<or> c = CHR ''E'' then
             (let sg = (case r of d # _ \<Rightarrow> if d = CHR ''+'' \<or> d = CHR ''-'' then [d] else [] | [] \<Rightarrow> []);
                  q = drop (length sg) r; ds = takeWhile is_digit q in
              if ds = [] then None else Some (c # sg @ ds, dropWhile is_digit q))
           else Some ([], s))
      | [] \<Rightarrow> Some ([], s))"

definition lex_sign :: "string \<Rightarrow> string \<times> string" where
  "lex_sign s = (case s of c # r \<Rightarrow> if c = CHR ''-'' then ([c], r) else ([], s) | [] \<Rightarrow> ([], s))"

definition lex_int :: "string \<Rightarrow> (string \<times> string) option" where
  "lex_int s =
     (case s of
        [] \<Rightarrow> None
      | c # r \<Rightarrow>
          if c = CHR ''0'' then Some ([c], r)
          else if is_digit c then Some (takeWhile is_digit s, dropWhile is_digit s)
          else None)"

definition lex_number :: "string \<Rightarrow> (string \<times> string) option" where
  "lex_number s =
     (case lex_sign s of
        (sg, q) \<Rightarrow>
          (case lex_int q of
             None \<Rightarrow> None
           | Some (ds, t) \<Rightarrow>
               (case lex_frac t of
                  None \<Rightarrow> None
                | Some (f, t') \<Rightarrow>
                    (case lex_exp t' of
                       None \<Rightarrow> None
                     | Some (e, t'') \<Rightarrow> Some (sg @ ds @ f @ e, t'')))))"

section \<open>Values\<close>

definition is_ws :: "char \<Rightarrow> bool" where
  "is_ws c = (c = CHR '' '' \<or> c = CHR 0x09 \<or> c = CHR 0x0A \<or> c = CHR 0x0D)"

definition skip_ws :: "string \<Rightarrow> string" where
  "skip_ws s = dropWhile is_ws s"

fun parse_value :: "nat \<Rightarrow> string \<Rightarrow> (json \<times> string) option"
  and parse_elems :: "nat \<Rightarrow> string \<Rightarrow> (json list \<times> string) option"
  and parse_members :: "nat \<Rightarrow> string \<Rightarrow> ((string \<times> json) list \<times> string) option" where
  "parse_value 0 s = None"
| "parse_value (Suc n) s =
     (case skip_ws s of
        [] \<Rightarrow> None
      | c # r \<Rightarrow>
          if c = CHR ''{'' then
            (case skip_ws r of
               [] \<Rightarrow> None
             | d # r' \<Rightarrow>
                 if d = CHR ''}'' then Some (JObj [], r')
                 else map_option (\<lambda>(ms, t). (JObj ms, t)) (parse_members n (d # r')))
          else if c = CHR ''['' then
            (case skip_ws r of
               [] \<Rightarrow> None
             | d # r' \<Rightarrow>
                 if d = CHR '']'' then Some (JArr [], r')
                 else map_option (\<lambda>(vs, t). (JArr vs, t)) (parse_elems n (d # r')))
          else if c = CHR 0x22 then map_option (\<lambda>(x, t). (JStr x, t)) (lex_string 0 r)
          else if has_prefix ''true'' (c # r) then Some (JBool True, drop 3 r)
          else if has_prefix ''false'' (c # r) then Some (JBool False, drop 4 r)
          else if has_prefix ''null'' (c # r) then Some (JNull, drop 3 r)
          else map_option (\<lambda>(x, t). (JNum x, t)) (lex_number (c # r)))"
| "parse_elems 0 s = None"
| "parse_elems (Suc n) s =
     (case parse_value n s of
        None \<Rightarrow> None
      | Some (v, r) \<Rightarrow>
          (case skip_ws r of
             [] \<Rightarrow> None
           | c # t \<Rightarrow>
               if c = CHR '']'' then Some ([v], t)
               else if c = CHR '','' then map_option (\<lambda>(vs, u). (v # vs, u)) (parse_elems n t)
               else None))"
| "parse_members 0 s = None"
| "parse_members (Suc n) s =
     (case skip_ws s of
        [] \<Rightarrow> None
      | c # r \<Rightarrow>
          if c \<noteq> CHR 0x22 then None
          else
            (case lex_string 0 r of
               None \<Rightarrow> None
             | Some (k, r1) \<Rightarrow>
                 (case skip_ws r1 of
                    [] \<Rightarrow> None
                  | d # r2 \<Rightarrow>
                      if d \<noteq> CHR '':'' then None
                      else
                        (case parse_value n r2 of
                           None \<Rightarrow> None
                         | Some (v, r3) \<Rightarrow>
                             (case skip_ws r3 of
                                [] \<Rightarrow> None
                              | e # r4 \<Rightarrow>
                                  if e = CHR ''}'' then Some ([(k, v)], r4)
                                  else if e = CHR '','' then
                                    map_option (\<lambda>(ms, u). ((k, v) # ms, u)) (parse_members n r4)
                                  else None)))))"

definition json_next :: "string \<Rightarrow> (json \<times> string) option" where
  "json_next s = parse_value (2 * length s + 2) s"

text \<open>A further \<^verbatim>\<open>Decode\<close> reports \<^verbatim>\<open>io.EOF\<close> exactly when only white space is left.\<close>

definition json_at_eof :: "string \<Rightarrow> bool" where
  "json_at_eof s = list_all is_ws s"

section \<open>Storing a value into a Go variable\<close>

type_synonym 'a jdec = "json \<Rightarrow> 'a \<Rightarrow> 'a option"

definition dec_string :: "string jdec" where
  "dec_string j v = (case j of JNull \<Rightarrow> Some v | JStr s \<Rightarrow> Some s | _ \<Rightarrow> None)"

definition dec_bool :: "bool jdec" where
  "dec_bool j v = (case j of JNull \<Rightarrow> Some v | JBool b \<Rightarrow> Some b | _ \<Rightarrow> None)"

definition dec_int :: "int \<Rightarrow> int \<Rightarrow> int jdec" where
  "dec_int lo hi j v =
     (case j of
        JNull \<Rightarrow> Some v
      | JNum l \<Rightarrow> (case atoi l of None \<Rightarrow> None | Some n \<Rightarrow> if lo \<le> n \<and> n \<le> hi then Some n else None)
      | _ \<Rightarrow> None)"

abbreviation dec_int64 :: "int jdec" where
  "dec_int64 \<equiv> dec_int (- (2 ^ 63)) (2 ^ 63 - 1)"

text \<open>
  \<^verbatim>\<open>foldName\<close>: the smallest rune of each simple-folding orbit, on the runes that fold to ASCII
  (the Kelvin sign to \<^verbatim>\<open>K\<close>, the long s to \<^verbatim>\<open>S\<close>).
\<close>

fun fold_name :: "string \<Rightarrow> string" where
  "fold_name [] = []"
| "fold_name (c # s) =
     (if 97 \<le> (of_char c :: nat) \<and> (of_char c :: nat) \<le> 122
      then char_of ((of_char c :: nat) - 32) # fold_name s
      else if has_prefix [CHR 0xE2, CHR 0x84, CHR 0xAA] (c # s) then CHR ''K'' # fold_name (drop 2 s)
      else if has_prefix [CHR 0xC5, CHR 0xBF] (c # s) then CHR ''S'' # fold_name (drop 1 s)
      else c # fold_name s)"

definition field_for :: "(string \<times> 'a jdec) list \<Rightarrow> string \<Rightarrow> 'a jdec option" where
  "field_for fields key =
     (case map_of fields key of
        Some d \<Rightarrow> Some d
      | None \<Rightarrow> map_option snd (find (\<lambda>f. fold_name (fst f) = fold_name key) fields))"

fun dec_fields :: "bool \<Rightarrow> (string \<times> 'a jdec) list \<Rightarrow> (string \<times> json) list \<Rightarrow> 'a \<Rightarrow> 'a option" where
  "dec_fields strict fields [] v = Some v"
| "dec_fields strict fields ((k, j) # ms) v =
     (case field_for fields k of
        None \<Rightarrow> if strict then None else dec_fields strict fields ms v
      | Some d \<Rightarrow> (case d j v of None \<Rightarrow> None | Some v' \<Rightarrow> dec_fields strict fields ms v'))"

definition dec_struct :: "bool \<Rightarrow> (string \<times> 'a jdec) list \<Rightarrow> 'a jdec" where
  "dec_struct strict fields j v =
     (case j of JNull \<Rightarrow> Some v | JObj ms \<Rightarrow> dec_fields strict fields ms v | _ \<Rightarrow> None)"

definition dec_field :: "('a \<Rightarrow> 'b) \<Rightarrow> (('b \<Rightarrow> 'b) \<Rightarrow> 'a \<Rightarrow> 'a) \<Rightarrow> 'b jdec \<Rightarrow> 'a jdec" where
  "dec_field get upd d j v = map_option (\<lambda>x. upd (\<lambda>_. x) v) (d j (get v))"

text \<open>An array is stored element by element, each over the element the slice already had.\<close>

fun dec_elems :: "'a \<Rightarrow> 'a jdec \<Rightarrow> json list \<Rightarrow> 'a list \<Rightarrow> 'a list option" where
  "dec_elems z d [] old = Some []"
| "dec_elems z d (j # js) old =
     (case d j (case old of [] \<Rightarrow> z | x # _ \<Rightarrow> x) of
        None \<Rightarrow> None
      | Some x \<Rightarrow> map_option (\<lambda>xs. x # xs) (dec_elems z d js (drop 1 old)))"

definition dec_slice :: "'a \<Rightarrow> 'a jdec \<Rightarrow> 'a list jdec" where
  "dec_slice z d j v = (case j of JNull \<Rightarrow> Some [] | JArr js \<Rightarrow> dec_elems z d js v | _ \<Rightarrow> None)"

fun dec_entries :: "'a \<Rightarrow> 'a jdec \<Rightarrow> (string \<times> json) list \<Rightarrow> (string, 'a) gmap \<Rightarrow> (string, 'a) gmap option" where
  "dec_entries z d [] m = Some m"
| "dec_entries z d ((k, j) # ms) m =
     (case d j z of None \<Rightarrow> None | Some x \<Rightarrow> dec_entries z d ms (gm_put k x m))"

definition dec_map :: "'a \<Rightarrow> 'a jdec \<Rightarrow> (string, 'a) gmap jdec" where
  "dec_map z d j v = (case j of JNull \<Rightarrow> Some [] | JObj ms \<Rightarrow> dec_entries z d ms v | _ \<Rightarrow> None)"

section \<open>Printing\<close>

definition hex_digit :: "nat \<Rightarrow> char" where
  "hex_digit n = char_of (if n < 10 then n + 48 else n + 87)"

definition escape_byte :: "char \<Rightarrow> string" where
  "escape_byte c =
     (if c = CHR 0x22 \<or> c = CHR 0x5C then [CHR 0x5C, c]
      else if c = CHR 0x08 then [CHR 0x5C, CHR ''b'']
      else if c = CHR 0x0C then [CHR 0x5C, CHR ''f'']
      else if c = CHR 0x0A then [CHR 0x5C, CHR ''n'']
      else if c = CHR 0x0D then [CHR 0x5C, CHR ''r'']
      else if c = CHR 0x09 then [CHR 0x5C, CHR ''t'']
      else if (of_char c :: nat) < 32 \<or> c = CHR ''<'' \<or> c = CHR ''>'' \<or> c = CHR ''&'' then
        [CHR 0x5C] @ ''u00'' @ [hex_digit (of_char c div 16), hex_digit (of_char c mod 16)]
      else [c])"

fun json_escape :: "nat \<Rightarrow> string \<Rightarrow> string" where
  "json_escape k [] = []"
| "json_escape (Suc k) (c # s) = c # json_escape k s"
| "json_escape 0 (c # s) =
     (case utf8_len (c # s) of
        None \<Rightarrow> [CHR 0x5C] @ ''ufffd'' @ json_escape 0 s
      | Some n \<Rightarrow>
          if n = 1 then escape_byte c @ json_escape 0 s
          else if has_prefix [CHR 0xE2, CHR 0x80, CHR 0xA8] (c # s) then [CHR 0x5C] @ ''u2028'' @ json_escape 0 (drop 2 s)
          else if has_prefix [CHR 0xE2, CHR 0x80, CHR 0xA9] (c # s) then [CHR 0x5C] @ ''u2029'' @ json_escape 0 (drop 2 s)
          else c # json_escape (n - 1) s)"

definition print_string :: "string \<Rightarrow> string" where
  "print_string s = [CHR 0x22] @ json_escape 0 s @ [CHR 0x22]"

fun json_print :: "json \<Rightarrow> string" where
  "json_print JNull = ''null''"
| "json_print (JBool b) = (if b then ''true'' else ''false'')"
| "json_print (JNum l) = l"
| "json_print (JStr s) = print_string s"
| "json_print (JArr vs) = ''['' @ join_with '','' (map json_print vs) @ '']''"
| "json_print (JObj ms) =
     ''{'' @ join_with '','' (map (\<lambda>(k, v). print_string k @ '':'' @ json_print v) ms) @ ''}''"

section \<open>The fuel is enough\<close>

lemma skip_ws_length: "length (skip_ws s) \<le> length s"
  by (simp add: skip_ws_def length_dropWhile_le)

lemma skip_ws_Cons_length: "skip_ws s = c # r \<Longrightarrow> Suc (length r) \<le> length s"
  using skip_ws_length [of s] by simp

lemma lex_string_length: "lex_string k s = Some (x, t) \<Longrightarrow> length t < length s"
proof (induction k s arbitrary: x t rule: lex_string.induct)
  case (3 c s)
  consider "c = CHR 0x22" | "c \<noteq> CHR 0x22" "c = CHR 0x5C" | "c \<noteq> CHR 0x22" "c \<noteq> CHR 0x5C" by blast
  then show ?case
  proof cases
    case 1
    with "3.prems" show ?thesis by simp
  next
    case 2
    with "3.prems" obtain d n y where e: "lex_escape s = Some (d, n)"
      and l: "lex_string 0 (drop n s) = Some (y, t)"
      by (auto split: option.splits)
    from "3.IH"(1) [OF 2 e refl l] show ?thesis by simp
  next
    case 3
    with "3.prems" show ?thesis
      using "3.IH"(2,3) [OF 3] by (fastforce split: if_splits option.splits)
  qed
qed auto

lemma lex_frac_append: "lex_frac s = Some (f, t) \<Longrightarrow> s = f @ t"
  by (auto simp: lex_frac_def Let_def split: list.splits if_splits)

lemma lex_exp_append: "lex_exp s = Some (f, t) \<Longrightarrow> s = f @ t"
  by (auto simp: lex_exp_def Let_def split: list.splits if_splits)

lemma lex_sign_append: "lex_sign s = (f, t) \<Longrightarrow> s = f @ t"
  by (auto simp: lex_sign_def split: list.splits if_splits)

lemma lex_int_append: "lex_int s = Some (f, t) \<Longrightarrow> s = f @ t \<and> f \<noteq> []"
  by (auto simp: lex_int_def split: list.splits if_splits)

lemma lex_number_append: "lex_number s = Some (x, t) \<Longrightarrow> s = x @ t \<and> x \<noteq> []"
  by (auto simp: lex_number_def split: option.splits prod.splits
      dest!: lex_sign_append lex_int_append lex_frac_append lex_exp_append)

lemma lex_number_length: "lex_number s = Some (x, t) \<Longrightarrow> length t < length s"
  by (drule lex_number_append) auto

lemma parse_lengths:
  "parse_value n s = Some (v, t) \<Longrightarrow> length t < length s"
  "parse_elems n s = Some (vs, t) \<Longrightarrow> length t < length s"
  "parse_members n s = Some (ms, t) \<Longrightarrow> length t < length s"
proof (induction n arbitrary: s v vs ms t)
  case (Suc n)
  { case 1
    then obtain c r where c: "skip_ws s = c # r" by (auto split: list.splits)
    note l = skip_ws_Cons_length [OF c]
    from 1 c have "length t \<le> length r"
      by (auto split: if_splits list.splits dest!: lex_string_length lex_number_length Suc.IH skip_ws_Cons_length)
    with l show ?case by simp
  next
    case 2
    then show ?case
      by (auto split: if_splits list.splits option.splits dest!: Suc.IH skip_ws_Cons_length)
  next
    case 3
    then show ?case
      by (auto split: if_splits list.splits option.splits dest!: lex_string_length Suc.IH skip_ws_Cons_length) }
qed simp_all


lemma parse_fuel_Suc:
  "2 * length s + 1 \<le> n \<Longrightarrow> parse_value (Suc n) s = parse_value n s"
  "2 * length s + 2 \<le> n \<Longrightarrow> parse_elems (Suc n) s = parse_elems n s"
  "2 * length s + 1 \<le> n \<Longrightarrow> parse_members (Suc n) s = parse_members n s"
proof (induction n arbitrary: s)
  case (Suc n)
  { case 1
    have *: "parse_members (Suc n) (d # r') = parse_members n (d # r')"
      "parse_elems (Suc n) (d # r') = parse_elems n (d # r')"
      if "skip_ws s = c # r" "skip_ws r = d # r'" for c r d r'
      using Suc.IH(2,3) [of "d # r'"] 1
        skip_ws_Cons_length [OF that(1)] skip_ws_Cons_length [OF that(2)] by simp_all
    show ?case
      unfolding parse_value.simps(2) [of "Suc n" s] parse_value.simps(2) [of n s]
      by (auto simp del: parse_members.simps parse_elems.simps simp: * split: list.splits)
  next
    case 2
    then have v: "parse_value (Suc n) s = parse_value n s" using Suc.IH(1) [of s] by simp
    have *: "parse_elems (Suc n) t = parse_elems n t"
      if "parse_value n s = Some (v, r)" "skip_ws r = c # t" for v r c t
      using Suc.IH(2) [of t] 2 parse_lengths(1) [OF that(1)] skip_ws_Cons_length [OF that(2)] by simp
    show ?case
      unfolding parse_elems.simps(2) [of "Suc n" s] parse_elems.simps(2) [of n s] v
      by (auto simp del: parse_elems.simps simp: * split: list.splits option.splits)
  next
    case 3
    have *: "parse_value (Suc n) r2 = parse_value n r2"
      if "skip_ws s = c # r" "lex_string 0 r = Some (k, r1)" "skip_ws r1 = d # r2" for c r k r1 d r2
      using Suc.IH(1) [of r2] 3 skip_ws_Cons_length [OF that(1)] lex_string_length [OF that(2)]
        skip_ws_Cons_length [OF that(3)] by simp
    have **: "parse_members (Suc n) r4 = parse_members n r4"
      if "skip_ws s = c # r" "lex_string 0 r = Some (k, r1)" "skip_ws r1 = d # r2"
        "parse_value n r2 = Some (v, r3)" "skip_ws r3 = e # r4" for c r k r1 d r2 v r3 e r4
      using Suc.IH(3) [of r4] 3 skip_ws_Cons_length [OF that(1)] lex_string_length [OF that(2)]
        skip_ws_Cons_length [OF that(3)] parse_lengths(1) [OF that(4)] skip_ws_Cons_length [OF that(5)]
      by simp
    show ?case
      unfolding parse_members.simps(2) [of "Suc n" s] parse_members.simps(2) [of n s]
      by (auto simp del: parse_members.simps parse_value.simps simp: * ** split: list.splits option.splits) }
qed simp_all

lemma parse_value_fuel:
  assumes "2 * length s + 1 \<le> n" shows "parse_value n s = json_next s"
proof -
  have "parse_value (2 * length s + 1 + k) s = parse_value (2 * length s + 1) s" for k
    by (induction k) (simp_all del: parse_value.simps add: parse_fuel_Suc(1))
  from this [of "n - (2 * length s + 1)"] this [of 1] show ?thesis
    using assms by (simp del: parse_value.simps add: json_next_def)
qed

lemma json_next_fuel: "2 * length s + 2 \<le> n \<Longrightarrow> parse_value n s = json_next s"
  by (rule parse_value_fuel) simp

section \<open>Parsing undoes printing\<close>

text \<open>
  The trees the program itself prints: strings of printable ASCII without the five characters
  \<^verbatim>\<open>json.Marshal\<close> escapes, and numbers that are decimal integers.
\<close>

definition json_plain :: "char \<Rightarrow> bool" where
  "json_plain c =
     (32 \<le> (of_char c :: nat) \<and> (of_char c :: nat) < 127 \<and>
      c \<notin> {CHR 0x22, CHR 0x5C, CHR ''<'', CHR ''>'', CHR ''&''})"

definition int_literal :: "string \<Rightarrow> bool" where
  "int_literal l = (case atoi l of None \<Rightarrow> False | Some i \<Rightarrow> itoa i = l)"

fun json_safe :: "json \<Rightarrow> bool" where
  "json_safe JNull = True"
| "json_safe (JBool b) = True"
| "json_safe (JNum l) = int_literal l"
| "json_safe (JStr s) = list_all json_plain s"
| "json_safe (JArr vs) = list_all json_safe vs"
| "json_safe (JObj ms) = list_all (\<lambda>(k, v). list_all json_plain k \<and> json_safe v) ms"

definition json_follow :: "string \<Rightarrow> bool" where
  "json_follow t = (case t of [] \<Rightarrow> True | c # _ \<Rightarrow> c = CHR '','' \<or> c = CHR ''}'' \<or> c = CHR '']'')"

lemma json_plain_facts:
  assumes "json_plain c"
  shows "utf8_len (c # s) = Some 1" "escape_byte c = [c]" "c \<noteq> CHR 0x22" "c \<noteq> CHR 0x5C"
    "\<not> (of_char c :: nat) < 32"
proof -
  from assms have b: "32 \<le> (of_char c :: nat)" "(of_char c :: nat) < 127"
    and n: "c \<noteq> CHR 0x22" "c \<noteq> CHR 0x5C" "c \<noteq> CHR ''<''" "c \<noteq> CHR ''>''" "c \<noteq> CHR ''&''"
    by (simp_all add: json_plain_def)
  show "utf8_len (c # s) = Some 1" using b by (simp add: utf8_len_def)
  have "c \<noteq> CHR 0x08" "c \<noteq> CHR 0x0C" "c \<noteq> CHR 0x0A" "c \<noteq> CHR 0x0D" "c \<noteq> CHR 0x09" using b by auto
  with b n show "escape_byte c = [c]" by (simp add: escape_byte_def)
  show "c \<noteq> CHR 0x22" "c \<noteq> CHR 0x5C" "\<not> (of_char c :: nat) < 32" using b n by simp_all
qed

lemma json_escape_plain: "list_all json_plain s \<Longrightarrow> json_escape 0 s = s"
  by (induction s) (simp_all add: json_plain_facts)

lemma lex_string_plain: "list_all json_plain s \<Longrightarrow> lex_string 0 (s @ CHR 0x22 # t) = Some (s, t)"
  by (induction s) (simp_all add: json_plain_facts)

lemma json_follow_not_digit: "json_follow t \<Longrightarrow> takeWhile is_digit t = [] \<and> dropWhile is_digit t = t"
  by (cases t) (auto simp: json_follow_def is_digit_def)

lemma json_follow_lex: "json_follow t \<Longrightarrow> lex_frac t = Some ([], t) \<and> lex_exp t = Some ([], t)"
  by (cases t) (auto simp: json_follow_def lex_frac_def lex_exp_def)

lemma lex_int_show:
  assumes "json_follow t" shows "lex_int (show_nat n @ t) = Some (show_nat n, t)"
proof -
  obtain c cs where c: "show_nat n = c # cs" using show_nat_digits [of n] by (cases "show_nat n") auto
  have d: "list_all is_digit (show_nat n)" using show_nat_digits [of n] by simp
  then have *: "takeWhile is_digit (show_nat n @ t) = show_nat n" "dropWhile is_digit (show_nat n @ t) = t"
    using json_follow_not_digit [OF assms] by (simp_all add: list_all_iff)
  show ?thesis
  proof (cases "c = CHR ''0''")
    case True
    with c show_nat_zero [of n cs] show ?thesis by (simp add: lex_int_def)
  next
    case False
    with * d c show ?thesis by (simp add: lex_int_def)
  qed
qed

lemma lex_number_itoa:
  assumes "json_follow t" shows "lex_number (itoa i @ t) = Some (itoa i, t)"
proof -
  have "lex_sign (show_nat n @ t) = ([], show_nat n @ t)" for n
    using show_nat_digits [of n] by (cases "show_nat n") (auto simp: is_digit_def lex_sign_def)
  moreover have "lex_sign (CHR ''-'' # s) = (''-'', s)" for s by (simp add: lex_sign_def)
  ultimately show ?thesis
    using lex_int_show [OF assms] json_follow_lex [OF assms]
    by (simp add: lex_number_def itoa_def)
qed

lemma int_literal_itoa: "int_literal l \<Longrightarrow> \<exists>i. l = itoa i"
  by (auto simp: int_literal_def split: option.splits)

definition number_hd :: "char \<Rightarrow> bool" where
  "number_hd c = (c = CHR ''-'' \<or> is_digit c)"

lemma number_hd_not:
  "\<not> number_hd (CHR '' '')" "\<not> number_hd (CHR 0x09)" "\<not> number_hd (CHR 0x0A)" "\<not> number_hd (CHR 0x0D)"
  "\<not> number_hd (CHR '']'')" "\<not> number_hd (CHR ''['')" "\<not> number_hd (CHR ''{'')" "\<not> number_hd (CHR 0x22)"
  "\<not> number_hd (CHR ''t'')" "\<not> number_hd (CHR ''f'')" "\<not> number_hd (CHR ''n'')"
  by (simp_all add: number_hd_def is_digit_def)

lemma number_hd_other:
  assumes "number_hd c"
  shows "\<not> is_ws c" "c \<noteq> CHR '']''" "c \<noteq> CHR ''[''" "c \<noteq> CHR ''{''" "c \<noteq> CHR 0x22"
    "c \<noteq> CHR ''t''" "c \<noteq> CHR ''f''" "c \<noteq> CHR ''n''"
  using assms number_hd_not unfolding is_ws_def by blast+

lemma itoa_hd: obtains c r where "itoa i = c # r" "number_hd c"
proof (cases "i < 0")
  case True
  then show ?thesis using that by (simp add: itoa_def number_hd_def)
next
  case False
  obtain c r where c: "show_nat (nat i) = c # r" using show_nat_digits [of "nat i"] by (cases "show_nat (nat i)") auto
  then have "is_digit c" by (rule show_nat_hd)
  with that [of c r] c False show ?thesis by (simp add: itoa_def number_hd_def)
qed

lemma json_print_hd:
  assumes "json_safe j" shows "\<exists>c r. json_print j = c # r \<and> \<not> is_ws c \<and> c \<noteq> CHR '']''"
proof (cases j)
  case (JNum l)
  with assms obtain i where "l = itoa i" using int_literal_itoa by auto
  moreover obtain c r where "itoa i = c # r" "number_hd c" by (rule itoa_hd)
  ultimately show ?thesis using JNum number_hd_other(1,2) by simp
qed (simp_all add: is_ws_def print_string_def)

lemma skip_ws_Cons: "\<not> is_ws c \<Longrightarrow> skip_ws (c # r) = c # r"
  by (simp add: skip_ws_def)

lemma follow_simps [simp]:
  "json_follow (CHR '','' # t)" "json_follow (CHR '']'' # t)" "json_follow (CHR ''}'' # t)" "json_follow []"
  by (simp_all add: json_follow_def)

lemma skip_ws_marks [simp]:
  "skip_ws (CHR '','' # t) = CHR '','' # t" "skip_ws (CHR '']'' # t) = CHR '']'' # t"
  "skip_ws (CHR ''}'' # t) = CHR ''}'' # t" "skip_ws (CHR '':'' # t) = CHR '':'' # t"
  "skip_ws (CHR ''{'' # t) = CHR ''{'' # t" "skip_ws (CHR ''['' # t) = CHR ''['' # t"
  "skip_ws (CHR 0x22 # t) = CHR 0x22 # t"
  by (simp_all add: skip_ws_def is_ws_def)

definition prints :: "json \<Rightarrow> bool" where
  "prints v = (\<forall>n t. json_follow t \<longrightarrow> 2 * length (json_print v) + 1 \<le> n \<longrightarrow>
     parse_value n (json_print v @ t) = Some (v, t))"

lemma printsD:
  "prints v \<Longrightarrow> json_follow t \<Longrightarrow> 2 * length (json_print v) + 1 \<le> n \<Longrightarrow>
    parse_value n (json_print v @ t) = Some (v, t)"
  by (simp add: prints_def)

lemma printsI:
  assumes "\<And>m t. json_follow t \<Longrightarrow> 2 * length (json_print v) \<le> m \<Longrightarrow>
    parse_value (Suc m) (json_print v @ t) = Some (v, t)"
  shows "prints v"
  unfolding prints_def
proof (intro allI impI)
  fix n t assume "json_follow t" and n: "2 * length (json_print v) + 1 \<le> n"
  moreover from n have "n = Suc (n - 1)" by simp
  ultimately show "parse_value n (json_print v @ t) = Some (v, t)"
    using assms [of t "n - 1"] by (simp del: parse_value.simps)
qed

lemma parse_elems_print:
  "vs \<noteq> [] \<Longrightarrow> list_all prints vs \<Longrightarrow> 2 * length (join_with '','' (map json_print vs)) + 2 \<le> n \<Longrightarrow>
    parse_elems n (join_with '','' (map json_print vs) @ CHR '']'' # t) = Some (vs, t)"
proof (induction vs arbitrary: n)
  case (Cons v vs)
  obtain m where n: "n = Suc m" using Cons.prems(3) by (cases n) auto
  have v: "parse_value m (json_print v @ u) = Some (v, u)" if "json_follow u" for u
  proof (rule printsD)
    show "prints v" using Cons.prems(2) by simp
    show "2 * length (json_print v) + 1 \<le> m" using Cons.prems(3) by (cases vs) (simp_all add: n)
  qed (fact that)
  show ?case
  proof (cases "vs = []")
    case True
    then show ?thesis by (simp add: n v)
  next
    case False
    with Cons.prems(2,3) have "parse_elems m (join_with '','' (map json_print vs) @ CHR '']'' # t) = Some (vs, t)"
      by (intro Cons.IH) (simp_all add: n join_with_Cons)
    with False show ?thesis by (simp add: n v join_with_Cons)
  qed
qed simp

abbreviation print_member :: "string \<times> json \<Rightarrow> string" where
  "print_member \<equiv> \<lambda>(k, v). print_string k @ '':'' @ json_print v"

lemma parse_members_print:
  "ms \<noteq> [] \<Longrightarrow> list_all (\<lambda>(k, v). list_all json_plain k \<and> prints v) ms \<Longrightarrow>
    2 * length (join_with '','' (map print_member ms)) + 1 \<le> n \<Longrightarrow>
    parse_members n (join_with '','' (map print_member ms) @ CHR ''}'' # t) = Some (ms, t)"
proof (induction ms arbitrary: n)
  case (Cons e ms)
  obtain k v where e: "e = (k, v)" by fastforce
  obtain m where n: "n = Suc m" using Cons.prems(3) by (cases n) auto
  have k: "json_escape 0 k = k" "lex_string 0 (k @ CHR 0x22 # u) = Some (k, u)" for u
    using Cons.prems(2) by (simp_all add: e json_escape_plain lex_string_plain)
  have v: "parse_value m (json_print v @ u) = Some (v, u)" if "json_follow u" for u
  proof (rule printsD)
    show "prints v" using Cons.prems(2) by (simp add: e)
    show "2 * length (json_print v) + 1 \<le> m"
      using Cons.prems(3) by (cases ms) (simp_all add: n e print_string_def)
  qed (fact that)
  show ?case
  proof (cases "ms = []")
    case True
    then show ?thesis by (simp add: n e k v print_string_def)
  next
    case False
    with Cons.prems(2,3)
    have "parse_members m (join_with '','' (map print_member ms) @ CHR ''}'' # t) = Some (ms, t)"
      by (intro Cons.IH) (simp_all add: n e join_with_Cons)
    with False show ?thesis by (simp add: n e k v join_with_Cons print_string_def)
  qed
qed simp

lemma has_prefix_hd: "c \<noteq> d \<Longrightarrow> \<not> has_prefix (d # p) (c # r)"
  by (simp add: has_prefix_def)

lemma parse_print_number: "prints (JNum (itoa i))"
proof (rule printsI)
  fix m t assume t: "json_follow t"
  obtain c r where c: "itoa i = c # r" "number_hd c" by (rule itoa_hd)
  have "lex_number (c # r @ t) = Some (c # r, t)" using lex_number_itoa [OF t, of i] c(1) by simp
  then show "parse_value (Suc m) (json_print (JNum (itoa i)) @ t) = Some (JNum (itoa i), t)"
    using number_hd_other [OF c(2)] c(1) by (simp add: skip_ws_Cons has_prefix_hd)
qed

theorem parse_print: "json_safe j \<Longrightarrow> prints j"
proof (induction j)
  case (JNum l)
  then show ?case using parse_print_number int_literal_itoa by auto
next
  case (JArr vs)
  then have ps: "list_all prints vs" by (auto simp: list_all_iff)
  show ?case
  proof (rule printsI)
    fix m t assume m: "2 * length (json_print (JArr vs)) \<le> m"
    show "parse_value (Suc m) (json_print (JArr vs) @ t) = Some (JArr vs, t)"
    proof (cases vs)
      case (Cons v ws)
      let ?b = "join_with '','' (map json_print vs)"
      obtain c r where c: "json_print v = c # r" "\<not> is_ws c" "c \<noteq> CHR '']''"
        using JArr.prems Cons json_print_hd [of v] by auto
      then obtain q where q: "?b = c # q" using Cons by (cases ws) simp_all
      have "parse_elems m (?b @ CHR '']'' # t) = Some (vs, t)"
        using m Cons by (intro parse_elems_print ps) simp_all
      then show ?thesis using c by (simp add: q skip_ws_Cons)
    qed simp
  qed
next
  case (JObj ms)
  then have ps: "list_all (\<lambda>(k, v). list_all json_plain k \<and> prints v) ms"
    by (fastforce simp: list_all_iff)
  show ?case
  proof (rule printsI)
    fix m t assume m: "2 * length (json_print (JObj ms)) \<le> m"
    show "parse_value (Suc m) (json_print (JObj ms) @ t) = Some (JObj ms, t)"
    proof (cases ms)
      case (Cons e es)
      let ?b = "join_with '','' (map print_member ms)"
      obtain q where q: "?b = CHR 0x22 # q"
        using Cons by (cases e; cases es) (simp_all add: print_string_def)
      have "parse_members m (?b @ CHR ''}'' # t) = Some (ms, t)"
        using m Cons by (intro parse_members_print ps) simp_all
      then show ?thesis using q by simp
    qed simp
  qed
qed (auto intro!: printsI simp: has_prefix_def skip_ws_Cons is_ws_def print_string_def
    json_escape_plain lex_string_plain)

corollary json_next_print:
  assumes "json_safe j" "json_follow t" shows "json_next (json_print j @ t) = Some (j, t)"
  unfolding json_next_def by (rule printsD [OF parse_print]) (use assms in simp_all)

end
