(* ===== verification/Go_Sha.thy ===== *)
theory Go_Sha
  imports Go_Text
begin

text \<open>
  Go's \<^verbatim>\<open>crypto/sha256\<close>: \<open>sha256\<close> is \<^verbatim>\<open>Sum256\<close> as FIPS 180-4 defines it, over 32-bit words with
  wrap-around addition. \<open>sha256_length\<close> is what the protocol relies on: a digest has 32 bytes.
\<close>

unbundle bit_operations_syntax

type_synonym w32 = "32 word"

definition sha256_k :: "w32 list" where
  "sha256_k =
  [0x428A2F98, 0x71374491, 0xB5C0FBCF, 0xE9B5DBA5, 0x3956C25B, 0x59F111F1, 0x923F82A4, 0xAB1C5ED5,
   0xD807AA98, 0x12835B01, 0x243185BE, 0x550C7DC3, 0x72BE5D74, 0x80DEB1FE, 0x9BDC06A7, 0xC19BF174,
   0xE49B69C1, 0xEFBE4786, 0x0FC19DC6, 0x240CA1CC, 0x2DE92C6F, 0x4A7484AA, 0x5CB0A9DC, 0x76F988DA,
   0x983E5152, 0xA831C66D, 0xB00327C8, 0xBF597FC7, 0xC6E00BF3, 0xD5A79147, 0x06CA6351, 0x14292967,
   0x27B70A85, 0x2E1B2138, 0x4D2C6DFC, 0x53380D13, 0x650A7354, 0x766A0ABB, 0x81C2C92E, 0x92722C85,
   0xA2BFE8A1, 0xA81A664B, 0xC24B8B70, 0xC76C51A3, 0xD192E819, 0xD6990624, 0xF40E3585, 0x106AA070,
   0x19A4C116, 0x1E376C08, 0x2748774C, 0x34B0BCB5, 0x391C0CB3, 0x4ED8AA4A, 0x5B9CCA4F, 0x682E6FF3,
   0x748F82EE, 0x78A5636F, 0x84C87814, 0x8CC70208, 0x90BEFFFA, 0xA4506CEB, 0xBEF9A3F7, 0xC67178F2]"

definition sha256_init :: "w32 list" where
  "sha256_init = [0x6A09E667, 0xBB67AE85, 0x3C6EF372, 0xA54FF53A, 0x510E527F, 0x9B05688C, 0x1F83D9AB, 0x5BE0CD19]"

definition be_word :: "string \<Rightarrow> w32" where
  "be_word s = foldl (\<lambda>w c. w * 256 + of_int (of_char c)) 0 s"

definition be_bytes :: "w32 \<Rightarrow> string" where
  "be_bytes w = map (\<lambda>k. char_of (uint (drop_bit k w AND 255))) [24, 16, 8, 0]"

definition be_length :: "nat \<Rightarrow> string" where
  "be_length n = map (\<lambda>k. char_of (int n div 2 ^ k mod 256)) [56, 48, 40, 32, 24, 16, 8, 0]"

definition sha256_pad :: "string \<Rightarrow> string" where
  "sha256_pad s =
     s @ CHR 0x80 # replicate ((119 - length s mod 64) mod 64) (CHR 0x00) @ be_length (8 * length s)"

fun chunks :: "nat \<Rightarrow> 'a list \<Rightarrow> 'a list list" where
  "chunks n s = (if s = [] \<or> n = 0 then [] else take n s # chunks n (drop n s))"

declare chunks.simps [simp del]

definition sched_next :: "w32 list \<Rightarrow> w32" where
  "sched_next ws =
     (let a = ws ! 1; b = ws ! 14 in
      (word_rotr 17 a XOR word_rotr 19 a XOR drop_bit 10 a) + ws ! 6 +
      (word_rotr 7 b XOR word_rotr 18 b XOR drop_bit 3 b) + ws ! 15)"

text \<open>The message schedule, most recent word first.\<close>

primrec sched :: "nat \<Rightarrow> w32 list \<Rightarrow> w32 list" where
  "sched 0 ws = ws"
| "sched (Suc n) ws = sched n (sched_next ws # ws)"

fun sha256_round :: "w32 list \<Rightarrow> w32 \<times> w32 \<Rightarrow> w32 list" where
  "sha256_round [a, b, c, d, e, f, g, h] (k, w) =
     (let t1 = h + (word_rotr 6 e XOR word_rotr 11 e XOR word_rotr 25 e)
                 + ((e AND f) XOR (NOT e AND g)) + k + w;
          t2 = (word_rotr 2 a XOR word_rotr 13 a XOR word_rotr 22 a)
                 + ((a AND b) XOR (a AND c) XOR (b AND c))
      in [t1 + t2, a, b, c, d + t1, e, f, g])"
| "sha256_round st kw = st"

definition sha256_block :: "w32 list \<Rightarrow> string \<Rightarrow> w32 list" where
  "sha256_block st block =
     (let ws = rev (sched 48 (rev (map be_word (chunks 4 block))))
      in map (\<lambda>(x, y). x + y) (zip st (foldl sha256_round st (zip sha256_k ws))))"

definition sha256 :: "string \<Rightarrow> string" where
  "sha256 s = concat (map be_bytes (foldl sha256_block sha256_init (chunks 64 (sha256_pad s))))"

lemma sha256_round_length: "length (sha256_round st kw) = length st"
  by (induction st kw rule: sha256_round.induct) (simp_all add: Let_def)

lemma sha256_block_length: "length (sha256_block st b) = length st"
proof -
  have "length (foldl sha256_round st xs) = length st" for xs
    by (induction xs arbitrary: st) (simp_all add: sha256_round_length)
  then show ?thesis by (simp add: sha256_block_def Let_def)
qed

lemma sha256_length [simp]: "length (sha256 s) = 32"
proof -
  have "length (foldl sha256_block st bs) = length st" for st bs
    by (induction bs arbitrary: st) (simp_all add: sha256_block_length)
  then have "length (foldl sha256_block sha256_init bs) = 8" for bs
    by (simp add: sha256_init_def)
  then show ?thesis by (simp add: sha256_def length_concat be_bytes_def o_def sum_list_triv)
qed

text \<open>The published test vector for \<^verbatim>\<open>abc\<close>.\<close>

lemma sha256_abc: "map of_char (sha256 ''abc'') = [186, 120, 22, 191, 143, 1, 207, 234, 65, 65, 64, 222, 93, 174, 34, 35, 176, 3, 97, 163, 150, 23, 122, 156, 180, 16, 255, 97, 242, 0, 21, 173 :: nat]"
  by code_simp

end
