(* ===== verification/Attest_Protocol.thy ===== *)
theory Attest_Protocol
  imports Go_Base64 Go_Json Go_Sha
begin

text \<open>
  \<^verbatim>\<open>realm-node-attest/protocol.go\<close>: the messages of the HTTP node attestation protocol, their JSON
  forms, and the functions that validate, sign and verify them.

  The JOSE library (\<^verbatim>\<open>go-jose\<close>) is the parameter \<open>jose_lib\<close>: the record of the calls the
  source makes. \<open>jose_correct\<close> is what the library documents of an EdDSA compact
  signature, and is a hypothesis of exactly the theorems that need an honest signer.
\<close>

section \<open>Constants and messages\<close>

definition PluginName :: string where "PluginName = ''http_fqdn''"
definition PathPrefix :: string where "PathPrefix = ''/.well-known/spire-node-attestation/v1/''"
definition DefaultPort :: int where "DefaultPort = 18091"
definition MaxDocumentSize :: nat where "MaxDocumentSize = 8192"
definition ChallengeTTL :: int where "ChallengeTTL = seconds 120"
definition proofType :: string where "proofType = ''spire-http-node-attestation+jws''"

record AgentConfig =
  ac_fqdn :: string
  ac_trust_domain :: string
  ac_control_socket :: string
  ac_metrics_address :: string

record NodePolicy =
  np_fqdn :: string
  np_addresses :: "string list"

record ServerConfig =
  sc_trust_domain :: string
  sc_nodes :: "(string, NodePolicy) gmap"
  sc_port :: int
  sc_trust_http :: bool
  sc_metrics_address :: string

record Result =
  AgentID :: string
  SelectorValues :: "string list"

record publicJWK =
  jwk_kty :: string
  jwk_crv :: string
  jwk_x :: string

record request =
  rq_version :: int
  rq_fqdn :: string
  rq_jwk :: publicJWK

record challenge =
  ch_version :: int
  ch_id :: string
  ch_nonce :: string
  ch_fqdn :: string
  ch_trust_domain :: string
  ch_server_id :: string
  ch_thumbprint :: string
  ch_expires :: int

record ready =
  rd_version :: int
  rd_id :: string

record proofDocument =
  pd_jwk :: publicJWK
  pd_proof :: string

section \<open>JSON forms\<close>

definition zero_jwk :: publicJWK where
  "zero_jwk = \<lparr>jwk_kty = [], jwk_crv = [], jwk_x = []\<rparr>"

definition zero_request :: request where
  "zero_request = \<lparr>rq_version = 0, rq_fqdn = [], rq_jwk = zero_jwk\<rparr>"

definition zero_challenge :: challenge where
  "zero_challenge = \<lparr>ch_version = 0, ch_id = [], ch_nonce = [], ch_fqdn = [], ch_trust_domain = [],
     ch_server_id = [], ch_thumbprint = [], ch_expires = 0\<rparr>"

definition zero_ready :: ready where
  "zero_ready = \<lparr>rd_version = 0, rd_id = []\<rparr>"

definition zero_proof :: proofDocument where
  "zero_proof = \<lparr>pd_jwk = zero_jwk, pd_proof = []\<rparr>"

text \<open>
  The decoders refuse unknown members, as \<^verbatim>\<open>decodeJSON\<close> asks; the setting reaches nested structs.
\<close>

definition dec_jwk :: "publicJWK jdec" where
  "dec_jwk = dec_struct True
     [(''kty'', dec_field jwk_kty jwk_kty_update dec_string),
      (''crv'', dec_field jwk_crv jwk_crv_update dec_string),
      (''x'', dec_field jwk_x jwk_x_update dec_string)]"

definition dec_request :: "request jdec" where
  "dec_request = dec_struct True
     [(''version'', dec_field rq_version rq_version_update dec_int64),
      (''fqdn'', dec_field rq_fqdn rq_fqdn_update dec_string),
      (''bootstrap_jwk'', dec_field rq_jwk rq_jwk_update dec_jwk)]"

definition dec_challenge :: "challenge jdec" where
  "dec_challenge = dec_struct True
     [(''version'', dec_field ch_version ch_version_update dec_int64),
      (''challenge_id'', dec_field ch_id ch_id_update dec_string),
      (''nonce'', dec_field ch_nonce ch_nonce_update dec_string),
      (''fqdn'', dec_field ch_fqdn ch_fqdn_update dec_string),
      (''trust_domain'', dec_field ch_trust_domain ch_trust_domain_update dec_string),
      (''server_id'', dec_field ch_server_id ch_server_id_update dec_string),
      (''bootstrap_key_thumbprint'', dec_field ch_thumbprint ch_thumbprint_update dec_string),
      (''expires_at'', dec_field ch_expires ch_expires_update dec_int64)]"

definition dec_ready :: "ready jdec" where
  "dec_ready = dec_struct True
     [(''version'', dec_field rd_version rd_version_update dec_int64),
      (''challenge_id'', dec_field rd_id rd_id_update dec_string)]"

definition dec_proof :: "proofDocument jdec" where
  "dec_proof = dec_struct True
     [(''bootstrap_jwk'', dec_field pd_jwk pd_jwk_update dec_jwk),
      (''proof'', dec_field pd_proof pd_proof_update dec_string)]"

definition jwk_json :: "publicJWK \<Rightarrow> json" where
  "jwk_json j = JObj [(''kty'', JStr (jwk_kty j)), (''crv'', JStr (jwk_crv j)), (''x'', JStr (jwk_x j))]"

definition request_json :: "request \<Rightarrow> json" where
  "request_json r = JObj [(''version'', JNum (itoa (rq_version r))), (''fqdn'', JStr (rq_fqdn r)),
     (''bootstrap_jwk'', jwk_json (rq_jwk r))]"

definition challenge_json :: "challenge \<Rightarrow> json" where
  "challenge_json c = JObj
     [(''version'', JNum (itoa (ch_version c))), (''challenge_id'', JStr (ch_id c)),
      (''nonce'', JStr (ch_nonce c)), (''fqdn'', JStr (ch_fqdn c)),
      (''trust_domain'', JStr (ch_trust_domain c)), (''server_id'', JStr (ch_server_id c)),
      (''bootstrap_key_thumbprint'', JStr (ch_thumbprint c)),
      (''expires_at'', JNum (itoa (ch_expires c)))]"

definition ready_json :: "ready \<Rightarrow> json" where
  "ready_json r = JObj [(''version'', JNum (itoa (rd_version r))), (''challenge_id'', JStr (rd_id r))]"

definition proof_json :: "proofDocument \<Rightarrow> json" where
  "proof_json d = JObj [(''bootstrap_jwk'', jwk_json (pd_jwk d)), (''proof'', JStr (pd_proof d))]"

section \<open>Names\<close>

definition label_char :: "char \<Rightarrow> bool" where
  "label_char c = (let n = of_char c :: nat in 97 \<le> n \<and> n \<le> 122 \<or> 48 \<le> n \<and> n \<le> 57)"

definition labelPattern :: rx where
  "labelPattern =
     RSeq (RCls label_char)
       (rx_opt (RSeq (RUpTo 61 (RCls (\<lambda>c. label_char c \<or> c = CHR ''-''))) (RCls label_char)))"

definition validFQDN :: "string \<Rightarrow> bool" where
  "validFQDN value =
     (if length value > 253 \<or> \<not> contains_sub ''.'' value then False
      else list_all (rx_match labelPattern) (split_on CHR ''.'' value))"

definition serverID :: "string \<Rightarrow> string" where
  "serverID domain = ''spiffe://'' @ domain @ ''/spire/server''"

section \<open>Documents, random values and keys\<close>

definition decodeJSON :: "'a jdec \<Rightarrow> 'a \<Rightarrow> string \<Rightarrow> 'a result" where
  "decodeJSON dec target data =
     (if data = [] \<or> length data > MaxDocumentSize then Fail ''invalid document size''
      else case json_next data of
        None \<Rightarrow> Fail ''invalid document''
      | Some (j, rest) \<Rightarrow>
          (case dec j target of
             None \<Rightarrow> Fail ''invalid document''
           | Some v \<Rightarrow> if json_at_eof rest then Ok v else Fail ''trailing document data''))"

text \<open>\<^verbatim>\<open>rand.Read\<close> fills a buffer of 32 bytes, or fails: its outcome is an argument.\<close>

definition randomValue :: "string result \<Rightarrow> string result" where
  "randomValue rand_read =
     (case rand_read of Inl e \<Rightarrow> Inl e | Inr value \<Rightarrow> Ok (b64_encode value))"

definition validRandom :: "string \<Rightarrow> bool" where
  "validRandom value =
     (case b64_decode_strict value of
        None \<Rightarrow> False
      | Some decoded \<Rightarrow> length decoded = 32 \<and> b64_encode decoded = value)"

definition jwkFor :: "string \<Rightarrow> publicJWK" where
  "jwkFor key = \<lparr>jwk_kty = ''OKP'', jwk_crv = ''Ed25519'', jwk_x = b64_encode key\<rparr>"

definition jwk_key :: "publicJWK \<Rightarrow> string result" where
  "jwk_key j =
     (if jwk_kty j \<noteq> ''OKP'' \<or> jwk_crv j \<noteq> ''Ed25519'' then Fail ''unsupported bootstrap key''
      else case b64_decode_strict (jwk_x j) of
        None \<Rightarrow> Fail ''invalid bootstrap key''
      | Some key \<Rightarrow>
          if length key \<noteq> 32 \<or> b64_encode key \<noteq> jwk_x j then Fail ''invalid bootstrap key''
          else Ok key)"

definition thumbprint :: "publicJWK \<Rightarrow> string" where
  "thumbprint j =
     (let canonical = json_print (JObj [(''crv'', JStr (jwk_crv j)), (''kty'', JStr (jwk_kty j)),
                                        (''x'', JStr (jwk_x j))])
      in b64_encode (sha256 canonical))"

definition validateChallenge :: "challenge \<Rightarrow> time \<Rightarrow> unit result" where
  "validateChallenge c now =
     (if ch_version c \<noteq> 1 \<or> \<not> validRandom (ch_id c) \<or> \<not> validRandom (ch_nonce c) \<or>
         \<not> validFQDN (ch_fqdn c) \<or> \<not> validFQDN (ch_trust_domain c) \<or>
         ch_server_id c \<noteq> serverID (ch_trust_domain c) \<or> \<not> validRandom (ch_thumbprint c)
      then Fail ''invalid challenge''
      else if ch_expires c \<le> unix_of now \<or> ch_expires c > unix_of (now + ChallengeTTL)
      then Fail ''challenge outside validity window''
      else Ok ())"

section \<open>Proofs\<close>

text \<open>
  The JOSE calls: a signer for an EdDSA private key and a type header, signing, the compact form,
  parsing a compact form restricted to EdDSA, the \<^verbatim>\<open>typ\<close> header of each signature (\<^const>\<open>None\<close>
  when it is absent or no string), and verification with a public key.
\<close>

record ('sg, 'ob) jose_lib =
  new_signer :: "string \<Rightarrow> string \<Rightarrow> 'sg result"
  jose_sign :: "'sg \<Rightarrow> string \<Rightarrow> 'ob result"
  compact_serialize :: "'ob \<Rightarrow> string result"
  parse_signed :: "string \<Rightarrow> 'ob result"
  signature_types :: "'ob \<Rightarrow> string option list"
  jose_verify :: "'ob \<Rightarrow> string \<Rightarrow> string result"

text \<open>An \<^verbatim>\<open>ed25519.PrivateKey\<close> is 64 bytes, the second half of which is the public key.\<close>

definition public_of :: "string \<Rightarrow> string" where
  "public_of key = take 32 (drop 32 key)"

definition signProof :: "('sg, 'ob, 'z) jose_lib_scheme \<Rightarrow> string \<Rightarrow> string \<Rightarrow> string result" where
  "signProof J key rawChallenge =
     (case new_signer J key proofType of
        Inl e \<Rightarrow> Inl e
      | Inr signer \<Rightarrow>
          (case jose_sign J signer rawChallenge of
             Inl e \<Rightarrow> Inl e
           | Inr object \<Rightarrow>
               (case compact_serialize J object of
                  Inl e \<Rightarrow> Inl e
                | Inr compact \<Rightarrow>
                    Ok (json_print (proof_json
                      \<lparr>pd_jwk = jwkFor (public_of key), pd_proof = compact\<rparr>)))))"

definition verifyProof :: "('sg, 'ob, 'z) jose_lib_scheme \<Rightarrow> string \<Rightarrow> publicJWK \<Rightarrow> string result" where
  "verifyProof J data expectedKey =
     (case decodeJSON dec_proof zero_proof data of
        Inl e \<Rightarrow> Inl e
      | Inr document \<Rightarrow>
          if pd_jwk document \<noteq> expectedKey then Fail ''bootstrap key mismatch''
          else case jwk_key expectedKey of
            Inl e \<Rightarrow> Inl e
          | Inr key \<Rightarrow>
              if count_list (pd_proof document) CHR ''.'' \<noteq> 2 then Fail ''compact JWS required''
              else case parse_signed J (pd_proof document) of
                Inl e \<Rightarrow> Fail ''invalid JWS''
              | Inr object \<Rightarrow>
                  if length (signature_types J object) \<noteq> 1 then Fail ''invalid JWS''
                  else if signature_types J object ! 0 \<noteq> Some proofType then Fail ''invalid proof type''
                  else case jose_verify J object key of
                    Inl e \<Rightarrow> Fail ''invalid proof signature''
                  | Inr payload \<Rightarrow>
                      if length payload > MaxDocumentSize then Fail ''proof payload too large''
                      else Ok payload)"

definition parseProof ::
  "('sg, 'ob, 'z) jose_lib_scheme \<Rightarrow> string \<Rightarrow> string \<Rightarrow> time \<Rightarrow> challenge result" where
  "parseProof J data fqdn now =
     (case decodeJSON dec_proof zero_proof data of
        Inl e \<Rightarrow> Inl e
      | Inr document \<Rightarrow>
          (case verifyProof J data (pd_jwk document) of
             Inl e \<Rightarrow> Inl e
           | Inr payload \<Rightarrow>
               (case decodeJSON dec_challenge zero_challenge payload of
                  Inl e \<Rightarrow> Inl e
                | Inr c \<Rightarrow>
                    (case validateChallenge c now of
                       Inl e \<Rightarrow> Inl e
                     | Inr _ \<Rightarrow>
                         if ch_fqdn c \<noteq> fqdn \<or> ch_thumbprint c \<noteq> thumbprint (pd_jwk document)
                         then Fail ''proof does not match responder''
                         else Ok c))))"

section \<open>What the validators accept\<close>

definition valid_label :: "string \<Rightarrow> bool" where
  "valid_label s =
     (s \<noteq> [] \<and> length s \<le> 63 \<and> list_all (\<lambda>c. label_char c \<or> c = CHR ''-'') s \<and>
      hd s \<noteq> CHR ''-'' \<and> last s \<noteq> CHR ''-'')"

lemma label_char_dash [simp]: "\<not> label_char CHR ''-''"
  by (simp add: label_char_def)

lemma labelPattern_iff: "rx_match labelPattern s \<longleftrightarrow> valid_label s"
proof
  assume "rx_match labelPattern s"
  then obtain c t where s: "s = c # t" "label_char c"
    and t: "t = [] \<or> (\<exists>u d. t = u @ [d] \<and> u \<in> rx_lang (RUpTo 61 (RCls (\<lambda>c. label_char c \<or> c = CHR ''-''))) \<and> label_char d)"
    unfolding rx_match_lang labelPattern_def rx_lang.simps(3,4) rx_lang_opt by fastforce
  from t show "valid_label s"
    using s unfolding rx_lang_upto_cls by (auto simp: valid_label_def)
next
  assume v: "valid_label s"
  then obtain c t where s: "s = c # t" by (cases s) (auto simp: valid_label_def)
  with v have c: "label_char c" by (auto simp: valid_label_def)
  show "rx_match labelPattern s"
  proof (cases t rule: rev_cases)
    case Nil
    with s c show ?thesis by (simp add: labelPattern_def)
  next
    case (snoc u d)
    with v s have "label_char d" "u \<in> rx_lang (RUpTo 61 (RCls (\<lambda>c. label_char c \<or> c = CHR ''-'')))"
      unfolding rx_lang_upto_cls by (auto simp: valid_label_def)
    then have "[c] @ u @ [d] \<in> rx_lang labelPattern"
      unfolding labelPattern_def using c
      by (intro rx_lang_seqI rx_lang_clsI rx_lang_opt [THEN iffD2] disjI2)
    with s snoc show ?thesis by (simp add: rx_match_lang)
  qed
qed

lemma valid_label_dotless: "valid_label s \<Longrightarrow> CHR ''.'' \<notin> set s"
  by (auto simp: valid_label_def list_all_iff label_char_def)

lemma contains_sub_single: "contains_sub [c] s \<longleftrightarrow> c \<in> set s"
  by (induction s) (auto simp: has_prefix_def)

lemma length_split_on: "length (split_on c s) = Suc (count_list s c)"
  by (induction s) (auto split: list.splits)

text \<open>C33. A name is a valid FQDN exactly when it has at most 253 bytes and is two or more labels
  joined by dots, each 1 to 63 lower-case letters, digits or inner dashes.\<close>

theorem validFQDN_labels:
  "validFQDN v \<longleftrightarrow>
    length v \<le> 253 \<and> (\<exists>ls. v = join_with ''.'' ls \<and> 2 \<le> length ls \<and> list_all valid_label ls)"
proof
  assume v: "validFQDN v"
  let ?ls = "split_on CHR ''.'' v"
  from v have "CHR ''.'' \<in> set v" by (auto simp: validFQDN_def contains_sub_single split: if_splits)
  then have "2 \<le> length ?ls" unfolding length_split_on by (metis Suc_le_mono count_list_0_iff less_one not_le numeral_2_eq_2 One_nat_def)
  moreover have "list_all valid_label ?ls"
    using v by (auto simp: validFQDN_def labelPattern_iff list_all_iff split: if_splits)
  ultimately show "length v \<le> 253 \<and> (\<exists>ls. v = join_with ''.'' ls \<and> 2 \<le> length ls \<and> list_all valid_label ls)"
    using v by (intro conjI exI [of _ ?ls]) (auto simp: validFQDN_def split: if_splits)
next
  assume r: "length v \<le> 253 \<and> (\<exists>ls. v = join_with ''.'' ls \<and> 2 \<le> length ls \<and> list_all valid_label ls)"
  then obtain ls where ls: "v = join_with ''.'' ls" "2 \<le> length ls" "list_all valid_label ls" by blast
  then have s: "split_on CHR ''.'' v = ls"
    by (auto intro!: split_join simp: list_all_iff valid_label_dotless)
  then have "count_list v CHR ''.'' \<noteq> 0" using ls(2) length_split_on [of "CHR ''.''" v] by simp
  then have "CHR ''.'' \<in> set v" by (metis count_notin)
  with r s ls show "validFQDN v"
    by (auto simp: validFQDN_def contains_sub_single labelPattern_iff list_all_iff)
qed

text \<open>A string passes as a random value exactly when it is the canonical unpadded encoding of
  32 bytes, so distinct accepted strings stand for distinct values.\<close>

theorem validRandom_iff: "validRandom v \<longleftrightarrow> (\<exists>b. length b = 32 \<and> v = b64_encode b)"
  by (auto simp: validRandom_def b64_decode_encode split: option.splits)

text \<open>A JWK yields a key exactly when it is the JWK of that 32-byte key: both directions of the
  encoding agree and no other JWK is accepted.\<close>

theorem jwk_key_iff: "jwk_key j = Ok k \<longleftrightarrow> length k = 32 \<and> j = jwkFor k"
  by (cases j) (auto simp: jwk_key_def jwkFor_def b64_decode_encode split: option.splits if_splits)

section \<open>Documents survive printing and decoding\<close>

lemma b64_safe_plain: "b64_safe c \<Longrightarrow> json_plain c"
  by (auto simp: b64_safe_def b64_val_def json_plain_def Let_def split: if_splits)

lemma label_char_plain: "label_char c \<Longrightarrow> json_plain c"
  by (auto simp: label_char_def json_plain_def Let_def)

abbreviation plain :: "string \<Rightarrow> bool" where
  "plain s \<equiv> list_all json_plain s"

lemma b64_encode_plain [simp]: "plain (b64_encode s)"
  using b64_encode_safe [of s] by (auto simp: list_all_iff b64_safe_plain)

lemma validRandom_plain: "validRandom s \<Longrightarrow> plain s \<and> length s = 43"
  by (auto simp: validRandom_def b64_encode_length split: option.splits)

lemma join_with_all: "list_all P sep \<Longrightarrow> list_all (list_all P) ls \<Longrightarrow> list_all P (join_with sep ls)"
  by (induction sep ls rule: join_with.induct) auto

lemma valid_label_plain: "valid_label s \<Longrightarrow> plain s"
proof -
  assume "valid_label s"
  then have "list_all (\<lambda>c. label_char c \<or> c = CHR ''-'') s" by (simp add: valid_label_def)
  moreover have "json_plain CHR ''-''" by (simp add: json_plain_def)
  ultimately show ?thesis by (auto simp: list_all_iff label_char_plain)
qed

lemma validFQDN_all_labels: "validFQDN v \<Longrightarrow> list_all valid_label (split_on CHR ''.'' v)"
  by (auto simp: validFQDN_def labelPattern_iff list_all_iff split: if_splits)

lemma validFQDN_plain: "validFQDN v \<Longrightarrow> plain v \<and> length v \<le> 253"
proof -
  assume v: "validFQDN v"
  have "plain (join_with ''.'' (split_on CHR ''.'' v))"
  proof (rule join_with_all)
    show "plain ''.''" by (simp add: json_plain_def)
    show "list_all plain (split_on CHR ''.'' v)"
      using validFQDN_all_labels [OF v] valid_label_plain by (simp add: list.pred_mono_strong)
  qed
  then show ?thesis using v by (auto simp: validFQDN_def split: if_splits)
qed

lemma serverID_plain: "plain d \<Longrightarrow> plain (serverID d)"
  by (simp add: serverID_def json_plain_def)

abbreviation int64 :: "int \<Rightarrow> bool" where
  "int64 i \<equiv> - (2 ^ 63) \<le> i \<and> i < 2 ^ 63"

lemma int_literal_int64: "int64 i \<Longrightarrow> int_literal (itoa i)"
  by (simp add: int_literal_def atoi_itoa)

lemma decodeJSON_print:
  assumes "json_safe j" "length (json_print j) \<le> MaxDocumentSize" "dec j z = Some v"
  shows "decodeJSON dec z (json_print j) = Ok v"
proof -
  have "json_print j \<noteq> []" using json_print_hd [OF assms(1)] by auto
  with assms json_next_print [OF assms(1), of "[]"] show ?thesis
    by (simp add: decodeJSON_def json_at_eof_def)
qed

definition plain_jwk :: "publicJWK \<Rightarrow> bool" where
  "plain_jwk j = (plain (jwk_kty j) \<and> plain (jwk_crv j) \<and> plain (jwk_x j))"

definition plain_challenge :: "challenge \<Rightarrow> bool" where
  "plain_challenge c =
     (plain (ch_id c) \<and> plain (ch_nonce c) \<and> plain (ch_fqdn c) \<and> plain (ch_trust_domain c) \<and>
      plain (ch_server_id c) \<and> plain (ch_thumbprint c) \<and> int64 (ch_version c) \<and> int64 (ch_expires c))"

lemmas struct_defs = dec_struct_def field_for_def dec_field_def dec_string_def dec_int_def

lemma dec_int64_itoa: "int64 i \<Longrightarrow> dec_int64 (JNum (itoa i)) v = Some i"
  by (simp add: dec_int_def atoi_itoa)

lemma dec_jwk_json: "dec_jwk (jwk_json j) z = Some j"
  by (cases j) (simp add: dec_jwk_def jwk_json_def struct_defs)

lemma dec_challenge_json:
  "int64 (ch_version c) \<Longrightarrow> int64 (ch_expires c) \<Longrightarrow> dec_challenge (challenge_json c) z = Some c"
  by (cases c) (simp add: dec_challenge_def challenge_json_def struct_defs atoi_itoa)

lemma dec_proof_json: "dec_proof (proof_json d) z = Some d"
  by (cases d) (simp add: dec_proof_def proof_json_def dec_jwk_json dec_struct_def field_for_def
      dec_field_def dec_string_def)

lemma dec_request_json: "int64 (rq_version r) \<Longrightarrow> dec_request (request_json r) z = Some r"
  by (cases r) (simp add: dec_request_def request_json_def dec_jwk_json struct_defs atoi_itoa)

lemma dec_ready_json: "int64 (rd_version r) \<Longrightarrow> dec_ready (ready_json r) z = Some r"
  by (cases r) (simp add: dec_ready_def ready_json_def struct_defs atoi_itoa)

lemma jwk_json_safe: "plain_jwk j \<Longrightarrow> json_safe (jwk_json j)"
  by (simp add: plain_jwk_def jwk_json_def json_plain_def)

lemma challenge_json_safe: "plain_challenge c \<Longrightarrow> json_safe (challenge_json c)"
  by (simp add: plain_challenge_def challenge_json_def int_literal_int64 json_plain_def)

lemma jwkFor_plain [simp]: "plain_jwk (jwkFor k)"
  by (simp add: plain_jwk_def jwkFor_def json_plain_def)

lemma show_nat_length: "n < 10 ^ Suc k \<Longrightarrow> length (show_nat n) \<le> Suc k"
proof (induction k arbitrary: n)
  case 0
  then show ?case by (subst show_nat.simps) simp
next
  case (Suc k)
  then have "n div 10 < 10 ^ Suc k" by (simp add: div_less_iff_less_mult)
  then have "length (show_nat (n div 10)) \<le> Suc k" by (rule Suc.IH)
  then show ?case by (subst show_nat.simps) simp
qed

lemma itoa_length: "int64 i \<Longrightarrow> length (itoa i) \<le> 20"
proof -
  assume i: "int64 i"
  have "length (show_nat n) \<le> Suc 18" if "n \<le> 2 ^ 63" for n :: nat
    by (rule show_nat_length) (use that in simp)
  from this [of "nat i"] this [of "nat (- i)"] i show ?thesis
    by (auto simp: itoa_def nat_le_iff)
qed

lemma print_string_length: "plain s \<Longrightarrow> length (print_string s) = length s + 2"
  by (simp add: print_string_def json_escape_plain)

lemma thumbprint_valid [simp]: "validRandom (thumbprint j)"
  by (auto simp: validRandom_def thumbprint_def Let_def b64_decode_encode)

lemma validateChallenge_iff:
  "validateChallenge c now = Ok u \<longleftrightarrow>
    ch_version c = 1 \<and> validRandom (ch_id c) \<and> validRandom (ch_nonce c) \<and> validFQDN (ch_fqdn c) \<and>
    validFQDN (ch_trust_domain c) \<and> ch_server_id c = serverID (ch_trust_domain c) \<and>
    validRandom (ch_thumbprint c) \<and> unix_of now < ch_expires c \<and> ch_expires c \<le> unix_of now + 120"
  by (auto simp: validateChallenge_def ChallengeTTL_def simp del: unix_of_add_seconds)
    (use unix_of_add_seconds [of now 120] in auto)

lemma valid_challenge_plain:
  assumes "validateChallenge c now = Ok u" "int64 (ch_expires c)"
  shows "plain_challenge c" and "length (json_print (challenge_json c)) \<le> 1400"
proof -
  note v = assms(1) [unfolded validateChallenge_iff]
  from v have p: "plain (ch_id c)" "plain (ch_nonce c)" "plain (ch_fqdn c)" "plain (ch_trust_domain c)"
    "plain (ch_thumbprint c)" "length (ch_id c) = 43" "length (ch_nonce c) = 43" "length (ch_fqdn c) \<le> 253"
    "length (ch_trust_domain c) \<le> 253" "length (ch_thumbprint c) = 43"
    using validRandom_plain validFQDN_plain by auto
  have s: "plain (ch_server_id c)" "length (ch_server_id c) \<le> 275"
    using v p by (simp_all add: serverID_plain) (simp add: serverID_def)
  from p s assms(2) v show "plain_challenge c" by (simp add: plain_challenge_def)
  have "length (itoa (ch_version c)) \<le> 20" "length (itoa (ch_expires c)) \<le> 20"
    using v assms(2) by (auto intro!: itoa_length)
  then show "length (json_print (challenge_json c)) \<le> 1400"
    using p s by (simp add: challenge_json_def print_string_length json_plain_def)
qed

lemma decode_valid_challenge:
  assumes "validateChallenge c now = Ok u" "int64 (ch_expires c)"
  shows "decodeJSON dec_challenge zero_challenge (json_print (challenge_json c)) = Ok c"
  using valid_challenge_plain [OF assms] assms(2)
  by (intro decodeJSON_print challenge_json_safe dec_challenge_json)
    (auto simp: MaxDocumentSize_def plain_challenge_def)

text \<open>The bytes of a valid challenge decode back to it: what the agent signs and the server
  compares is the challenge itself, whatever its names are.\<close>

theorem challenge_roundtrip:
  assumes "validateChallenge c now = Ok ()" "int64 (ch_expires c)"
  shows "decodeJSON dec_challenge zero_challenge (json_print (challenge_json c)) = Ok c"
  using assms by (rule decode_valid_challenge)

text \<open>A concrete challenge, for the examples.\<close>

definition ex_key :: string where
  "ex_key = replicate 64 CHR ''k''"

definition ex_challenge :: challenge where
  "ex_challenge = \<lparr>ch_version = 1, ch_id = b64_encode (replicate 32 CHR ''i''),
     ch_nonce = b64_encode (replicate 32 CHR ''n''), ch_fqdn = ''node.example'',
     ch_trust_domain = ''realm.example'', ch_server_id = ''spiffe://realm.example/spire/server'',
     ch_thumbprint = thumbprint (jwkFor (public_of ex_key)), ch_expires = 1120\<rparr>"

lemma validRandom_encode [simp]: "length b = 32 \<Longrightarrow> validRandom (b64_encode b)"
  by (simp add: validRandom_def b64_decode_encode)

lemma ex_names: "validFQDN ''node.example''" "validFQDN ''realm.example''"
  by code_simp+

lemma ex_challenge_valid: "validateChallenge ex_challenge (seconds 1000) = Ok ()"
  by (simp add: validateChallenge_iff ex_challenge_def ex_names serverID_def unix_of_def)

theorem challenge_roundtrip_witness:
  "decodeJSON dec_challenge zero_challenge (json_print (challenge_json ex_challenge)) = Ok ex_challenge"
  by (rule challenge_roundtrip [OF ex_challenge_valid]) (simp add: ex_challenge_def)

section \<open>Signing and verifying\<close>

text \<open>
  What \<^verbatim>\<open>go-jose\<close> documents of an EdDSA signer, for a 64-byte private key: signing succeeds, the
  compact form is three base64url segments (the bound covers its header and 64-byte signature), and
  it parses to one signature with the type header given, which the public half of the key verifies,
  returning the payload.
\<close>

definition jose_correct :: "('sg, 'ob, 'z) jose_lib_scheme \<Rightarrow> bool" where
  "jose_correct J =
     (\<forall>key msg. length key = 64 \<longrightarrow>
        (\<exists>signer object compact parsed.
           new_signer J key proofType = Ok signer \<and> jose_sign J signer msg = Ok object \<and>
           compact_serialize J object = Ok compact \<and>
           list_all (\<lambda>c. b64_safe c \<or> c = CHR ''.'') compact \<and> count_list compact CHR ''.'' = 2 \<and>
           length compact \<le> 2 * length msg + 512 \<and>
           parse_signed J compact = Ok parsed \<and> signature_types J parsed = [Some proofType] \<and>
           jose_verify J parsed (public_of key) = Ok msg))"

text \<open>An instance that satisfies it (its signature is the public key), for the examples.\<close>

definition ex_jose :: "(string \<times> string, string \<times> string \<times> string) jose_lib" where
  "ex_jose = \<lparr>
     new_signer = (\<lambda>key typ. Ok (key, typ)),
     jose_sign = (\<lambda>(key, typ) msg. Ok (typ, msg, public_of key)),
     compact_serialize = (\<lambda>(typ, msg, sig). Ok (join_with ''.'' [b64_encode typ, b64_encode msg, b64_encode sig])),
     parse_signed = (\<lambda>s. case map b64_decode_strict (split_on CHR ''.'' s) of
                           [Some typ, Some msg, Some sig] \<Rightarrow> Ok (typ, msg, sig)
                         | _ \<Rightarrow> Inl (ErrLib ''jose'')),
     signature_types = (\<lambda>(typ, msg, sig). [Some typ]),
     jose_verify = (\<lambda>(typ, msg, sig) key. if sig = key then Ok msg else Inl (ErrLib ''jose''))\<rparr>"

lemma b64_encode_dotless: "CHR ''.'' \<notin> set (b64_encode s)"
  using b64_encode_safe [of s] by (auto simp: list_all_iff b64_safe_def b64_val_def)

lemma count_list_append: "count_list (xs @ ys) c = count_list xs c + count_list ys c"
  by (induction xs) auto

lemma ex_jose_correct: "jose_correct ex_jose"
proof -
  have split: "split_on CHR ''.'' (join_with ''.'' (map b64_encode [t, m, p])) = map b64_encode [t, m, p]" for t m p
    by (rule split_join) (auto simp: b64_encode_dotless)
  have "count_list (b64_encode s) CHR ''.'' = 0" for s by (rule count_notin [OF b64_encode_dotless])
  moreover have "list_all (\<lambda>c. b64_safe c \<or> c = CHR ''.'') (b64_encode s)" for s
    using b64_encode_safe [of s] by (auto simp: list_all_iff)
  moreover have "Suc (Suc (4 * n)) div 3 \<le> 425 + 2 * n" for n by linarith
  moreover have "length proofType = 31" by (simp add: proofType_def)
  ultimately show ?thesis
    using split
    by (simp add: jose_correct_def ex_jose_def b64_decode_encode b64_encode_length count_list_append
        public_of_def)
qed

lemma verifyProof_iff:
  "verifyProof J data j = Ok payload \<longleftrightarrow>
    (\<exists>document key object.
       decodeJSON dec_proof zero_proof data = Ok document \<and> pd_jwk document = j \<and> jwk_key j = Ok key \<and>
       count_list (pd_proof document) CHR ''.'' = 2 \<and> parse_signed J (pd_proof document) = Ok object \<and>
       signature_types J object = [Some proofType] \<and> jose_verify J object key = Ok payload \<and>
       length payload \<le> MaxDocumentSize)"
  by (auto simp: verifyProof_def length_Suc_conv split: sum.splits if_splits)

lemma public_of_length [simp]: "length key = 64 \<Longrightarrow> length (public_of key) = 32"
  by (simp add: public_of_def)

lemma jwk_key_for: "length k = 32 \<Longrightarrow> jwk_key (jwkFor k) = Ok k"
  by (simp add: jwk_key_def jwkFor_def b64_decode_encode)

lemma jwk_key_OkD: "jwk_key j = Ok k \<Longrightarrow> length k = 32 \<and> j = jwkFor k"
  by (cases j) (auto simp: jwk_key_def jwkFor_def split: option.splits if_splits)

lemma proof_document:
  assumes "list_all (\<lambda>c. b64_safe c \<or> c = CHR ''.'') compact" "length compact \<le> 7000" "length k = 32"
  shows "decodeJSON dec_proof zero_proof (json_print (proof_json \<lparr>pd_jwk = jwkFor k, pd_proof = compact\<rparr>))
      = Ok \<lparr>pd_jwk = jwkFor k, pd_proof = compact\<rparr>" (is ?dec)
    and "length (json_print (proof_json \<lparr>pd_jwk = jwkFor k, pd_proof = compact\<rparr>)) \<le> MaxDocumentSize" (is ?len)
proof -
  have d: "json_plain CHR ''.''" by (simp add: json_plain_def)
  have p: "plain compact"
    using assms(1) d b64_safe_plain by (auto simp: list_all_iff)
  then have safe: "json_safe (proof_json \<lparr>pd_jwk = jwkFor k, pd_proof = compact\<rparr>)"
    using jwk_json_safe [OF jwkFor_plain] by (simp add: proof_json_def json_plain_def)
  show ?len
    using p assms(2,3)
    by (simp add: proof_json_def jwk_json_def jwkFor_def MaxDocumentSize_def print_string_length
        json_plain_def b64_encode_length)
  with safe show ?dec by (intro decodeJSON_print dec_proof_json)
qed

lemma signProof_correct:
  assumes "jose_correct J" "length key = 64" "length raw \<le> 3000"
  obtains document d where "signProof J key raw = Ok document" "length document \<le> MaxDocumentSize"
    "decodeJSON dec_proof zero_proof document = Ok d" "pd_jwk d = jwkFor (public_of key)"
    "verifyProof J document (jwkFor (public_of key)) = Ok raw"
proof -
  obtain signer object compact parsed where j:
    "new_signer J key proofType = Ok signer" "jose_sign J signer raw = Ok object"
    "compact_serialize J object = Ok compact"
    "list_all (\<lambda>c. b64_safe c \<or> c = CHR ''.'') compact" "count_list compact CHR ''.'' = 2"
    "length compact \<le> 2 * length raw + 512"
    "parse_signed J compact = Ok parsed" "signature_types J parsed = [Some proofType]"
    "jose_verify J parsed (public_of key) = Ok raw"
    using assms(1,2) unfolding jose_correct_def by blast
  let ?d = "\<lparr>pd_jwk = jwkFor (public_of key), pd_proof = compact\<rparr>"
  have k: "length (public_of key) = 32" using assms(2) by simp
  have l: "length compact \<le> 7000" using j(6) assms(3) by simp
  note doc = proof_document [OF j(4) l k]
  have "verifyProof J (json_print (proof_json ?d)) (jwkFor (public_of key)) = Ok raw"
    unfolding verifyProof_iff using doc j assms(3) jwk_key_for [OF k]
    by (auto simp: MaxDocumentSize_def)
  moreover have "signProof J key raw = Ok (json_print (proof_json ?d))"
    using j by (simp add: signProof_def)
  ultimately show ?thesis using that doc by simp
qed

lemma sign_parse:
  assumes "jose_correct J" "length key = 64" "validateChallenge c now = Ok ()" "int64 (ch_expires c)"
    and "ch_thumbprint c = thumbprint (jwkFor (public_of key))"
  obtains document where "signProof J key (json_print (challenge_json c)) = Ok document"
    "length document \<le> MaxDocumentSize" "parseProof J document (ch_fqdn c) now = Ok c"
    "verifyProof J document (jwkFor (public_of key)) = Ok (json_print (challenge_json c))"
proof -
  have "length (json_print (challenge_json c)) \<le> 3000"
    using valid_challenge_plain(2) [OF assms(3,4)] by simp
  then obtain document d where *: "signProof J key (json_print (challenge_json c)) = Ok document"
    "length document \<le> MaxDocumentSize" "decodeJSON dec_proof zero_proof document = Ok d"
    "pd_jwk d = jwkFor (public_of key)"
    "verifyProof J document (jwkFor (public_of key)) = Ok (json_print (challenge_json c))"
    by (rule signProof_correct [OF assms(1,2)])
  moreover have "decodeJSON dec_challenge zero_challenge (json_print (challenge_json c)) = Ok c"
    by (rule decode_valid_challenge [OF assms(3,4)])
  ultimately show ?thesis using assms(3,5) that by (auto simp: parseProof_def)
qed

lemma ex_document_parses:
  "\<exists>document. parseProof ex_jose document ''node.example'' (seconds 1000) = Ok ex_challenge"
  by (rule sign_parse [OF ex_jose_correct _ ex_challenge_valid, of ex_key])
    (auto simp: ex_key_def ex_challenge_def)

text \<open>C19. Proof round trip: for a library that signs and verifies as documented, the document an
  agent signs over a valid challenge for its key is accepted by the responder's parser for the
  node's own name, which returns the challenge, and by the server's verifier for the agent's key,
  which returns the challenge's bytes.\<close>

theorem sign_parse_verify:
  assumes "jose_correct J" "length key = 64" "validateChallenge c now = Ok ()" "int64 (ch_expires c)"
    and "ch_thumbprint c = thumbprint (jwkFor (public_of key))"
  shows "\<exists>document. signProof J key (json_print (challenge_json c)) = Ok document \<and>
      length document \<le> MaxDocumentSize \<and>
      parseProof J document (ch_fqdn c) now = Ok c \<and>
      verifyProof J document (jwkFor (public_of key)) = Ok (json_print (challenge_json c))"
  by (rule sign_parse [OF assms]) blast

theorem sign_parse_verify_witness:
  "\<exists>document. signProof ex_jose ex_key (json_print (challenge_json ex_challenge)) = Ok document \<and>
      length document \<le> MaxDocumentSize \<and>
      parseProof ex_jose document (ch_fqdn ex_challenge) (seconds 1000) = Ok ex_challenge \<and>
      verifyProof ex_jose document (jwkFor (public_of ex_key)) = Ok (json_print (challenge_json ex_challenge))"
  by (rule sign_parse_verify [OF ex_jose_correct _ ex_challenge_valid]) (simp_all add: ex_key_def ex_challenge_def)

lemma parseProof_valid: "parseProof J data fqdn now = Ok c \<Longrightarrow> validateChallenge c now = Ok () \<and> ch_fqdn c = fqdn"
  by (auto simp: parseProof_def split: sum.splits if_splits)

text \<open>C20. Whatever the library does, a proof the responder's parser accepts carries a challenge that
  is valid now and names this node, and was verified under the 32-byte key whose thumbprint the
  challenge holds.\<close>

theorem parseProof_sound:
  assumes "parseProof J data fqdn now = Ok c"
  shows "validateChallenge c now = Ok () \<and> ch_fqdn c = fqdn \<and>
    (\<exists>k object payload. length k = 32 \<and> ch_thumbprint c = thumbprint (jwkFor k) \<and>
       signature_types J object = [Some proofType] \<and> jose_verify J object k = Ok payload \<and>
       decodeJSON dec_challenge zero_challenge payload = Ok c)"
proof -
  from assms obtain document :: proofDocument and payload where p:
    "verifyProof J data (pd_jwk document) = Ok payload"
    "decodeJSON dec_challenge zero_challenge payload = Ok c"
    "validateChallenge c now = Ok ()" "ch_fqdn c = fqdn" "ch_thumbprint c = thumbprint (pd_jwk document)"
    by (auto simp: parseProof_def split: sum.splits if_splits)
  from p(1) obtain key object where "jwk_key (pd_jwk document) = Ok key"
    "signature_types J object = [Some proofType]" "jose_verify J object key = Ok payload"
    by (auto simp: verifyProof_iff)
  with p jwk_key_OkD show ?thesis by metis
qed

theorem parseProof_sound_witness:
  "\<exists>document. validateChallenge ex_challenge (seconds 1000) = Ok () \<and>
    (parseProof ex_jose document ''node.example'' (seconds 1000) = Ok ex_challenge \<and>
    (\<exists>k object payload. length k = 32 \<and> ch_thumbprint ex_challenge = thumbprint (jwkFor k) \<and>
       signature_types ex_jose object = [Some proofType] \<and> jose_verify ex_jose object k = Ok payload \<and>
       decodeJSON dec_challenge zero_challenge payload = Ok ex_challenge))"
proof -
  obtain document where "parseProof ex_jose document ''node.example'' (seconds 1000) = Ok ex_challenge"
    using ex_document_parses by blast
  from parseProof_sound [OF this] this show ?thesis by blast
qed

end
