(* ===== verification/Go_Netip.thy ===== *)
theory Go_Netip
  imports Go_Text
begin

text \<open>
  Go's \<^verbatim>\<open>net/netip\<close> and the host and port functions of \<^verbatim>\<open>net\<close>, as the sources use them: addresses
  as 32 or 128-bit words, their text forms, the address classes, and CIDR prefixes. The text of an
  IPv4 address parses back to it, and a prefix contains exactly the addresses that agree with it
  on its leading bits.
\<close>

unbundle bit_operations_syntax

section \<open>Addresses\<close>

datatype addr = AddrInvalid | Addr4 "32 word" | Addr6 "128 word" string

definition addr_is_valid :: "addr \<Rightarrow> bool" where
  "addr_is_valid a = (a \<noteq> AddrInvalid)"

definition addr_zone :: "addr \<Rightarrow> string" where
  "addr_zone a = (case a of Addr6 _ z \<Rightarrow> z | _ \<Rightarrow> [])"

definition addr_is4 :: "addr \<Rightarrow> bool" where
  "addr_is4 a = (case a of Addr4 _ \<Rightarrow> True | _ \<Rightarrow> False)"

definition addr_is6 :: "addr \<Rightarrow> bool" where
  "addr_is6 a = (case a of Addr6 _ _ \<Rightarrow> True | _ \<Rightarrow> False)"

definition addr_is4in6 :: "addr \<Rightarrow> bool" where
  "addr_is4in6 a = (case a of Addr6 w _ \<Rightarrow> drop_bit 32 w = 0xFFFF | _ \<Rightarrow> False)"

definition addr_unmap :: "addr \<Rightarrow> addr" where
  "addr_unmap a = (case a of Addr6 w _ \<Rightarrow> if drop_bit 32 w = 0xFFFF then Addr4 (ucast w) else a | _ \<Rightarrow> a)"

definition addr_is_loopback :: "addr \<Rightarrow> bool" where
  "addr_is_loopback a =
     (case addr_unmap a of
        AddrInvalid \<Rightarrow> False
      | Addr4 w \<Rightarrow> drop_bit 24 w = 127
      | Addr6 w _ \<Rightarrow> w = 1)"

definition addr_is_multicast :: "addr \<Rightarrow> bool" where
  "addr_is_multicast a =
     (case addr_unmap a of
        AddrInvalid \<Rightarrow> False
      | Addr4 w \<Rightarrow> drop_bit 24 w AND 0xF0 = 0xE0
      | Addr6 w _ \<Rightarrow> drop_bit 120 w = 0xFF)"

definition addr_is_link_local :: "addr \<Rightarrow> bool" where
  "addr_is_link_local a =
     (case addr_unmap a of
        AddrInvalid \<Rightarrow> False
      | Addr4 w \<Rightarrow> drop_bit 16 w = 0xA9FE
      | Addr6 w _ \<Rightarrow> drop_bit 112 w AND 0xFFC0 = 0xFE80)"

definition addr_is_global_unicast :: "addr \<Rightarrow> bool" where
  "addr_is_global_unicast a =
     (a \<noteq> AddrInvalid \<and> a \<noteq> Addr4 0 \<and> a \<noteq> Addr4 0xFFFFFFFF \<and> a \<noteq> Addr6 0 [] \<and>
      \<not> addr_is_loopback a \<and> \<not> addr_is_multicast a \<and> \<not> addr_is_link_local a)"

section \<open>Text forms\<close>

definition v4_field :: "string \<Rightarrow> nat option" where
  "v4_field f =
     (case parse_digits f of
        None \<Rightarrow> None
      | Some n \<Rightarrow> if n \<le> 255 \<and> (length f = 1 \<or> hd f \<noteq> CHR ''0'') then Some n else None)"

definition v4_fields :: "string \<Rightarrow> nat list option" where
  "v4_fields s =
     (let fs = map v4_field (split_on CHR ''.'' s) in
      if length fs = 4 \<and> None \<notin> set fs then Some (map the fs) else None)"

definition word_of_parts :: "nat \<Rightarrow> int list \<Rightarrow> 'a::len word" where
  "word_of_parts b ns = foldl (\<lambda>w n. push_bit b w + of_int n) 0 ns"

definition is_hex :: "char \<Rightarrow> bool" where
  "is_hex c = (let n = of_char c :: nat in 48 \<le> n \<and> n \<le> 57 \<or> 97 \<le> n \<and> n \<le> 102 \<or> 65 \<le> n \<and> n \<le> 70)"

definition hex_nibble :: "char \<Rightarrow> int" where
  "hex_nibble c =
     (let n = of_char c in if n \<le> 57 then n - 48 else if n \<le> 70 then n - 55 else n - 87)"

definition hex_number :: "string \<Rightarrow> int" where
  "hex_number s = foldl (\<lambda>n c. 16 * n + hex_nibble c) 0 s"

text \<open>
  The loop of \<^verbatim>\<open>parseIPv6\<close>, over at most eight groups: the groups so far, where an ellipsis
  stood, and what is left of the text.
\<close>

fun v6_loop :: "nat \<Rightarrow> string \<Rightarrow> int list \<Rightarrow> nat option \<Rightarrow> (int list \<times> nat option \<times> string) option" where
  "v6_loop 0 s gs el = Some (gs, el, s)"
| "v6_loop (Suc k) s gs el =
     (let h = takeWhile is_hex s; r = dropWhile is_hex s in
      if h = [] \<or> length h > 4 then None
      else if r \<noteq> [] \<and> hd r = CHR ''.'' then
        (if el = None \<and> length gs \<noteq> 6 \<or> length gs > 6 then None
         else case v4_fields s of
           Some [a, b, c, d] \<Rightarrow> Some (gs @ [int a * 256 + int b, int c * 256 + int d], el, [])
         | _ \<Rightarrow> None)
      else let gs' = gs @ [hex_number h] in
        case r of
          [] \<Rightarrow> Some (gs', el, [])
        | c # t \<Rightarrow>
            if c \<noteq> CHR '':'' \<or> t = [] then None
            else if hd t = CHR '':'' then
              (if el \<noteq> None then None
               else if tl t = [] then Some (gs', Some (length gs'), [])
               else v6_loop k (tl t) gs' (Some (length gs')))
            else v6_loop k t gs' el)"

definition v6_expand :: "int list \<Rightarrow> nat option \<Rightarrow> int list option" where
  "v6_expand gs el =
     (case el of
        None \<Rightarrow> if length gs = 8 then Some gs else None
      | Some e \<Rightarrow> if length gs < 8 then Some (take e gs @ replicate (8 - length gs) 0 @ drop e gs) else None)"

definition parse_v6 :: "string \<Rightarrow> addr option" where
  "parse_v6 text =
     (let s = takeWhile (\<lambda>c. c \<noteq> CHR ''%'') text;
          zone = drop (length s + 1) text;
          ell = has_prefix ''::'' s;
          body = (if ell then drop 2 s else s) in
      if CHR ''%'' \<in> set text \<and> zone = [] then None
      else if ell \<and> body = [] then Some (Addr6 0 zone)
      else case v6_loop 8 body [] (if ell then Some 0 else None) of
        None \<Rightarrow> None
      | Some (gs, el, rest) \<Rightarrow>
          if rest \<noteq> [] then None
          else map_option (\<lambda>g. Addr6 (word_of_parts 16 g) zone) (v6_expand gs el))"

definition parse_v4 :: "string \<Rightarrow> addr option" where
  "parse_v4 s = map_option (\<lambda>fs. Addr4 (word_of_parts 8 (map int fs))) (v4_fields s)"

definition parse_addr :: "string \<Rightarrow> addr option" where
  "parse_addr s =
     (case find (\<lambda>c. c = CHR ''.'' \<or> c = CHR '':'' \<or> c = CHR ''%'') s of
        Some c \<Rightarrow> if c = CHR ''.'' then parse_v4 s else if c = CHR '':'' then parse_v6 s else None
      | None \<Rightarrow> None)"

definition v4_bytes :: "32 word \<Rightarrow> nat list" where
  "v4_bytes w = map (\<lambda>k. unat (drop_bit k w AND 255)) [24, 16, 8, 0]"

definition v6_groups :: "128 word \<Rightarrow> nat list" where
  "v6_groups w = map (\<lambda>k. unat (drop_bit (16 * k) w AND 0xFFFF)) [7, 6, 5, 4, 3, 2, 1, 0]"

fun show_hex :: "nat \<Rightarrow> string" where
  "show_hex n =
     (let d = (\<lambda>k. char_of (if k < 10 then k + 48 else k + 87)) in
      if n < 16 then [d n] else show_hex (n div 16) @ [d (n mod 16)])"

declare show_hex.simps [simp del]

text \<open>The leftmost longest run of two or more zero groups, as a start and an end.\<close>

fun zero_run :: "nat list \<Rightarrow> nat \<Rightarrow> nat \<times> nat \<Rightarrow> nat \<times> nat" where
  "zero_run [] i best = best"
| "zero_run (g # gs) i best =
     (let l = length (takeWhile (\<lambda>x. x = 0) (g # gs)) in
      zero_run gs (Suc i) (if l \<ge> 2 \<and> l > snd best - fst best then (i, i + l) else best))"

definition show_v6 :: "128 word \<Rightarrow> string" where
  "show_v6 w =
     (let gs = v6_groups w; (a, b) = zero_run gs 0 (255, 255) in
      if a = 255 then join_with '':'' (map show_hex gs)
      else join_with '':'' (map show_hex (take a gs)) @ ''::'' @ join_with '':'' (map show_hex (drop b gs)))"

definition show_v4 :: "32 word \<Rightarrow> string" where
  "show_v4 w = join_with ''.'' (map show_nat (v4_bytes w))"

definition addr_string :: "addr \<Rightarrow> string" where
  "addr_string a =
     (case a of
        AddrInvalid \<Rightarrow> ''invalid IP''
      | Addr4 w \<Rightarrow> show_v4 w
      | Addr6 w z \<Rightarrow>
          (if drop_bit 32 w = 0xFFFF then ''::ffff:'' @ show_v4 (ucast w) else show_v6 w) @
          (if z = [] then [] else ''%'' @ z))"

section \<open>Hosts and ports\<close>

definition join_host_port :: "string \<Rightarrow> string \<Rightarrow> string" where
  "join_host_port host port =
     (if CHR '':'' \<in> set host then ''['' @ host @ '']:'' @ port else host @ '':'' @ port)"

definition split_host_port :: "string \<Rightarrow> (string \<times> string) option" where
  "split_host_port s =
     (if CHR '':'' \<notin> set s then None
      else
        let port = rev (takeWhile (\<lambda>c. c \<noteq> CHR '':'') (rev s));
            i = length s - length port - 1 in
        if hd s = CHR ''['' then
          (let e = length (takeWhile (\<lambda>c. c \<noteq> CHR '']'') s) in
           if CHR '']'' \<notin> set s \<or> e + 1 \<noteq> i \<or> CHR ''['' \<in> set (drop 1 s) \<or> CHR '']'' \<in> set (drop (e + 1) s)
           then None else Some (take (e - 1) (drop 1 s), port))
        else if CHR '':'' \<in> set (take i s) \<or> CHR ''['' \<in> set s \<or> CHR '']'' \<in> set s then None
        else Some (take i s, port))"

section \<open>Prefixes\<close>

record pfx =
  pfx_addr :: addr
  pfx_bits :: nat

definition last_slash :: "string \<Rightarrow> nat option" where
  "last_slash s =
     (if CHR ''/'' \<in> set s then Some (length s - length (takeWhile (\<lambda>c. c \<noteq> CHR ''/'') (rev s)) - 1) else None)"

definition addr_bits :: "addr \<Rightarrow> nat" where
  "addr_bits a = (case a of AddrInvalid \<Rightarrow> 0 | Addr4 _ \<Rightarrow> 32 | Addr6 _ _ \<Rightarrow> 128)"

definition parse_prefix :: "string \<Rightarrow> pfx option" where
  "parse_prefix s =
     (case last_slash s of
        None \<Rightarrow> None
      | Some i \<Rightarrow>
          (case parse_addr (take i s) of
             None \<Rightarrow> None
           | Some ip \<Rightarrow>
               let bits = drop (i + 1) s in
               if addr_zone ip \<noteq> [] \<or> length bits > 1 \<and> \<not> (is_digit (hd bits) \<and> hd bits \<noteq> CHR ''0'') then None
               else case atoi bits of
                 None \<Rightarrow> None
               | Some n \<Rightarrow>
                   if n < 0 \<or> n > int (addr_bits ip) then None
                   else Some \<lparr>pfx_addr = ip, pfx_bits = nat n\<rparr>))"

definition pfx_contains :: "pfx \<Rightarrow> addr \<Rightarrow> bool" where
  "pfx_contains p a =
     (case (pfx_addr p, a) of
        (Addr4 n, Addr4 w) \<Rightarrow> drop_bit (32 - pfx_bits p) (w XOR n) = 0
      | (Addr6 n _, Addr6 w z) \<Rightarrow> z = [] \<and> (w XOR n) AND NOT (mask (128 - pfx_bits p)) = 0
      | _ \<Rightarrow> False)"

section \<open>Laws\<close>

lemma xor_eq_0: "a XOR b = 0 \<longleftrightarrow> a = (b :: 'a::len word)"
  by (auto simp: bit_eq_iff bit_xor_iff)

lemma contains6_leading:
  "(w XOR n) AND NOT (mask k) = 0 \<longleftrightarrow> drop_bit k w = drop_bit k (n :: 128 word)" (is "?l = ?r")
proof
  assume l: ?l
  have "bit w (k + i) = bit n (k + i)" for i
    using arg_cong [OF l, of "\<lambda>x. bit x (k + i)"]
    by (cases "k + i < 128") (simp_all add: bit_and_iff bit_xor_iff bit_not_iff bit_mask_iff impossible_bit)
  then show ?r by (intro bit_word_eqI) (simp add: bit_drop_bit_eq)
next
  assume r: ?r
  have "bit w i = bit n i" if "\<not> i < k" for i
    using arg_cong [OF r, of "\<lambda>x. bit x (i - k)"] that by (simp add: bit_drop_bit_eq)
  then show ?l by (intro bit_word_eqI) (auto simp: bit_and_iff bit_xor_iff bit_not_iff bit_mask_iff)
qed

text \<open>Containment is agreement on the leading bits, within one family and without a zone.\<close>

lemma pfx_contains_iff:
  "pfx_contains p a \<longleftrightarrow>
    (\<exists>n w. pfx_addr p = Addr4 n \<and> a = Addr4 w \<and> drop_bit (32 - pfx_bits p) w = drop_bit (32 - pfx_bits p) n) \<or>
    (\<exists>n z w. pfx_addr p = Addr6 n z \<and> a = Addr6 w [] \<and> drop_bit (128 - pfx_bits p) w = drop_bit (128 - pfx_bits p) n)"
  by (cases "pfx_addr p"; cases a) (auto simp: pfx_contains_def xor_eq_0 contains6_leading)

lemma show_nat_field: "n \<le> 255 \<Longrightarrow> v4_field (show_nat n) = Some n"
proof -
  assume n: "n \<le> 255"
  obtain c cs where c: "show_nat n = c # cs" using show_nat_digits [of n] by (cases "show_nat n") auto
  have "length (show_nat n) = 1 \<or> hd (show_nat n) \<noteq> CHR ''0''"
    using c show_nat_zero [of n cs] by auto
  with n show ?thesis by (simp add: v4_field_def)
qed

lemma show_nat_dotless: "CHR ''.'' \<notin> set (show_nat n)"
  using show_nat_digits [of n] by (auto simp: list_all_iff is_digit_def)

lemma v4_bytes_bound: "b \<in> set (v4_bytes w) \<Longrightarrow> b \<le> 255"
proof -
  have "x AND 255 \<le> 255" for x :: "32 word" by (rule word_and_le1)
  then have "unat (x AND 255) \<le> 255" for x :: "32 word" by (simp add: word_le_nat_alt)
  then show "b \<in> set (v4_bytes w) \<Longrightarrow> b \<le> 255" by (auto simp: v4_bytes_def)
qed

lemma v4_bytes_word: "word_of_parts 8 (map int (v4_bytes w)) = w"
proof -
  have m: "x AND 255 = take_bit 8 x" for x :: "32 word" by (simp add: take_bit_eq_mask mask_eq_exp_minus_1)
  have top: "take_bit 8 (drop_bit 24 w) = drop_bit 24 w"
    by (rule bit_word_eqI) (auto simp: bit_take_bit_iff bit_drop_bit_eq dest: bit_imp_le_length)
  have step: "push_bit 8 (drop_bit (8 + k) w) + take_bit 8 (drop_bit k w) = drop_bit k w" for k
    using bits_ident [of 8 "drop_bit k w"] by simp
  show ?thesis
    using step [of 16] step [of 8] step [of 0] by (simp add: word_of_parts_def v4_bytes_def m top)
qed

lemma v4_fields_show: "v4_fields (show_v4 w) = Some (v4_bytes w)"
proof -
  have l: "length (v4_bytes w) = 4" by (simp add: v4_bytes_def)
  have "split_on CHR ''.'' (show_v4 w) = map show_nat (v4_bytes w)"
    unfolding show_v4_def using l by (intro split_join) (auto simp: show_nat_dotless)
  moreover have "map (v4_field \<circ> show_nat) (v4_bytes w) = map Some (v4_bytes w)"
    by (auto simp: show_nat_field v4_bytes_bound)
  ultimately show ?thesis using l by (auto simp: v4_fields_def Let_def o_def intro: map_idI)
qed

theorem parse_show_v4: "parse_addr (show_v4 w) = Some (Addr4 w)"
proof -
  obtain b bs where b: "v4_bytes w = b # bs" "bs \<noteq> []" by (simp add: v4_bytes_def)
  then have "show_v4 w = show_nat b @ CHR ''.'' # join_with ''.'' (map show_nat bs)"
    by (cases bs) (simp_all add: show_v4_def)
  moreover have "find (\<lambda>c. c = CHR ''.'' \<or> c = CHR '':'' \<or> c = CHR ''%'') (s @ CHR ''.'' # t) = Some CHR ''.''"
    if "list_all is_digit s" for s t
    using that by (induction s) (auto simp: is_digit_def)
  ultimately show ?thesis
    using show_nat_digits [of b] v4_fields_show [of w]
    by (simp add: parse_addr_def parse_v4_def v4_bytes_word)
qed

end
