(* ===== verification/Attest_Metrics.thy ===== *)
theory Attest_Metrics
  imports Attest_Protocol Go_Netip
begin

text \<open>
  \<^verbatim>\<open>realm-node-attest/metrics.go\<close> and \<^verbatim>\<open>metrics_listener.go\<close>: the metrics registry every component
  records into, the loopback listener that exposes it, and the classification of errors. Counters
  are 64-bit words. A duration is kept as nanoseconds, so the sum of a histogram is exact where the
  source adds floating-point seconds; a bucket's comparison is the same in both. An event is the
  record of the fields the source writes as a JSON line.
\<close>

section \<open>The registry\<close>

definition stages :: "string list" where
  "stages = [''start'', ''payload'', ''challenge'', ''publish'', ''response'', ''fetch'', ''verify'',
     ''quota'', ''attributes'', ''public'', ''control'']"

definition reasons :: "string list" where
  "reasons = [''internal'', ''not_configured'', ''invalid_payload'', ''unknown_node'',
     ''invalid_key'', ''capacity'', ''stream_error'', ''no_challenge'',
     ''invalid_challenge'', ''publish_failed'', ''invalid_response'',
     ''expired'', ''endpoint_failed'', ''invalid_proof'', ''session_ended'',
     ''rate_limit'', ''invalid_result'', ''attributes_sent'', ''proof_submitted'',
     ''canceled'', ''deadline'',
     ''method'', ''invalid_request'', ''not_found'', ''peer_denied'',
     ''invalid_size'', ''proof_served'', ''proof_published'', ''proof_deleted'',
     ''write_failed'']"

definition outcomes :: "string list" where
  "outcomes = [''success'', ''failure'', ''skipped'']"

text \<open>The bucket bounds, in nanoseconds.\<close>

definition durationBuckets :: "int list" where
  "durationBuckets = [10000000, 50000000, 100000000, 500000000, seconds 1, 2500000000, seconds 5,
     seconds 10, seconds 30, seconds 60, seconds 120]"

record metricLabels =
  ml_node :: string
  ml_outcome :: string
  ml_stage :: string
  ml_reason :: string

record durationLabels =
  dl_node :: string
  dl_outcome :: string

record durationMetric =
  dm_count :: "64 word"
  dm_sum :: int
  dm_buckets :: "64 word list"

record event =
  ev_time :: time
  ev_level :: string
  ev_component :: string
  ev_node :: string
  ev_outcome :: string
  ev_stage :: string
  ev_reason :: string
  ev_duration :: int

record metricsRegistry =
  mr_component :: string
  mr_nodes :: "(string, bool) gmap"
  mr_totals :: "(metricLabels, 64 word) gmap"
  mr_durations :: "(durationLabels, durationMetric) gmap"
  mr_last_success :: "(string, time) gmap"
  mr_pending :: "(string, int) gmap"
  mr_capacity :: int
  mr_proofs :: "(string, 64 word) gmap"
  mr_events :: "event list"

text \<open>An absent map entry reads as the zero value.\<close>

definition gm_get_or :: "'v \<Rightarrow> ('k, 'v) gmap \<Rightarrow> 'k \<Rightarrow> 'v" where
  "gm_get_or z m k = (case gm_get m k of None \<Rightarrow> z | Some v \<Rightarrow> v)"

definition zero_duration :: durationMetric where
  "zero_duration = \<lparr>dm_count = 0, dm_sum = 0, dm_buckets = replicate (length durationBuckets) 0\<rparr>"

text \<open>\<^verbatim>\<open>newMetrics\<close> panics on an unknown component: \<^const>\<open>None\<close>.\<close>

definition newMetrics :: "string \<Rightarrow> metricsRegistry option" where
  "newMetrics component =
     (if component \<noteq> ''agent'' \<and> component \<noteq> ''server'' \<and> component \<noteq> ''responder'' then None
      else Some \<lparr>mr_component = component, mr_nodes = gm_put ''unknown'' True [], mr_totals = [],
                 mr_durations = [], mr_last_success = [], mr_pending = [], mr_capacity = 0,
                 mr_proofs = [], mr_events = []\<rparr>)"

definition register1 :: "metricsRegistry \<Rightarrow> string \<Rightarrow> metricsRegistry" where
  "register1 m node =
     (let m' = m\<lparr>mr_nodes := gm_put node True (mr_nodes m)\<rparr> in
      if gm_get (mr_last_success m) node = None
      then m'\<lparr>mr_last_success := gm_put node 0 (mr_last_success m),
              mr_pending := gm_put node 0 (mr_pending m)\<rparr>
      else m')"

definition register :: "string list \<Rightarrow> metricsRegistry \<Rightarrow> metricsRegistry" where
  "register nodes m = foldl register1 m nodes"

definition nodeLocked :: "metricsRegistry \<Rightarrow> string \<Rightarrow> string" where
  "nodeLocked m node = (if gm_get_or False (mr_nodes m) node then node else ''unknown'')"

definition bounded :: "string \<Rightarrow> string list \<Rightarrow> string \<Rightarrow> string" where
  "bounded value allowed fallback = (if value \<in> set allowed then value else fallback)"

definition pendingAdd :: "string \<Rightarrow> int \<Rightarrow> metricsRegistry \<Rightarrow> metricsRegistry" where
  "pendingAdd node delta m =
     (let n = nodeLocked m node in
      m\<lparr>mr_pending := gm_put n (gm_get_or 0 (mr_pending m) n + delta) (mr_pending m)\<rparr>)"

definition proof_action :: "string \<Rightarrow> metricsRegistry \<Rightarrow> metricsRegistry" where
  "proof_action action m =
     (if action = ''published'' \<or> action = ''deleted'' \<or> action = ''expired''
      then m\<lparr>mr_proofs := gm_put action (gm_get_or 0 (mr_proofs m) action + 1) (mr_proofs m)\<rparr>
      else m)"

definition observe_duration :: "int \<Rightarrow> durationMetric \<Rightarrow> durationMetric" where
  "observe_duration d h =
     \<lparr>dm_count = dm_count h + 1, dm_sum = dm_sum h + d,
      dm_buckets = map (\<lambda>(b, bound). if d \<le> bound then b + 1 else b) (zip (dm_buckets h) durationBuckets)\<rparr>"

text \<open>\<^verbatim>\<open>record\<close>; the current time is an argument.\<close>

definition record_metric ::
  "time \<Rightarrow> string \<Rightarrow> string \<Rightarrow> string \<Rightarrow> string \<Rightarrow> int \<Rightarrow> metricsRegistry \<Rightarrow> metricsRegistry" where
  "record_metric now node0 outcome0 stage0 reason0 duration m =
     (let node = nodeLocked m node0;
          outcome = bounded outcome0 outcomes ''failure'';
          stage = bounded stage0 stages ''start'';
          reason = bounded reason0 reasons ''internal'';
          labels = \<lparr>ml_node = node, ml_outcome = outcome, ml_stage = stage, ml_reason = reason\<rparr>;
          key = \<lparr>dl_node = node, dl_outcome = outcome\<rparr>;
          secs = max 0 duration;
          level = (if outcome = ''failure'' then ''warn'' else ''info'')
      in m\<lparr>mr_totals := gm_put labels (gm_get_or 0 (mr_totals m) labels + 1) (mr_totals m),
           mr_durations := gm_put key (observe_duration secs (gm_get_or zero_duration (mr_durations m) key))
                             (mr_durations m),
           mr_last_success :=
             (if outcome = ''success'' \<and> (mr_component m \<noteq> ''responder'' \<or> reason = ''proof_served'')
              then gm_put node now (mr_last_success m) else mr_last_success m),
           mr_events := mr_events m @
             [\<lparr>ev_time = now, ev_level = level, ev_component = mr_component m, ev_node = node,
               ev_outcome = outcome, ev_stage = stage, ev_reason = reason, ev_duration = secs\<rparr>]\<rparr>)"

section \<open>The listener\<close>

definition validateMetricsAddress :: "string \<Rightarrow> unit result" where
  "validateMetricsAddress address =
     (if address = [] then Ok ()
      else case split_host_port address of
        None \<Rightarrow> Fail ''invalid metrics address''
      | Some (host, port) \<Rightarrow>
          (case parse_addr host of
             None \<Rightarrow> Fail ''metrics address must use a literal loopback IP''
           | Some ip \<Rightarrow>
               if \<not> addr_is_loopback ip \<or> addr_zone ip \<noteq> [] \<or> addr_is4in6 ip
               then Fail ''metrics address must use a literal loopback IP''
               else case atoi port of
                 None \<Rightarrow> Fail ''invalid metrics port''
               | Some number \<Rightarrow>
                   if number < 0 \<or> number > 65535 then Fail ''invalid metrics port'' else Ok ()))"

text \<open>
  The listener and its server are created and closed together: one handle stands for both, and
  \<^const>\<open>None\<close> for the nil pointers. The operations also return the handles they close.
\<close>

record metricsListener =
  lst_address :: string
  lst_handle :: "nat option"

definition listener_close ::
  "unit result \<Rightarrow> metricsListener \<Rightarrow> unit result \<times> metricsListener \<times> nat list" where
  "listener_close close_res m =
     (case lst_handle m of
        None \<Rightarrow> (Ok (), m, [])
      | Some h \<Rightarrow> (close_res, m\<lparr>lst_address := [], lst_handle := None\<rparr>, [h]))"

definition listener_configure ::
  "nat result \<Rightarrow> unit result \<Rightarrow> string \<Rightarrow> metricsListener \<Rightarrow> unit result \<times> metricsListener \<times> nat list" where
  "listener_configure listen close_res address m =
     (case validateMetricsAddress address of
        Inl e \<Rightarrow> (Inl e, m, [])
      | Inr _ \<Rightarrow>
          if address = lst_address m then (Ok (), m, [])
          else if address = [] then listener_close close_res m
          else case listen of
            Inl _ \<Rightarrow> (Fail ''cannot listen on metrics address'', m, [])
          | Inr h \<Rightarrow>
              (let (_, m', closed) = listener_close close_res m
               in (Ok (), m'\<lparr>lst_address := address, lst_handle := Some h\<rparr>, closed)))"

section \<open>Errors\<close>

text \<open>\<^verbatim>\<open>errors.As\<close> for the wrapper, and \<^verbatim>\<open>errors.Is\<close> for an error without parts.\<close>

fun as_observed :: "go_error \<Rightarrow> (string \<times> string) option" where
  "as_observed (ErrObserved e stage reason) = Some (stage, reason)"
| "as_observed (ErrWrap msg e) = as_observed e"
| "as_observed _ = None"

fun error_is :: "go_error \<Rightarrow> go_error \<Rightarrow> bool" where
  "error_is (ErrObserved e s r) target = (ErrObserved e s r = target \<or> error_is e target)"
| "error_is (ErrWrap msg e) target = (ErrWrap msg e = target \<or> error_is e target)"
| "error_is e target = (e = target)"

text \<open>\<^verbatim>\<open>status.Code\<close> of the gRPC library is the argument \<open>code_of\<close>.\<close>

definition classifyError ::
  "(go_error \<Rightarrow> grpc_code) \<Rightarrow> go_error option \<Rightarrow> go_error \<Rightarrow> string \<Rightarrow> string \<Rightarrow> string \<times> string" where
  "classifyError code_of ctx_err err stage0 reason0 =
     (let (stage, reason) = (case as_observed err of Some sr \<Rightarrow> sr | None \<Rightarrow> (stage0, reason0));
          ctx_is = (\<lambda>t. case ctx_err of None \<Rightarrow> False | Some e \<Rightarrow> error_is e t) in
      if error_is err ErrCanceled \<or> ctx_is ErrCanceled \<or> code_of err = CodeCanceled
      then (stage, ''canceled'')
      else if error_is err ErrDeadline \<or> ctx_is ErrDeadline \<or> code_of err = CodeDeadlineExceeded
      then (stage, ''deadline'')
      else (stage, reason))"

text \<open>\<^verbatim>\<open>observeError\<close>, the deferred call that wraps an error with where it arose.\<close>

definition observeError :: "'a result \<Rightarrow> string \<Rightarrow> string \<Rightarrow> 'a result" where
  "observeError r stage reason = (case r of Inl e \<Rightarrow> Inl (ErrObserved e stage reason) | Inr x \<Rightarrow> Inr x)"

section \<open>Counters agree with the event log\<close>

text \<open>The calls that change a registry, and a run of them.\<close>

datatype metric_op =
    MRegister "string list" | MPending string int | MProof string
  | MRecord time string string string string int

fun metric_step :: "metricsRegistry \<Rightarrow> metric_op \<Rightarrow> metricsRegistry" where
  "metric_step m (MRegister nodes) = register nodes m"
| "metric_step m (MPending node delta) = pendingAdd node delta m"
| "metric_step m (MProof action) = proof_action action m"
| "metric_step m (MRecord now node outcome stage reason d) = record_metric now node outcome stage reason d m"





lemma gm_get_or_simps [simp]:
  "gm_get_or z [] k = z"
  "gm_get_or z (gm_put k v m) k' = (if k' = k then v else gm_get_or z m k')"
  by (simp_all add: gm_get_or_def)



lemma register_fields [simp]:
  "mr_totals (register ns m) = mr_totals m" "mr_durations (register ns m) = mr_durations m"
  "mr_events (register ns m) = mr_events m" "mr_component (register ns m) = mr_component m"
  by (induction ns arbitrary: m) (simp_all add: register_def register1_def Let_def)





definition ex_metrics :: metricsRegistry where
  "ex_metrics = the (newMetrics ''server'')"

definition ex_metric_ops :: "metric_op list" where
  "ex_metric_ops = [MRegister [''alpha''], MRecord 5 ''alpha'' ''success'' ''attributes'' ''attributes_sent'' (seconds 1),
     MRecord 6 ''beta'' ''failure'' ''fetch'' ''endpoint_failed'' (seconds 3)]"

lemma ex_metrics_new: "newMetrics ''server'' = Some ex_metrics"
  by (simp add: ex_metrics_def newMetrics_def)


section \<open>Label cardinality\<close>

text \<open>The nodes that a run registers, whatever nodes its other calls name, and the labels over a set of nodes.\<close>

fun registered :: "metric_op list \<Rightarrow> string list" where
  "registered [] = []"
| "registered (MRegister nodes # ops) = nodes @ registered ops"
| "registered (op # ops) = registered ops"

definition vocabulary :: "string set \<Rightarrow> metricLabels set" where
  "vocabulary N = {l. ml_node l \<in> N \<and> ml_outcome l \<in> set outcomes \<and> ml_stage l \<in> set stages \<and> ml_reason l \<in> set reasons}"

definition metrics_ok :: "string set \<Rightarrow> metricsRegistry \<Rightarrow> bool" where
  "metrics_ok N m =
     (gm_ok (mr_totals m) \<and> fst ` set (mr_nodes m) = N \<and> ''unknown'' \<in> N \<and> fst ` set (mr_totals m) \<subseteq> vocabulary N \<and>
      fst ` set (mr_durations m) \<subseteq> {k. dl_node k \<in> N \<and> dl_outcome k \<in> set outcomes} \<and>
      fst ` set (mr_last_success m) \<subseteq> N \<and> fst ` set (mr_pending m) \<subseteq> N)"

lemma keys_put [simp]: "fst ` set (gm_put k v m) = insert k (fst ` set m)"
  unfolding gm_put_def using dom_update [of k v m] by (simp add: dom_map_of_conv_image_fst)

lemma gm_get_keys: "gm_get m k \<noteq> None \<longleftrightarrow> k \<in> fst ` set m"
  by (simp add: gm_get_def map_of_eq_None_iff)

lemma nodeLocked_known: "metrics_ok N m \<Longrightarrow> nodeLocked m n \<in> N"
  unfolding metrics_ok_def nodeLocked_def gm_get_or_def
  using gm_get_keys [of "mr_nodes m" n] by (auto split: option.splits)

lemma bounded_mem: "fallback \<in> set allowed \<Longrightarrow> bounded v allowed fallback \<in> set allowed"
  by (simp add: bounded_def)

lemma metrics_ok_register1: "metrics_ok N m \<Longrightarrow> metrics_ok (insert n N) (register1 m n)"
  by (auto simp: metrics_ok_def register1_def vocabulary_def Let_def)

lemma metrics_ok_register: "metrics_ok N m \<Longrightarrow> metrics_ok (N \<union> set ns) (register ns m)"
proof (induction ns arbitrary: N m)
  case (Cons n ns)
  from Cons.IH [OF metrics_ok_register1 [OF Cons.prems, of n]] show ?case by (simp add: register_def)
qed (simp add: register_def)

lemma metrics_ok_record:
  assumes "metrics_ok N m" shows "metrics_ok N (record_metric now n out st re d m)"
proof -
  have "bounded out outcomes ''failure'' \<in> set outcomes" "bounded st stages ''start'' \<in> set stages"
    "bounded re reasons ''internal'' \<in> set reasons"
    by (simp_all add: bounded_def outcomes_def stages_def reasons_def)
  with assms nodeLocked_known [OF assms, of n] show ?thesis
    by (auto simp: metrics_ok_def record_metric_def Let_def vocabulary_def)
qed

lemma metrics_ok_run: "metrics_ok N m \<Longrightarrow> metrics_ok (N \<union> set (registered ops)) (foldl metric_step m ops)"
proof (induction ops arbitrary: N m)
  case (Cons op ops)
  show ?case
  proof (cases op)
    case (MRegister nodes)
    with Cons.IH [OF metrics_ok_register [OF Cons.prems, of nodes]] show ?thesis by (simp add: Un_assoc)
  next
    case (MPending node delta)
    have "metrics_ok N (pendingAdd node delta m)"
      using Cons.prems nodeLocked_known [OF Cons.prems, of node] by (simp add: metrics_ok_def pendingAdd_def Let_def)
    from Cons.IH [OF this] MPending show ?thesis by simp
  next
    case (MProof action)
    have "metrics_ok N (proof_action action m)" using Cons.prems by (simp add: metrics_ok_def proof_action_def)
    from Cons.IH [OF this] MProof show ?thesis by simp
  next
    case (MRecord now node outcome stage reason d)
    with Cons.IH [OF metrics_ok_record [OF Cons.prems]] show ?thesis by simp
  qed
qed simp

lemma metrics_ok_new: "newMetrics component = Some m \<Longrightarrow> metrics_ok {''unknown''} m"
  by (auto simp: newMetrics_def metrics_ok_def gm_put_def split: if_splits)

lemma vocabulary_card: "finite N \<Longrightarrow> finite (vocabulary N) \<and> card (vocabulary N) \<le> card N * 990"
proof -
  assume fin: "finite N"
  let ?S = "N \<times> set outcomes \<times> set stages \<times> set reasons"
  let ?f = "\<lambda>(n, out, s, r). \<lparr>ml_node = n, ml_outcome = out, ml_stage = s, ml_reason = r\<rparr>"
  have v: "vocabulary N = ?f ` ?S"
  proof (intro set_eqI iffI)
    fix l assume "l \<in> vocabulary N"
    then show "l \<in> ?f ` ?S"
      by (intro image_eqI [of _ _ "(ml_node l, ml_outcome l, ml_stage l, ml_reason l)"])
        (auto simp: vocabulary_def)
  qed (force simp: vocabulary_def)
  have "card (?f ` ?S) \<le> card ?S" by (rule card_image_le) (simp add: fin)
  also have "card ?S = card N * (card (set outcomes) * (card (set stages) * card (set reasons)))"
    by (simp add: card_cartesian_product)
  also have "\<dots> \<le> card N * (3 * (11 * 30))"
  proof (intro mult_le_mono order_refl)
    show "card (set outcomes) \<le> 3" using card_length [of outcomes] by (simp add: outcomes_def)
    show "card (set stages) \<le> 11" using card_length [of stages] by (simp add: stages_def)
    show "card (set reasons) \<le> 30" using card_length [of reasons] by (simp add: reasons_def)
  qed
  finally show ?thesis by (simp add: v fin)
qed

text \<open>C32. Only registration adds node labels: through any sequence of registry calls, whatever nodes, outcomes,
  stages and reasons the recording calls are given, every label of a counter, a histogram, a gauge or a time of last
  success names ``unknown'' or a node that was registered, and the rest is of the fixed vocabulary. So there are at most 990 series
  of the operation counter per registered node and for ``unknown''.\<close>

theorem metrics_cardinality:
  assumes "newMetrics component = Some m0" and m: "m = foldl metric_step m0 ops" and N: "N = insert ''unknown'' (set (registered ops))"
  shows "fst ` set (mr_totals m) \<subseteq> vocabulary N \<and> gm_len (mr_totals m) \<le> card N * 990 \<and>
    fst ` set (mr_durations m) \<subseteq> {k. dl_node k \<in> N \<and> dl_outcome k \<in> set outcomes} \<and>
    fst ` set (mr_pending m) \<subseteq> N \<and> fst ` set (mr_last_success m) \<subseteq> N"
proof -
  have ok: "metrics_ok N m" using metrics_ok_run [OF metrics_ok_new [OF assms(1)], of ops] m N by simp
  then have s: "fst ` set (mr_totals m) \<subseteq> vocabulary N" by (simp add: metrics_ok_def)
  have "gm_len (mr_totals m) = card (fst ` set (mr_totals m))"
    using ok distinct_card [of "map fst (mr_totals m)"] by (simp add: metrics_ok_def gm_ok_def gm_len_length)
  also have "\<dots> \<le> card N * 990"
    using card_mono [OF _ s] vocabulary_card [of N] N by simp
  finally show ?thesis using s ok by (simp add: metrics_ok_def)
qed

theorem metrics_cardinality_witness:
  "gm_len (mr_totals (foldl metric_step ex_metrics ex_metric_ops)) \<le> 1980 \<and>
    ml_node ` fst ` set (mr_totals (foldl metric_step ex_metrics ex_metric_ops)) \<subseteq> {''alpha'', ''unknown''}"
proof -
  have N: "insert ''unknown'' (set (registered ex_metric_ops)) = {''alpha'', ''unknown''}" by (auto simp: ex_metric_ops_def)
  from metrics_cardinality [OF ex_metrics_new refl refl, of ex_metric_ops] show ?thesis
    unfolding N by (auto simp: vocabulary_def)
qed

section \<open>The pending gauge\<close>

definition pending_of :: "metricsRegistry \<Rightarrow> string \<Rightarrow> int" where
  "pending_of r name = gm_get_or 0 (mr_pending r) name"

lemma pendingAdd_known:
  "gm_get_or False (mr_nodes r) name \<Longrightarrow>
    mr_nodes (pendingAdd name d r) = mr_nodes r \<and>
    pending_of (pendingAdd name d r) n = pending_of r n + (if n = name then d else 0)"
  by (simp add: pendingAdd_def nodeLocked_def pending_of_def Let_def)

lemma gauge_frames [simp]:
  "mr_nodes (proof_action action m) = mr_nodes m" "pending_of (proof_action action m) = pending_of m"
  "mr_nodes (record_metric now n out st re d m) = mr_nodes m"
  "pending_of (record_metric now n out st re d m) = pending_of m"
  by (simp_all add: proof_action_def record_metric_def pending_of_def Let_def fun_eq_iff)

section \<open>The listener stays on loopback\<close>

definition listener_ok :: "metricsListener \<Rightarrow> bool" where
  "listener_ok m = ((lst_handle m = None) = (lst_address m = []))"

definition loopback_literal :: "string \<Rightarrow> bool" where
  "loopback_literal address =
     (\<exists>host port ip. split_host_port address = Some (host, port) \<and> parse_addr host = Some ip \<and>
        ((\<exists>w. ip = Addr4 w \<and> drop_bit 24 w = 127) \<or> ip = Addr6 1 []) \<and>
        (\<exists>n. atoi port = Some n \<and> 0 \<le> n \<and> n \<le> 65535))"

lemma loopback_cases:
  "addr_is_loopback ip \<and> addr_zone ip = [] \<and> \<not> addr_is4in6 ip \<longleftrightarrow>
    (\<exists>w. ip = Addr4 w \<and> drop_bit 24 w = 127) \<or> ip = Addr6 1 []"
proof (cases ip)
  case (Addr6 w z)
  have "drop_bit 32 (1 :: 128 word) = 0" by simp
  with Addr6 show ?thesis
    by (auto simp: addr_is_loopback_def addr_unmap_def addr_zone_def addr_is4in6_def)
qed (auto simp: addr_is_loopback_def addr_unmap_def addr_zone_def addr_is4in6_def)

lemma validateMetricsAddress_iff:
  "validateMetricsAddress address = Ok u \<longleftrightarrow> address = [] \<or> loopback_literal address"
proof -
  have "validateMetricsAddress address = Ok u \<longleftrightarrow> address = [] \<or>
    (\<exists>host port ip n. split_host_port address = Some (host, port) \<and> parse_addr host = Some ip \<and>
      (addr_is_loopback ip \<and> addr_zone ip = [] \<and> \<not> addr_is4in6 ip) \<and>
      atoi port = Some n \<and> 0 \<le> n \<and> n \<le> 65535)"
    by (auto simp: validateMetricsAddress_def split: option.splits if_splits)
  also have "\<dots> \<longleftrightarrow> address = [] \<or> loopback_literal address"
    unfolding loopback_cases loopback_literal_def by blast
  finally show ?thesis .
qed

lemma listener_close_ok:
  "listener_ok m \<Longrightarrow> listener_close cr m = (r, m', closed) \<Longrightarrow>
    lst_address m' = [] \<and> lst_handle m' = None \<and> closed = (case lst_handle m of None \<Rightarrow> [] | Some h \<Rightarrow> [h])"
  by (auto simp: listener_close_def listener_ok_def split: option.splits)

text \<open>Reconfiguring the metrics listener: what it ends up serving is a literal loopback address,
  or nothing; an error other than that of closing leaves the previous listener in place and closes
  nothing; and a listener is closed exactly when it is given up.\<close>

theorem listener_configure_ok:
  assumes "listener_ok m" and "lst_address m = [] \<or> loopback_literal (lst_address m)"
    and "listener_configure listen close_res address m = (r, m', closed)"
  shows "listener_ok m' \<and> (lst_address m' = [] \<or> loopback_literal (lst_address m')) \<and>
    (is_ok r \<longrightarrow> lst_address m' = address) \<and>
    (\<not> is_ok r \<longrightarrow> address = [] \<or> m' = m \<and> closed = []) \<and>
    closed = (if lst_address m' = lst_address m then [] else case lst_handle m of None \<Rightarrow> [] | Some h \<Rightarrow> [h])"
proof (cases "validateMetricsAddress address")
  case (Inl e)
  with assms(3) have "r = Inl e" "m' = m" "closed = []" by (simp_all add: listener_configure_def)
  with assms show ?thesis by simp
next
  case (Inr u)
  then have a: "address = [] \<or> loopback_literal address" by (simp add: validateMetricsAddress_iff)
  obtain r1 m1 c1 where c: "listener_close close_res m = (r1, m1, c1)" by (cases "listener_close close_res m") auto
  note cl = listener_close_ok [OF assms(1) c]
  from assms(3) Inr c have
    "address = lst_address m \<and> r = Ok () \<and> m' = m \<and> closed = [] \<or>
     address \<noteq> lst_address m \<and> address = [] \<and> m' = m1 \<and> closed = c1 \<or>
     address \<noteq> lst_address m \<and> address \<noteq> [] \<and> \<not> is_ok r \<and> m' = m \<and> closed = [] \<or>
     (\<exists>h. address \<noteq> lst_address m \<and> address \<noteq> [] \<and> r = Ok () \<and>
        m' = m1\<lparr>lst_address := address, lst_handle := Some h\<rparr> \<and> closed = c1)"
    by (auto simp: listener_configure_def split: if_splits sum.splits)
  then show ?thesis
    using assms(1,2) cl a by (elim disjE exE conjE) (auto simp: listener_ok_def)
qed

lemma ex_listener:
  "listener_configure (Ok 7) (Ok ()) ''127.0.0.1:9090'' \<lparr>lst_address = ''[::1]:9'', lst_handle = Some 3\<rparr>
     = (Ok (), \<lparr>lst_address = ''127.0.0.1:9090'', lst_handle = Some 7\<rparr>, [3])"
  by code_simp

lemma ex_loopback: "loopback_literal ''[::1]:9''"
proof -
  have "validateMetricsAddress ''[::1]:9'' = Ok ()" by code_simp
  then show ?thesis by (simp add: validateMetricsAddress_iff)
qed

theorem listener_configure_ok_witness:
  "loopback_literal ''127.0.0.1:9090'' \<and>
   snd (snd (listener_configure (Ok 7) (Ok ()) ''127.0.0.1:9090'' \<lparr>lst_address = ''[::1]:9'', lst_handle = Some 3\<rparr>)) = [3]"
  using listener_configure_ok [OF _ _ ex_listener] ex_loopback by (simp add: listener_ok_def ex_listener)

section \<open>Classification of errors\<close>

text \<open>
  What the gRPC library documents of \<^verbatim>\<open>status.Code\<close>: the code of a status error, also when it is
  wrapped, and \<^verbatim>\<open>Unknown\<close> for any other error; and an instance.
\<close>

fun grpc_status_code :: "go_error \<Rightarrow> grpc_code" where
  "grpc_status_code (ErrStatus c msg) = c"
| "grpc_status_code (ErrObserved e s r) = grpc_status_code e"
| "grpc_status_code (ErrWrap msg e) = grpc_status_code e"
| "grpc_status_code e = CodeUnknown"

definition in_vocabulary :: "string \<times> string \<Rightarrow> bool" where
  "in_vocabulary sr = (fst sr \<in> set stages \<and> snd sr \<in> set reasons)"

lemma classifyError_vocabulary:
  assumes "in_vocabulary (s, r)" and "\<And>sr. as_observed err = Some sr \<Longrightarrow> in_vocabulary sr"
  shows "in_vocabulary (classifyError code_of ctx err s r)"
proof -
  have "''canceled'' \<in> set reasons" "''deadline'' \<in> set reasons" by (simp_all add: reasons_def)
  with assms show ?thesis
    by (auto simp: classifyError_def in_vocabulary_def Let_def split: option.splits)
qed

end
