(* ===== verification/Attest_Responder.thy ===== *)
theory Attest_Responder
  imports Attest_Metrics
begin

text \<open>
  \<^verbatim>\<open>realm-node-attest/responder_linux.go\<close>: the service on a node that holds signed proofs and
  serves them to the attestation server. The handlers are functions of the request and the
  responder's state; clocks, the outcome of writing a reply, and the system calls behind sockets
  are arguments. A clock is a function of how often it was read.
\<close>

section \<open>State\<close>

record ResponderConfig =
  rc_fqdn :: string
  rc_port :: int
  rc_control_socket :: string
  rc_metrics_address :: string

record storedProof =
  sp_body :: string
  sp_expires :: int

record responder =
  rs_config :: ResponderConfig
  rs_proofs :: "(string, storedProof) gmap"
  rs_metrics :: metricsRegistry

definition newResponder :: "ResponderConfig \<Rightarrow> responder result" where
  "newResponder config =
     (case validateMetricsAddress (rc_metrics_address config) of
        Inl e \<Rightarrow> Inl e
      | Inr _ \<Rightarrow>
          if \<not> validFQDN (rc_fqdn config) \<or> rc_port config < 1 \<or> rc_port config > 65535 \<or>
             \<not> path_is_abs (rc_control_socket config)
          then Fail ''invalid responder configuration''
          else case newMetrics ''responder'' of
            None \<Rightarrow> Fail ''invalid metrics component''
          | Some m \<Rightarrow>
              Ok \<lparr>rs_config = config, rs_proofs = [],
                  rs_metrics = (register [rc_fqdn config] m)\<lparr>mr_capacity := 4\<rparr>\<rparr>)"

definition proofID :: "string \<Rightarrow> string \<Rightarrow> string \<times> bool" where
  "proofID path prefix =
     (if \<not> has_prefix prefix path then ([], False)
      else let pid = trim_prefix prefix path in (pid, validRandom pid))"

section \<open>Expiry\<close>

fun expire_entries :: "(nat \<Rightarrow> time) \<Rightarrow> nat \<Rightarrow> (string \<times> storedProof) list \<Rightarrow> responder \<Rightarrow> responder" where
  "expire_entries clock i [] r = r"
| "expire_entries clock i ((pid, proof) # rest) r =
     expire_entries clock (Suc i) rest
       (if sp_expires proof \<le> unix_of (clock i)
        then r\<lparr>rs_proofs := gm_del pid (rs_proofs r),
               rs_metrics := proof_action ''expired'' (pendingAdd (rc_fqdn (rs_config r)) (- 1) (rs_metrics r))\<rparr>
        else r)"

definition expireLocked :: "(nat \<Rightarrow> time) \<Rightarrow> responder \<Rightarrow> responder" where
  "expireLocked clock r = expire_entries clock 0 (rs_proofs r) r"

definition cleanup :: "(nat \<Rightarrow> time) \<Rightarrow> responder \<Rightarrow> responder" where
  "cleanup clock r = expireLocked clock r"

section \<open>Requests and replies\<close>

record http_request =
  hq_method :: string
  hq_host :: string
  hq_path :: string
  hq_escaped_path :: string
  hq_raw_query :: string
  hq_content_length :: int
  hq_transfer_encoding :: "string list"
  hq_body :: string
  hq_body_broken :: bool
  hq_root_peer :: bool

record http_answer =
  ha_status :: int
  ha_headers :: "(string, string) gmap"
  ha_body :: string

text \<open>\<^verbatim>\<open>http.Error\<close> on the headers set so far, and \<^verbatim>\<open>http.NotFound\<close>.\<close>

definition http_error :: "(string, string) gmap \<Rightarrow> string \<Rightarrow> int \<Rightarrow> http_answer" where
  "http_error headers msg status =
     \<lparr>ha_status = status,
      ha_headers = gm_put ''X-Content-Type-Options'' ''nosniff''
        (gm_put ''Content-Type'' ''text/plain; charset=utf-8'' (gm_del ''Content-Length'' headers)),
      ha_body = msg @ [CHR 0x0A]\<rparr>"

definition not_found :: "(string, string) gmap \<Rightarrow> http_answer" where
  "not_found headers = http_error headers ''404 page not found'' 404"

text \<open>When and how long: what the deferred call that records the request reads.\<close>

record timing =
  tm_end :: time
  tm_duration :: int

definition record_request :: "timing \<Rightarrow> string \<Rightarrow> string \<Rightarrow> string \<Rightarrow> responder \<Rightarrow> responder" where
  "record_request tm outcome stage reason r =
     r\<lparr>rs_metrics := record_metric (tm_end tm) (rc_fqdn (rs_config r)) outcome stage reason (tm_duration tm) (rs_metrics r)\<rparr>"

text \<open>\<open>written\<close> is how many bytes of the proof the connection took, and whether it failed.\<close>

definition public ::
  "(nat \<Rightarrow> time) \<Rightarrow> nat \<times> bool \<Rightarrow> timing \<Rightarrow> http_request \<Rightarrow> responder \<Rightarrow> http_answer \<times> responder" where
  "public clock written tm request r =
     (let h = gm_put ''Cache-Control'' ''no-store'' [];
          fail = (\<lambda>ans reason r'. (ans, record_request tm ''failure'' ''public'' reason r')) in
      if hq_method request \<noteq> ''GET''
      then fail (http_error (gm_put ''Allow'' ''GET'' h) ''method not allowed'' 405) ''method'' r
      else if hq_host request \<noteq> join_host_port (rc_fqdn (rs_config r)) (itoa (rc_port (rs_config r))) \<or>
              hq_raw_query request \<noteq> [] \<or> hq_escaped_path request \<noteq> hq_path request \<or>
              hq_content_length request > 0 \<or> hq_transfer_encoding request \<noteq> []
      then fail (not_found h) ''invalid_request'' r
      else case proofID (hq_path request) PathPrefix of
        (pid, valid) \<Rightarrow>
          if \<not> valid then fail (not_found h) ''invalid_request'' r
          else let r' = expireLocked clock r in
            case gm_get (rs_proofs r') pid of
              None \<Rightarrow> fail (not_found h) ''not_found'' r'
            | Some proof \<Rightarrow>
                let ans = \<lparr>ha_status = 200,
                           ha_headers = gm_put ''X-Content-Type-Options'' ''nosniff''
                                          (gm_put ''Content-Type'' ''application/json'' h),
                           ha_body = take (fst written) (sp_body proof)\<rparr> in
                if snd written \<or> fst written \<noteq> length (sp_body proof) then fail ans ''write_failed'' r'
                else (ans, record_request tm ''success'' ''public'' ''proof_served'' r'))"

text \<open>\<^verbatim>\<open>io.ReadAll\<close> of a body under \<^verbatim>\<open>http.MaxBytesReader\<close>.\<close>

definition read_max :: "nat \<Rightarrow> http_request \<Rightarrow> string result" where
  "read_max n request =
     (if length (hq_body request) > n then Inl (ErrLib ''http: request body too large'')
      else if hq_body_broken request then Inl (ErrLib ''read'')
      else Ok (hq_body request))"

definition control_put ::
  "('sg, 'ob, 'z) jose_lib_scheme \<Rightarrow> (nat \<Rightarrow> time) \<Rightarrow> time \<Rightarrow> timing \<Rightarrow> string \<Rightarrow> http_request \<Rightarrow> responder \<Rightarrow>
    http_answer \<times> responder" where
  "control_put J clock now tm pid request r =
     (let fail = (\<lambda>msg status reason r'. (http_error [] msg status, record_request tm ''failure'' ''control'' reason r')) in
      case read_max MaxDocumentSize request of
        Inl e \<Rightarrow> fail ''invalid proof size'' 400 ''invalid_size'' r
      | Inr body \<Rightarrow>
          (case parseProof J body (rc_fqdn (rs_config r)) now of
             Inl e \<Rightarrow> fail ''invalid proof'' 400 ''invalid_proof'' r
           | Inr c \<Rightarrow>
               if ch_id c \<noteq> pid then fail ''invalid proof'' 400 ''invalid_proof'' r
               else
                 let r1 = expireLocked clock r;
                     present = gm_get (rs_proofs r1) pid \<noteq> None in
                 if \<not> present \<and> gm_len (rs_proofs r1) \<ge> 4
                 then fail ''proof capacity reached'' 429 ''capacity'' r1
                 else
                   let m = (if present then rs_metrics r1
                            else pendingAdd (rc_fqdn (rs_config r1)) 1 (rs_metrics r1));
                       r2 = r1\<lparr>rs_proofs := gm_put pid \<lparr>sp_body = body, sp_expires = ch_expires c\<rparr> (rs_proofs r1),
                               rs_metrics := proof_action ''published'' m\<rparr>
                   in (\<lparr>ha_status = 201, ha_headers = [], ha_body = []\<rparr>,
                       record_request tm ''success'' ''control'' ''proof_published'' r2)))"

definition control_delete :: "timing \<Rightarrow> string \<Rightarrow> responder \<Rightarrow> http_answer \<times> responder" where
  "control_delete tm pid r =
     (let r' = (if gm_get (rs_proofs r) pid \<noteq> None
                then r\<lparr>rs_proofs := gm_del pid (rs_proofs r),
                       rs_metrics := proof_action ''deleted'' (pendingAdd (rc_fqdn (rs_config r)) (- 1) (rs_metrics r))\<rparr>
                else r)
      in (\<lparr>ha_status = 204, ha_headers = [], ha_body = []\<rparr>,
          record_request tm ''success'' ''control'' ''proof_deleted'' r'))"

definition control ::
  "('sg, 'ob, 'z) jose_lib_scheme \<Rightarrow> (nat \<Rightarrow> time) \<Rightarrow> time \<Rightarrow> timing \<Rightarrow> http_request \<Rightarrow> responder \<Rightarrow> http_answer \<times> responder" where
  "control J clock now tm request r =
     (let fail = (\<lambda>ans reason. (ans, record_request tm ''failure'' ''control'' reason r)) in
      if \<not> hq_root_peer request then fail (http_error [] ''root peer required'' 403) ''peer_denied''
      else if hq_raw_query request \<noteq> [] \<or> hq_escaped_path request \<noteq> hq_path request
      then fail (not_found []) ''invalid_request''
      else case proofID (hq_path request) ''/v1/proofs/'' of
        (pid, valid) \<Rightarrow>
          if \<not> valid then fail (not_found []) ''invalid_request''
          else if hq_method request = ''PUT'' then control_put J clock now tm pid request r
          else if hq_method request = ''DELETE'' then control_delete tm pid r
          else fail (http_error (gm_put ''Allow'' ''PUT, DELETE'' []) ''method not allowed'' 405) ''method'')"

section \<open>Peers\<close>

text \<open>
  A Unix connection: whether \<^verbatim>\<open>SyscallConn\<close> and \<^verbatim>\<open>Control\<close> succeed, and the user of the peer's
  credentials, when reading them succeeds and gives any.
\<close>

datatype raw_conn = UnixConn bool bool "nat option result" | OtherConn

datatype conn = PlainConn raw_conn | LimitedConn raw_conn

definition rootPeer :: "conn \<Rightarrow> bool" where
  "rootPeer connection =
     (case (case connection of LimitedConn c \<Rightarrow> c | PlainConn c \<Rightarrow> c) of
        OtherConn \<Rightarrow> False
      | UnixConn syscall_ok control_ok credentials \<Rightarrow>
          if \<not> syscall_ok then False
          else if \<not> control_ok then False
          else (case credentials of Inl _ \<Rightarrow> False | Inr None \<Rightarrow> False | Inr (Some uid) \<Rightarrow> uid = 0))"

section \<open>Expiry removes exactly what has expired\<close>

lemma expire_entries_config [simp]: "rs_config (expire_entries clock i es r) = rs_config r"
  by (induction clock i es r rule: expire_entries.induct) simp_all

lemma expireLocked_config [simp]: "rs_config (expireLocked clock r) = rs_config r"
  by (simp add: expireLocked_def)

lemma expire_entries_ok: "gm_ok (rs_proofs r) \<Longrightarrow> gm_ok (rs_proofs (expire_entries clock i es r))"
  by (induction clock i es r rule: expire_entries.induct) simp_all

lemma expire_entries_other:
  "pid \<notin> fst ` set es \<Longrightarrow> gm_get (rs_proofs (expire_entries clock i es r)) pid = gm_get (rs_proofs r) pid"
  by (induction clock i es r rule: expire_entries.induct) auto

text \<open>The \<open>k\<close>-th entry is judged by the \<open>k\<close>-th reading of the clock.\<close>

lemma expire_entries_get:
  "distinct (map fst es) \<Longrightarrow> k < length es \<Longrightarrow> es ! k = (pid, pf) \<Longrightarrow>
    gm_get (rs_proofs (expire_entries clock i es r)) pid =
      (if sp_expires pf \<le> unix_of (clock (i + k)) then None else gm_get (rs_proofs r) pid)"
proof (induction clock i es r arbitrary: k rule: expire_entries.induct)
  case (2 clock i pid' pf' rest r)
  show ?case
  proof (cases k)
    case 0
    with "2.prems" have "pid' = pid" "pf' = pf" "pid \<notin> fst ` set rest" by auto
    with 0 show ?thesis by (simp add: expire_entries_other)
  next
    case (Suc j)
    with "2.prems" have "pid \<noteq> pid'" by (auto simp: in_set_conv_nth image_iff) (metis fst_conv nth_mem)
    with Suc "2.prems" "2.IH" [of j] show ?thesis by simp
  qed
qed simp

lemma expireLocked_get:
  assumes "gm_ok (rs_proofs r)" "gm_get (rs_proofs r) pid = Some pf"
  shows "\<exists>k. gm_get (rs_proofs (expireLocked clock r)) pid =
    (if sp_expires pf \<le> unix_of (clock k) then None else Some pf)"
proof -
  from gm_get_mem [OF assms(2)] obtain k where "k < length (rs_proofs r)" "rs_proofs r ! k = (pid, pf)"
    by (auto simp: in_set_conv_nth)
  with expire_entries_get [of "rs_proofs r" k pid pf clock 0 r] assms show ?thesis
    by (auto simp: expireLocked_def gm_ok_def)
qed

lemma expireLocked_none: "gm_get (rs_proofs r) pid = None \<Longrightarrow> gm_get (rs_proofs (expireLocked clock r)) pid = None"
proof -
  assume n: "gm_get (rs_proofs r) pid = None"
  then have "pid \<notin> fst ` set (rs_proofs r)" by (simp add: gm_get_def map_of_eq_None_iff)
  then show ?thesis using n by (simp add: expireLocked_def expire_entries_other)
qed

lemma expireLocked_old:
  assumes "gm_ok (rs_proofs r)" "gm_get (rs_proofs (expireLocked clock r)) pid = Some pf"
  shows "gm_get (rs_proofs r) pid = Some pf \<and> (\<exists>k. unix_of (clock k) < sp_expires pf)"
proof (cases "gm_get (rs_proofs r) pid")
  case None
  with assms expireLocked_none [of r pid clock] show ?thesis by simp
next
  case (Some p)
  with expireLocked_get [OF assms(1) Some, of clock] assms(2) show ?thesis
    by (auto split: if_splits simp: not_le)
qed

section \<open>The invariant\<close>

definition rs_known :: "responder \<Rightarrow> bool" where
  "rs_known r = gm_get_or False (mr_nodes (rs_metrics r)) (rc_fqdn (rs_config r))"

definition rs_gauge :: "responder \<Rightarrow> bool" where
  "rs_gauge r = (pending_of (rs_metrics r) (rc_fqdn (rs_config r)) = int (gm_len (rs_proofs r)))"

lemma expire_entries_gauge:
  "gm_ok (rs_proofs r) \<Longrightarrow> distinct (map fst es) \<Longrightarrow> (\<And>pid p. (pid, p) \<in> set es \<Longrightarrow> gm_get (rs_proofs r) pid = Some p) \<Longrightarrow>
    rs_known r \<Longrightarrow> rs_gauge r \<Longrightarrow>
    rs_known (expire_entries clock i es r) \<and> rs_gauge (expire_entries clock i es r) \<and>
    gm_len (rs_proofs (expire_entries clock i es r)) \<le> gm_len (rs_proofs r)"
proof (induction clock i es r rule: expire_entries.induct)
  case (2 clock i pid pf rest r)
  show ?case
  proof (cases "sp_expires pf \<le> unix_of (clock i)")
    case False
    with 2 show ?thesis by simp
  next
    case True
    let ?m = "proof_action ''expired'' (pendingAdd (rc_fqdn (rs_config r)) (- 1) (rs_metrics r))"
    let ?r = "r\<lparr>rs_proofs := gm_del pid (rs_proofs r), rs_metrics := ?m\<rparr>"
    have "gm_get (rs_proofs r) pid = Some pf" using "2.prems"(3) [of pid pf] by simp
    then have len: "gm_len (rs_proofs r) = Suc (gm_len (gm_del pid (rs_proofs r)))"
      using gm.count_del_old [OF "2.prems"(1)] by fastforce
    have m: "mr_nodes ?m = mr_nodes (rs_metrics r)"
      "pending_of ?m (rc_fqdn (rs_config r)) = pending_of (rs_metrics r) (rc_fqdn (rs_config r)) - 1"
      using pendingAdd_known [of "rs_metrics r" "rc_fqdn (rs_config r)" "- 1"] "2.prems"(4)
      by (simp_all add: rs_known_def)
    have "rs_known ?r" "rs_gauge ?r"
      using "2.prems"(4,5) m len by (simp_all add: rs_known_def rs_gauge_def)
    moreover have "gm_get (rs_proofs ?r) pid' = Some p" if "(pid', p) \<in> set rest" for pid' p
      using that "2.prems"(2) "2.prems"(3) [of pid' p] by (auto simp: image_iff)
    ultimately show ?thesis
      using "2.IH" True "2.prems"(1,2) len by auto
  qed
qed simp

lemma expireLocked_gauge:
  assumes "gm_ok (rs_proofs r)" "rs_known r" "rs_gauge r"
  shows "gm_ok (rs_proofs (expireLocked clock r))" "rs_known (expireLocked clock r)"
    "rs_gauge (expireLocked clock r)" "gm_len (rs_proofs (expireLocked clock r)) \<le> gm_len (rs_proofs r)"
  using expire_entries_gauge [of r "rs_proofs r" clock 0] expire_entries_ok [of r clock 0 "rs_proofs r"] assms
  by (auto simp: expireLocked_def gm_ok_def gm_mem_get)

text \<open>A stored proof was accepted by \<^verbatim>\<open>parseProof\<close> for this node, under its own identifier.\<close>

definition stored_ok :: "('sg, 'ob, 'z) jose_lib_scheme \<Rightarrow> responder \<Rightarrow> bool" where
  "stored_ok J r =
     (\<forall>pid p. gm_get (rs_proofs r) pid = Some p \<longrightarrow>
        (\<exists>t c. parseProof J (sp_body p) (rc_fqdn (rs_config r)) t = Ok c \<and> ch_id c = pid \<and>
           ch_expires c = sp_expires p))"

definition rs_ok :: "('sg, 'ob, 'z) jose_lib_scheme \<Rightarrow> responder \<Rightarrow> bool" where
  "rs_ok J r = (gm_ok (rs_proofs r) \<and> gm_len (rs_proofs r) \<le> 4 \<and> rs_known r \<and> rs_gauge r \<and> stored_ok J r)"

lemma record_request_simps [simp]:
  "rs_config (record_request tm out st re r) = rs_config r"
  "rs_proofs (record_request tm out st re r) = rs_proofs r"
  "rs_known (record_request tm out st re r) = rs_known r"
  "rs_gauge (record_request tm out st re r) = rs_gauge r"
  by (simp_all add: record_request_def rs_known_def rs_gauge_def)

lemma rs_ok_record [simp]: "rs_ok J (record_request tm out st re r) = rs_ok J r"
  by (simp add: rs_ok_def stored_ok_def)

lemma rs_ok_expire: "rs_ok J r \<Longrightarrow> rs_ok J (expireLocked clock r)"
  using expireLocked_gauge [of r clock] expireLocked_old [of r clock]
  by (auto simp: rs_ok_def stored_ok_def)

definition put_proof :: "string \<Rightarrow> string \<Rightarrow> int \<Rightarrow> responder \<Rightarrow> responder" where
  "put_proof pid body expires r =
     r\<lparr>rs_proofs := gm_put pid \<lparr>sp_body = body, sp_expires = expires\<rparr> (rs_proofs r),
       rs_metrics := proof_action ''published''
         (if gm_get (rs_proofs r) pid \<noteq> None then rs_metrics r
          else pendingAdd (rc_fqdn (rs_config r)) 1 (rs_metrics r))\<rparr>"

definition delete_proof :: "string \<Rightarrow> responder \<Rightarrow> responder" where
  "delete_proof pid r =
     (if gm_get (rs_proofs r) pid \<noteq> None
      then r\<lparr>rs_proofs := gm_del pid (rs_proofs r),
             rs_metrics := proof_action ''deleted'' (pendingAdd (rc_fqdn (rs_config r)) (- 1) (rs_metrics r))\<rparr>
      else r)"

lemma rs_ok_put:
  assumes ok: "rs_ok J r" and p: "parseProof J body (rc_fqdn (rs_config r)) now = Ok c" "ch_id c = pid"
    and room: "gm_get (rs_proofs r) pid = None \<Longrightarrow> gm_len (rs_proofs r) < 4"
  shows "rs_ok J (put_proof pid body (ch_expires c) r)"
proof -
  let ?v = "\<lparr>sp_body = body, sp_expires = ch_expires c\<rparr>"
  from ok have o: "gm_ok (rs_proofs r)" "gm_len (rs_proofs r) \<le> 4" "rs_known r" "rs_gauge r" "stored_ok J r"
    by (simp_all add: rs_ok_def)
  have "gm_len (gm_put pid ?v (rs_proofs r)) \<le> 4"
    by (rule gm.guarded_put_bound [OF o(1,2)]) (use room in simp_all)
  moreover have "rs_known (put_proof pid body (ch_expires c) r)"
    using o(3) pendingAdd_known [of "rs_metrics r" "rc_fqdn (rs_config r)" 1]
    by (simp add: put_proof_def rs_known_def)
  moreover have "rs_gauge (put_proof pid body (ch_expires c) r)"
  proof (cases "gm_get (rs_proofs r) pid")
    case None
    with o(3,4) pendingAdd_known [of "rs_metrics r" "rc_fqdn (rs_config r)" 1] show ?thesis
      by (simp add: put_proof_def rs_gauge_def rs_known_def gm.count_put_new)
  next
    case (Some w)
    then have "gm_len (gm_put pid ?v (rs_proofs r)) = gm_len (rs_proofs r)"
      using gm.count_put_old [OF o(1) Some, of "\<lambda>_. True" ?v] by simp
    with Some o(4) show ?thesis by (simp add: put_proof_def rs_gauge_def)
  qed
  moreover have "stored_ok J (put_proof pid body (ch_expires c) r)"
    using o(5) p by (auto simp: stored_ok_def put_proof_def split: if_splits)
  ultimately show ?thesis using o(1) by (simp add: rs_ok_def put_proof_def)
qed

lemma rs_ok_delete:
  assumes ok: "rs_ok J r" shows "rs_ok J (delete_proof pid r)"
proof (cases "gm_get (rs_proofs r) pid")
  case None
  with ok show ?thesis by (simp add: delete_proof_def)
next
  case (Some w)
  from ok have o: "gm_ok (rs_proofs r)" "gm_len (rs_proofs r) \<le> 4" "rs_known r" "rs_gauge r" "stored_ok J r"
    by (simp_all add: rs_ok_def)
  have len: "gm_len (rs_proofs r) = Suc (gm_len (gm_del pid (rs_proofs r)))"
    using gm.count_del_old [OF o(1) Some, of "\<lambda>_. True"] by simp
  with Some o pendingAdd_known [of "rs_metrics r" "rc_fqdn (rs_config r)" "- 1"] show ?thesis
    by (auto simp: rs_ok_def delete_proof_def rs_known_def rs_gauge_def stored_ok_def)
qed

text \<open>The four ways a control request can end.\<close>

lemma control_cases:
  assumes "control J clock now tm request r = (ans, r')"
  obtains (refused) reason where "ha_status ans \<in> {400, 403, 404, 405}"
      "r' = record_request tm ''failure'' ''control'' reason r"
  | (full) "ha_status ans = 429" "r' = record_request tm ''failure'' ''control'' ''capacity'' (expireLocked clock r)"
  | (put) pid body c where "ha_status ans = 201" "hq_root_peer request" "hq_method request = ''PUT''"
      "proofID (hq_path request) ''/v1/proofs/'' = (pid, True)" "body = hq_body request"
      "parseProof J body (rc_fqdn (rs_config r)) now = Ok c" "ch_id c = pid"
      "gm_get (rs_proofs (expireLocked clock r)) pid = None \<Longrightarrow> gm_len (rs_proofs (expireLocked clock r)) < 4"
      "r' = record_request tm ''success'' ''control'' ''proof_published''
         (put_proof pid body (ch_expires c) (expireLocked clock r))"
  | (deleted) pid where "ha_status ans = 204" "hq_root_peer request" "hq_method request = ''DELETE''"
      "proofID (hq_path request) ''/v1/proofs/'' = (pid, True)"
      "r' = record_request tm ''success'' ''control'' ''proof_deleted'' (delete_proof pid r)"
proof (cases "hq_root_peer request \<and> hq_raw_query request = [] \<and> hq_escaped_path request = hq_path request \<and>
    snd (proofID (hq_path request) ''/v1/proofs/'')")
  case False
  with assms have "\<exists>reason. ha_status ans \<in> {400, 403, 404, 405} \<and>
      r' = record_request tm ''failure'' ''control'' reason r"
    by (auto simp: control_def Let_def http_error_def not_found_def split: if_splits prod.splits)
  then show ?thesis using refused by blast
next
  case True
  then obtain pid where pid: "proofID (hq_path request) ''/v1/proofs/'' = (pid, True)"
    by (cases "proofID (hq_path request) ''/v1/proofs/''") auto
  consider (p) "hq_method request = ''PUT''" | (d) "hq_method request = ''DELETE''"
    | (o) "hq_method request \<noteq> ''PUT''" "hq_method request \<noteq> ''DELETE''" by blast
  then show ?thesis
  proof cases
    case p
    with True pid assms have cp: "control_put J clock now tm pid request r = (ans, r')"
      by (simp add: control_def)
    then consider "\<exists>reason. ha_status ans \<in> {400, 403, 404, 405} \<and> r' = record_request tm ''failure'' ''control'' reason r"
      | "ha_status ans = 429 \<and> r' = record_request tm ''failure'' ''control'' ''capacity'' (expireLocked clock r)"
      | c where "parseProof J (hq_body request) (rc_fqdn (rs_config r)) now = Ok c" "ch_id c = pid" "ha_status ans = 201"
        "gm_get (rs_proofs (expireLocked clock r)) pid = None \<longrightarrow> gm_len (rs_proofs (expireLocked clock r)) < 4"
        "r' = record_request tm ''success'' ''control'' ''proof_published''
           (put_proof pid (hq_body request) (ch_expires c) (expireLocked clock r))"
      by (auto simp: control_put_def Let_def http_error_def read_max_def put_proof_def not_le
          split: if_splits sum.splits) blast+
    then show ?thesis
    proof cases
      case 1
      then show ?thesis using refused by blast
    next
      case 2
      then show ?thesis using full by blast
    next
      case (3 c)
      show ?thesis by (rule put [OF 3(3) _ p pid refl 3(1,2) _ 3(5)]) (use True 3(4) in simp_all)
    qed
  next
    case d
    with True pid assms have "control_delete tm pid r = (ans, r')" by (simp add: control_def)
    then have "ha_status ans = 204" "r' = record_request tm ''success'' ''control'' ''proof_deleted'' (delete_proof pid r)"
      by (auto simp: control_delete_def delete_proof_def Let_def)
    then show ?thesis using deleted True d pid by blast
  next
    case o
    with True pid assms have "ha_status ans = 405" "r' = record_request tm ''failure'' ''control'' ''method'' r"
      by (auto simp: control_def Let_def http_error_def)
    then show ?thesis using refused by blast
  qed
qed

lemma proofID_append: "validRandom pid \<Longrightarrow> proofID (prefix @ pid) prefix = (pid, True)"
  by (simp add: proofID_def)

lemma public_cases:
  assumes "public clock written tm request r = (ans, r')"
  obtains (refused) reason where "ha_status ans \<in> {404, 405}" "r' = record_request tm ''failure'' ''public'' reason r"
  | (absent) "ha_status ans = 404" "r' = record_request tm ''failure'' ''public'' ''not_found'' (expireLocked clock r)"
  | (served) pid p out reason where "ha_status ans = 200" "proofID (hq_path request) PathPrefix = (pid, True)"
      "gm_get (rs_proofs (expireLocked clock r)) pid = Some p" "ha_body ans = take (fst written) (sp_body p)"
      "r' = record_request tm out ''public'' reason (expireLocked clock r)"
proof (cases "hq_method request = ''GET'' \<and> \<not> (hq_host request \<noteq> join_host_port (rc_fqdn (rs_config r)) (itoa (rc_port (rs_config r))) \<or>
    hq_raw_query request \<noteq> [] \<or> hq_escaped_path request \<noteq> hq_path request \<or>
    hq_content_length request > 0 \<or> hq_transfer_encoding request \<noteq> []) \<and> snd (proofID (hq_path request) PathPrefix)")
  case False
  with assms have "\<exists>reason. ha_status ans \<in> {404, 405} \<and> r' = record_request tm ''failure'' ''public'' reason r"
    by (auto simp: public_def Let_def http_error_def not_found_def split: if_splits prod.splits)
  then show ?thesis using refused by blast
next
  case True
  then obtain pid where pid: "proofID (hq_path request) PathPrefix = (pid, True)"
    by (cases "proofID (hq_path request) PathPrefix") auto
  show ?thesis
  proof (cases "gm_get (rs_proofs (expireLocked clock r)) pid")
    case None
    with True pid assms show ?thesis
      by (intro absent) (auto simp: public_def Let_def http_error_def not_found_def)
  next
    case (Some p)
    with True pid assms have "ha_status ans = 200 \<and> ha_body ans = take (fst written) (sp_body p) \<and>
      (\<exists>out reason. r' = record_request tm out ''public'' reason (expireLocked clock r))"
      by (auto simp: public_def Let_def split: if_splits)
    then show ?thesis using served [OF _ pid Some] by blast
  qed
qed

datatype rsp_op =
    RPublic "nat \<Rightarrow> time" "nat \<times> bool" timing http_request
  | RControl "nat \<Rightarrow> time" time timing http_request
  | RCleanup "nat \<Rightarrow> time"

fun rsp_step :: "('sg, 'ob, 'z) jose_lib_scheme \<Rightarrow> responder \<Rightarrow> rsp_op \<Rightarrow> responder" where
  "rsp_step J r (RPublic clock written tm request) = snd (public clock written tm request r)"
| "rsp_step J r (RControl clock now tm request) = snd (control J clock now tm request r)"
| "rsp_step J r (RCleanup clock) = cleanup clock r"

lemma rs_ok_step: "rs_ok J r \<Longrightarrow> rs_ok J (rsp_step J r op)"
proof (cases op)
  case (RPublic clock written tm request)
  assume ok: "rs_ok J r"
  obtain ans r' where p: "public clock written tm request r = (ans, r')" by fastforce
  from p have "rs_ok J r'" by (cases rule: public_cases) (simp_all add: ok rs_ok_expire)
  with p RPublic show ?thesis by simp
next
  case (RControl clock now tm request)
  assume ok: "rs_ok J r"
  obtain ans r' where p: "control J clock now tm request r = (ans, r')" by fastforce
  from p have "rs_ok J r'"
  proof (cases rule: control_cases)
    case (put pid body c)
    have "parseProof J body (rc_fqdn (rs_config (expireLocked clock r))) now = Ok c" using put by simp
    from rs_ok_put [OF rs_ok_expire [OF ok] this put(7,8)] put(9) show ?thesis by simp
  qed (simp_all add: ok rs_ok_expire rs_ok_delete)
  with p RControl show ?thesis by simp
qed (simp add: cleanup_def rs_ok_expire)

lemma newResponder_ok:
  assumes "newResponder config = Ok r" shows "rs_ok J r" "rs_config r = config" "rs_proofs r = []"
proof -
  from assms obtain m where m: "newMetrics ''responder'' = Some m"
    "r = \<lparr>rs_config = config, rs_proofs = [], rs_metrics = (register [rc_fqdn config] m)\<lparr>mr_capacity := 4\<rparr>\<rparr>"
    by (auto simp: newResponder_def split: sum.splits if_splits option.splits)
  show "rs_config r = config" "rs_proofs r = []" by (simp_all add: m(2))
  have "mr_last_success m = []" "mr_pending m = []" using m(1) by (auto simp: newMetrics_def)
  then show "rs_ok J r"
    by (simp add: m(2) rs_ok_def rs_known_def rs_gauge_def stored_ok_def register_def register1_def
        Let_def pending_of_def gm.count_empty)
qed

lemma foldl_rs_ok: "rs_ok J r \<Longrightarrow> rs_ok J (foldl (rsp_step J) r ops)"
  by (induction ops arbitrary: r) (simp_all add: rs_ok_step)

lemma rsp_step_config: "rs_config (rsp_step J r op) = rs_config r"
proof (cases op)
  case (RPublic clock written tm request)
  obtain ans r' where p: "public clock written tm request r = (ans, r')" by fastforce
  from p have "rs_config r' = rs_config r" by (cases rule: public_cases) simp_all
  with p RPublic show ?thesis by simp
next
  case (RControl clock now tm request)
  obtain ans r' where p: "control J clock now tm request r = (ans, r')" by fastforce
  from p have "rs_config r' = rs_config r"
    by (cases rule: control_cases) (simp_all add: put_proof_def delete_proof_def)
  with p RControl show ?thesis by simp
qed (simp add: cleanup_def)

lemma foldl_config: "rs_config (foldl (rsp_step J) r ops) = rs_config r"
  by (induction ops arbitrary: r) (simp_all add: rsp_step_config)

text \<open>C34. Through any sequence of requests and clean-ups, a responder stores at most four proofs, its
  pending gauge is their number, and each is a proof that was accepted for the node's own name, is
  stored under its challenge's identifier, and expires with its challenge.\<close>

theorem responder_invariant:
  assumes "newResponder config = Ok r0" and r: "r = foldl (rsp_step J) r0 ops"
  shows "gm_len (rs_proofs r) \<le> 4 \<and> pending_of (rs_metrics r) (rc_fqdn config) = int (gm_len (rs_proofs r)) \<and>
    (\<forall>pid p. gm_get (rs_proofs r) pid = Some p \<longrightarrow>
       (\<exists>t c. parseProof J (sp_body p) (rc_fqdn config) t = Ok c \<and> ch_id c = pid \<and> ch_expires c = sp_expires p))"
proof -
  have "rs_ok J r" unfolding r by (rule foldl_rs_ok) (rule newResponder_ok [OF assms(1)])
  moreover have "rs_config r = config" using newResponder_ok(2) [OF assms(1)] by (simp add: r foldl_config)
  ultimately show ?thesis by (simp add: rs_ok_def rs_gauge_def stored_ok_def)
qed

section \<open>The responder is a store of expiring proofs\<close>

text \<open>The store: identifiers to a body and the second at which it expires. Nothing is cleaned up here: an entry that has
  expired is neither found nor counted.\<close>

type_synonym store = "string \<rightharpoonup> string \<times> int"

definition store_get :: "int \<Rightarrow> string \<Rightarrow> store \<Rightarrow> string option" where
  "store_get T pid A = (case A pid of Some (body, e) \<Rightarrow> if T < e then Some body else None | None \<Rightarrow> None)"

definition store_ids :: "int \<Rightarrow> store \<Rightarrow> string set" where
  "store_ids T A = {pid. store_get T pid A \<noteq> None}"

datatype store_call = SIgnore | SGet string | SPut string string int | SDelete string

datatype store_answer = Ignored | Found string | Missing | Stored | NoRoom | Removed

fun store_step :: "int \<Rightarrow> store_call \<Rightarrow> store \<Rightarrow> store_answer \<times> store" where
  "store_step T SIgnore A = (Ignored, A)"
| "store_step T (SGet pid) A = (case store_get T pid A of Some body \<Rightarrow> Found body | None \<Rightarrow> Missing, A)"
| "store_step T (SPut pid body e) A =
     (if pid \<in> store_ids T A \<or> card (store_ids T A) < 4 then (Stored, A(pid \<mapsto> (body, e))) else (NoRoom, A))"
| "store_step T (SDelete pid) A = (Removed, A(pid := None))"

text \<open>The call of the store that a request stands for: a well-formed request of the right host, or of a root peer with a
  document that proves the challenge named in the path. Any other request is ignored.\<close>

definition public_call :: "ResponderConfig \<Rightarrow> http_request \<Rightarrow> store_call" where
  "public_call config q =
     (if hq_method q = ''GET'' \<and> hq_host q = join_host_port (rc_fqdn config) (itoa (rc_port config)) \<and> hq_raw_query q = [] \<and>
         hq_escaped_path q = hq_path q \<and> hq_content_length q \<le> 0 \<and> hq_transfer_encoding q = [] \<and> snd (proofID (hq_path q) PathPrefix)
      then SGet (fst (proofID (hq_path q) PathPrefix)) else SIgnore)"

definition control_call :: "('sg, 'ob, 'z) jose_lib_scheme \<Rightarrow> ResponderConfig \<Rightarrow> time \<Rightarrow> http_request \<Rightarrow> store_call" where
  "control_call J config now q =
     (let pid = fst (proofID (hq_path q) ''/v1/proofs/'') in
      if \<not> (hq_root_peer q \<and> hq_raw_query q = [] \<and> hq_escaped_path q = hq_path q \<and> snd (proofID (hq_path q) ''/v1/proofs/'')) then SIgnore
      else if hq_method q = ''DELETE'' then SDelete pid
      else if hq_method q = ''PUT'' \<and> length (hq_body q) \<le> MaxDocumentSize \<and> \<not> hq_body_broken q
      then (case parseProof J (hq_body q) (rc_fqdn config) now of
              Inl _ \<Rightarrow> SIgnore
            | Inr c \<Rightarrow> if ch_id c = pid then SPut pid (hq_body q) (ch_expires c) else SIgnore)
      else SIgnore)"

fun rsp_call :: "('sg, 'ob, 'z) jose_lib_scheme \<Rightarrow> ResponderConfig \<Rightarrow> rsp_op \<Rightarrow> store_call" where
  "rsp_call J config (RPublic clock written tm q) = public_call config q"
| "rsp_call J config (RControl clock now tm q) = control_call J config now q"
| "rsp_call J config (RCleanup clock) = SIgnore"

text \<open>What the client of a request sees.\<close>

fun shows_answer :: "nat \<Rightarrow> store_answer \<Rightarrow> http_answer \<Rightarrow> bool" where
  "shows_answer n Ignored h = (ha_status h \<in> {400, 403, 404, 405})"
| "shows_answer n (Found body) h = (ha_status h = 200 \<and> ha_body h = take n body)"
| "shows_answer n Missing h = (ha_status h = 404)"
| "shows_answer n Stored h = (ha_status h = 201)"
| "shows_answer n NoRoom h = (ha_status h = 429)"
| "shows_answer n Removed h = (ha_status h = 204)"

fun observed :: "('sg, 'ob, 'z) jose_lib_scheme \<Rightarrow> responder \<Rightarrow> rsp_op \<Rightarrow> store_answer \<Rightarrow> bool" where
  "observed J r (RPublic clock written tm q) a = shows_answer (fst written) a (fst (public clock written tm q r))"
| "observed J r (RControl clock now tm q) a = shows_answer 0 a (fst (control J clock now tm q r))"
| "observed J r (RCleanup clock) a = True"

fun rsp_clock :: "rsp_op \<Rightarrow> nat \<Rightarrow> time" where
  "rsp_clock (RPublic clock written tm q) = clock"
| "rsp_clock (RControl clock now tm q) = clock"
| "rsp_clock (RCleanup clock) = clock"

text \<open>A run of the responder beside a run of the store: each request is answered as the store answers its call.\<close>

fun conforms :: "('sg, 'ob, 'z) jose_lib_scheme \<Rightarrow> responder \<Rightarrow> store \<Rightarrow> (int \<times> rsp_op) list \<Rightarrow> bool" where
  "conforms J r A [] = True"
| "conforms J r A ((T, op) # ops) =
     (case store_step T (rsp_call J (rs_config r) op) A of (a, A') \<Rightarrow> observed J r op a \<and> conforms J (rsp_step J r op) A' ops)"

text \<open>The simulation: the responder holds only what the store has, and everything of it that has not expired.\<close>

definition holds :: "int \<Rightarrow> responder \<Rightarrow> store \<Rightarrow> bool" where
  "holds T r A =
     ((\<forall>pid p. gm_get (rs_proofs r) pid = Some p \<longrightarrow> A pid = Some (sp_body p, sp_expires p)) \<and>
      (\<forall>pid body e. A pid = Some (body, e) \<longrightarrow> T < e \<longrightarrow> gm_get (rs_proofs r) pid = Some \<lparr>sp_body = body, sp_expires = e\<rparr>))"

lemma holds_later: "holds T r A \<Longrightarrow> T \<le> T' \<Longrightarrow> holds T' r A"
  by (simp add: holds_def)

lemma holds_record [simp]: "holds T (record_request tm out st re r) A = holds T r A"
  by (simp add: holds_def)

lemma expired_get:
  assumes "gm_ok (rs_proofs r)" "holds T r A" "\<forall>i. unix_of (clock i) = T"
  shows "gm_get (rs_proofs (expireLocked clock r)) pid =
    (case A pid of Some (body, e) \<Rightarrow> if T < e then Some \<lparr>sp_body = body, sp_expires = e\<rparr> else None | None \<Rightarrow> None)"
proof (cases "gm_get (rs_proofs r) pid")
  case None
  then show ?thesis using assms(2) by (auto simp: holds_def expireLocked_none split: option.splits)
next
  case (Some p)
  then have "A pid = Some (sp_body p, sp_expires p)" using assms(2) by (simp add: holds_def)
  then show ?thesis using expireLocked_get [OF assms(1) Some, of clock] assms(3) by auto
qed

lemma expired_holds:
  assumes "gm_ok (rs_proofs r)" "holds T r A" "\<forall>i. unix_of (clock i) = T"
  shows "holds T (expireLocked clock r) A"
  using expired_get [OF assms] unfolding holds_def by (auto split: option.splits if_splits)

lemma expired_found:
  assumes "gm_ok (rs_proofs r)" "holds T r A" "\<forall>i. unix_of (clock i) = T"
  shows "map_option sp_body (gm_get (rs_proofs (expireLocked clock r)) pid) = store_get T pid A"
  using expired_get [OF assms, of pid] by (simp add: store_get_def split: option.splits)

lemma expired_count:
  assumes "gm_ok (rs_proofs r)" "holds T r A" "\<forall>i. unix_of (clock i) = T"
  shows "gm_len (rs_proofs (expireLocked clock r)) = card (store_ids T A)"
proof -
  have ok: "gm_ok (rs_proofs (expireLocked clock r))" using assms(1) by (simp add: expireLocked_def expire_entries_ok)
  have "store_ids T A = fst ` set (rs_proofs (expireLocked clock r))"
    by (simp add: store_ids_def set_eq_iff gm_get_keys [symmetric] flip: expired_found [OF assms])
  then show ?thesis using ok distinct_card [of "map fst (rs_proofs (expireLocked clock r))"] by (simp add: gm_ok_def gm_len_length)
qed

lemma public_conforms:
  assumes ok: "gm_ok (rs_proofs r)" and h: "holds T r A" and c: "\<forall>i. unix_of (clock i) = T"
    and s: "store_step T (public_call (rs_config r) q) A = (a, A')" and run: "public clock written tm q r = (ans, r')"
  shows "shows_answer (fst written) a ans \<and> holds T r' A'"
proof (cases "public_call (rs_config r) q")
  case SIgnore
  then show ?thesis using s run h
    by (auto simp: public_call_def public_def Let_def http_error_def not_found_def split: if_splits prod.splits)
next
  case (SGet pid)
  note f = expired_found [OF ok h c, of pid] and e = expired_holds [OF ok h c]
  show ?thesis
  proof (cases "gm_get (rs_proofs (expireLocked clock r)) pid")
    case None
    then show ?thesis using SGet s run f e
      by (auto simp: public_call_def public_def Let_def http_error_def not_found_def split: if_splits prod.splits)
  next
    case (Some p)
    then have "store_get T pid A = Some (sp_body p)" using f by simp
    then show ?thesis using Some SGet s run e
      by (auto simp: public_call_def public_def Let_def split: if_splits prod.splits)
  qed
qed (auto simp: public_call_def split: if_splits)

lemma put_conforms:
  assumes ok: "gm_ok (rs_proofs r)" and h: "holds T r A" and c: "\<forall>i. unix_of (clock i) = T"
    and q: "length (hq_body q) \<le> MaxDocumentSize" "\<not> hq_body_broken q" "parseProof J (hq_body q) (rc_fqdn (rs_config r)) now = Ok ch" "ch_id ch = pid"
    and s: "store_step T (SPut pid (hq_body q) (ch_expires ch)) A = (a, A')" and run: "control_put J clock now tm pid q r = (ans, r')"
  shows "shows_answer 0 a ans \<and> holds T r' A'"
proof -
  note f = expired_found [OF ok h c, of pid] and n = expired_count [OF ok h c]
  have present: "gm_get (rs_proofs (expireLocked clock r)) pid \<noteq> None \<longleftrightarrow> pid \<in> store_ids T A"
    by (simp add: store_ids_def flip: f)
  have "holds T (put_proof pid (hq_body q) (ch_expires ch) (expireLocked clock r)) (A(pid \<mapsto> (hq_body q, ch_expires ch)))"
    using expired_holds [OF ok h c] by (auto simp: holds_def put_proof_def)
  then show ?thesis using run s q present n expired_holds [OF ok h c]
    by (auto simp: control_put_def read_max_def Let_def http_error_def put_proof_def holds_def split: if_splits)
qed

lemma control_conforms:
  assumes ok: "gm_ok (rs_proofs r)" and h: "holds T r A" and c: "\<forall>i. unix_of (clock i) = T"
    and s: "store_step T (control_call J (rs_config r) now q) A = (a, A')" and run: "control J clock now tm q r = (ans, r')"
  shows "shows_answer 0 a ans \<and> holds T r' A'"
proof (cases "control_call J (rs_config r) now q")
  case SIgnore
  have "ha_status ans \<in> {400, 403, 404, 405} \<and> (\<exists>reason. r' = record_request tm ''failure'' ''control'' reason r)"
    using SIgnore run
    by (auto simp: control_call_def control_def control_put_def read_max_def Let_def http_error_def not_found_def split: if_splits prod.splits sum.splits)
  then show ?thesis using SIgnore s h by auto
next
  case (SPut pid body e)
  then obtain ch where ch: "length (hq_body q) \<le> MaxDocumentSize" "\<not> hq_body_broken q"
      "parseProof J (hq_body q) (rc_fqdn (rs_config r)) now = Ok ch" "ch_id ch = pid" "body = hq_body q" "e = ch_expires ch"
    by (auto simp: control_call_def Let_def split: if_splits sum.splits)
  have "control_put J clock now tm pid q r = (ans, r')"
    using run SPut by (auto simp: control_def control_call_def Let_def split: if_splits sum.splits prod.splits)
  from put_conforms [OF ok h c ch(1-4) _ this] s SPut ch(5,6) show ?thesis by simp
next
  case (SDelete pid)
  have "control_delete tm pid r = (ans, r')"
    using run SDelete by (auto simp: control_def control_call_def Let_def split: if_splits sum.splits prod.splits)
  then show ?thesis using SDelete s h ok by (auto simp: control_delete_def holds_def Let_def split: if_splits)
qed (auto simp: control_call_def Let_def split: if_splits sum.splits)

lemma step_conforms:
  assumes "rs_ok J r" "holds T r A" "\<forall>i. unix_of (rsp_clock op i) = T" "store_step T (rsp_call J (rs_config r) op) A = (a, A')"
  shows "observed J r op a \<and> holds T (rsp_step J r op) A'"
proof -
  have ok: "gm_ok (rs_proofs r)" using assms(1) by (simp add: rs_ok_def)
  show ?thesis
  proof (cases op)
    case (RPublic clock written tm q)
    then show ?thesis using public_conforms [OF ok assms(2), of clock q a A' written tm] assms(3,4) by (metis observed.simps(1) prod.collapse rsp_call.simps(1) rsp_clock.simps(1) rsp_step.simps(1))
  next
    case (RControl clock now tm q)
    then show ?thesis using control_conforms [OF ok assms(2), of clock J now q a A' tm] assms(3,4) by (metis observed.simps(2) prod.collapse rsp_call.simps(2) rsp_clock.simps(2) rsp_step.simps(2))
  next
    case (RCleanup clock)
    then show ?thesis using expired_holds [OF ok assms(2), of clock] assms(3,4) by (simp add: cleanup_def)
  qed
qed

lemma run_conforms:
  assumes "rs_ok J r" "holds T0 r A" "sorted (T0 # map fst ops)" "\<forall>(T, op) \<in> set ops. \<forall>i. unix_of (rsp_clock op i) = T"
  shows "conforms J r A ops"
  using assms
proof (induction J r A ops arbitrary: T0 rule: conforms.induct)
  case (2 J r A T op ops)
  obtain a A' where s: "store_step T (rsp_call J (rs_config r) op) A = (a, A')" by (rule prod.exhaust)
  have h: "holds T r A" using "2.prems"(2,3) by (auto intro: holds_later)
  have "\<forall>i. unix_of (rsp_clock op i) = T" using "2.prems"(4) by auto
  from step_conforms [OF "2.prems"(1) h this s] have o: "observed J r op a" "holds T (rsp_step J r op) A'" by simp_all
  have "conforms J (rsp_step J r op) A' ops"
    by (rule "2.IH" [OF s [symmetric] rs_ok_step [OF "2.prems"(1)] o(2)]) (use "2.prems"(3,4) in auto)
  then show ?case using s o by simp
qed simp

text \<open>C12. The responder refines the store of expiring proofs: over any sequence of public requests, control requests and
  clean-ups in the order of time, each request is answered as the store answers the call it stands for. So a proof is
  served exactly from its publication until it expires, is deleted or is replaced, with the bytes that were published;
  expired proofs take no room; and requests that are malformed or of an unprivileged peer change nothing.\<close>

theorem responder_refines_store:
  assumes "newResponder config = Ok r" "sorted (map fst ops)" "\<forall>(T, op) \<in> set ops. \<forall>i. unix_of (rsp_clock op i) = T"
  shows "conforms J r Map.empty ops"
proof (cases ops)
  case (Cons x xs)
  have "holds (fst x) r Map.empty" using newResponder_ok(3) [OF assms(1)] by (simp add: holds_def)
  then show ?thesis by (rule run_conforms [OF newResponder_ok(1) [OF assms(1)]]) (use assms(2,3) Cons in auto)
qed simp

text \<open>A concrete responder, holding the proof of the concrete challenge.\<close>

definition ex_rconfig :: ResponderConfig where
  "ex_rconfig = \<lparr>rc_fqdn = ''node.example'', rc_port = 18091, rc_control_socket = ''/run/proofs.sock'', rc_metrics_address = []\<rparr>"

definition ex_responder :: responder where
  "ex_responder = (case newResponder ex_rconfig of Inr r \<Rightarrow> r)"

definition ex_request_to :: "string \<Rightarrow> string \<Rightarrow> string \<Rightarrow> http_request" where
  "ex_request_to method path body = \<lparr>hq_method = method, hq_host = ''node.example:18091'', hq_path = path,
     hq_escaped_path = path, hq_raw_query = [], hq_content_length = 0, hq_transfer_encoding = [],
     hq_body = body, hq_body_broken = False, hq_root_peer = True\<rparr>"

abbreviation ex_clock :: "nat \<Rightarrow> time" where
  "ex_clock \<equiv> \<lambda>_. seconds 1000"

abbreviation ex_timing :: timing where
  "ex_timing \<equiv> \<lparr>tm_end = seconds 1000, tm_duration = 0\<rparr>"

lemma ex_responder_new: "newResponder ex_rconfig = Ok ex_responder"
proof -
  have "is_ok (newResponder ex_rconfig)"
    by (simp add: newResponder_def ex_rconfig_def validateMetricsAddress_def ex_names path_is_abs_def
        has_prefix_def newMetrics_def)
  then show ?thesis by (auto simp: is_ok_iff ex_responder_def)
qed

lemma ex_responder_ok: "rs_ok J ex_responder"
  by (rule newResponder_ok [OF ex_responder_new])

theorem responder_invariant_witness:
  "pending_of (rs_metrics (foldl (rsp_step ex_jose) ex_responder [RCleanup ex_clock])) ''node.example'' = 0"
  using responder_invariant [OF ex_responder_new refl, of ex_jose "[RCleanup ex_clock]"]
    newResponder_ok(3) [OF ex_responder_new]
  by (simp add: cleanup_def expireLocked_def ex_rconfig_def gm.count_empty)

lemma control_created:
  assumes "control J clock now tm request r = (ans, r')" "ha_status ans = 201"
    and "parseProof J (hq_body request) (rc_fqdn (rs_config r)) now = Ok c"
  shows "r' = record_request tm ''success'' ''control'' ''proof_published''
    (put_proof (ch_id c) (hq_body request) (ch_expires c) (expireLocked clock r))"
  using assms(1) by (cases rule: control_cases) (use assms(2,3) in auto)

text \<open>C35. Publish then fetch: after a created request, a well-formed public request for the
  challenge's identifier, before the challenge expires, is answered 200 with exactly the bytes
  that were published.\<close>

theorem publish_then_fetch:
  assumes "rs_ok J r" "control J clock now tm request r = (ans, r')" "ha_status ans = 201"
    and "parseProof J (hq_body request) (rc_fqdn (rs_config r)) now = Ok c"
    and "hq_method get = ''GET''" "hq_host get = join_host_port (rc_fqdn (rs_config r)) (itoa (rc_port (rs_config r)))"
    and "hq_path get = PathPrefix @ ch_id c" "hq_escaped_path get = hq_path get" "hq_raw_query get = []"
    and "hq_content_length get \<le> 0" "hq_transfer_encoding get = []"
    and "\<And>i. unix_of (clock' i) < ch_expires c"
  shows "ha_status (fst (public clock' (length (hq_body request), False) tm' get r')) = 200 \<and>
    ha_body (fst (public clock' (length (hq_body request), False) tm' get r')) = hq_body request"
proof -
  note put = control_created [OF assms(2,3)]
  have r': "gm_get (rs_proofs r') (ch_id c) = Some \<lparr>sp_body = hq_body request, sp_expires = ch_expires c\<rparr>"
    "rs_config r' = rs_config r" "gm_ok (rs_proofs r')"
    using put [OF assms(4)] expireLocked_gauge(1) [of r clock] assms(1) by (simp_all add: put_proof_def rs_ok_def)
  obtain k where "gm_get (rs_proofs (expireLocked clock' r')) (ch_id c) =
      (if ch_expires c \<le> unix_of (clock' k) then None else Some \<lparr>sp_body = hq_body request, sp_expires = ch_expires c\<rparr>)"
    using expireLocked_get [OF r'(3,1), of clock'] by auto
  with assms(12) [of k]
  have g: "gm_get (rs_proofs (expireLocked clock' r')) (ch_id c) = Some \<lparr>sp_body = hq_body request, sp_expires = ch_expires c\<rparr>"
    by simp
  have "validRandom (ch_id c)" using parseProof_valid [OF assms(4)] by (simp add: validateChallenge_iff)
  then have "proofID (hq_path get) PathPrefix = (ch_id c, True)"
    unfolding assms(7) by (rule proofID_append)
  with g assms(5-11) r'(2) show ?thesis by (simp add: public_def Let_def)
qed

lemma control_put_created:
  assumes "hq_root_peer request" "hq_raw_query request = []" "hq_escaped_path request = hq_path request"
    and "hq_path request = ''/v1/proofs/'' @ ch_id c" "hq_method request = ''PUT''" "\<not> hq_body_broken request"
    and "length (hq_body request) \<le> MaxDocumentSize"
    and "parseProof J (hq_body request) (rc_fqdn (rs_config r)) now = Ok c"
    and "gm_get (rs_proofs (expireLocked clock r)) (ch_id c) = None \<Longrightarrow> gm_len (rs_proofs (expireLocked clock r)) < 4"
  shows "ha_status (fst (control J clock now tm request r)) = 201"
proof -
  have "validRandom (ch_id c)" using parseProof_valid [OF assms(8)] by (simp add: validateChallenge_iff)
  then have "proofID (hq_path request) ''/v1/proofs/'' = (ch_id c, True)"
    unfolding assms(4) by (rule proofID_append)
  with assms show ?thesis by (auto simp: control_def control_put_def read_max_def Let_def)
qed

lemma ex_publish:
  obtains document where "length document \<le> MaxDocumentSize"
    "parseProof ex_jose document ''node.example'' (seconds 1000) = Ok ex_challenge"
    "ha_status (fst (control ex_jose ex_clock (seconds 1000) ex_timing
       (ex_request_to ''PUT'' (''/v1/proofs/'' @ ch_id ex_challenge) document) ex_responder)) = 201"
proof -
  obtain document where d: "length document \<le> MaxDocumentSize"
    "parseProof ex_jose document ''node.example'' (seconds 1000) = Ok ex_challenge"
    by (rule sign_parse [OF ex_jose_correct _ ex_challenge_valid, of ex_key])
      (auto simp: ex_key_def ex_challenge_def)
  have "rs_proofs (expireLocked ex_clock ex_responder) = []" "rc_fqdn (rs_config ex_responder) = ''node.example''"
    using newResponder_ok(2,3) [OF ex_responder_new] by (simp_all add: expireLocked_def ex_rconfig_def)
  with d show ?thesis
    by (intro that [of document] control_put_created [where c = ex_challenge])
      (simp_all add: ex_request_to_def gm.count_empty)
qed

lemma three_conform:
  assumes "conforms J r Map.empty [(1000, o1), (1000, o2), (1200, o3)]"
    and "rsp_call J (rs_config r) o1 = SPut pid document 1120" "rsp_call J (rs_config r) o2 = SGet pid" "rsp_call J (rs_config r) o3 = SGet pid"
  shows "\<exists>r1 r2. observed J r1 o2 (Found document) \<and> observed J r2 o3 Missing"
  using assms by (auto simp: rsp_step_config store_ids_def store_get_def)

text \<open>A proof is published, fetched while it is valid, and fetched again when it has expired.\<close>

theorem responder_refines_store_witness:
  "\<exists>document r1 r2. parseProof ex_jose document ''node.example'' (seconds 1000) = Ok ex_challenge \<and>
    ha_body (fst (public ex_clock (length document, False) ex_timing (ex_request_to ''GET'' (PathPrefix @ ch_id ex_challenge) []) r1)) = document \<and>
    ha_status (fst (public (\<lambda>_. seconds 1200) (length document, False) ex_timing (ex_request_to ''GET'' (PathPrefix @ ch_id ex_challenge) []) r2)) = 404"
proof -
  obtain document where d: "length document \<le> MaxDocumentSize" "parseProof ex_jose document ''node.example'' (seconds 1000) = Ok ex_challenge"
    by (rule ex_publish)
  let ?put = "RControl ex_clock (seconds 1000) ex_timing (ex_request_to ''PUT'' (''/v1/proofs/'' @ ch_id ex_challenge) document)"
  let ?get = "\<lambda>t. RPublic (\<lambda>_. seconds t) (length document, False) ex_timing (ex_request_to ''GET'' (PathPrefix @ ch_id ex_challenge) [])"
  have "validRandom (ch_id ex_challenge)" using ex_challenge_valid by (simp add: validateChallenge_iff)
  then have pid: "proofID (PathPrefix @ ch_id ex_challenge) PathPrefix = (ch_id ex_challenge, True)"
    "proofID (''/v1/proofs/'' @ ch_id ex_challenge) ''/v1/proofs/'' = (ch_id ex_challenge, True)" by (rule proofID_append)+
  have "itoa 18091 = ''18091''" by (simp add: itoa_def show_nat.simps digit_char_literals)
  then have calls: "rsp_call ex_jose ex_rconfig ?put = SPut (ch_id ex_challenge) document 1120" "rsp_call ex_jose ex_rconfig (?get t) = SGet (ch_id ex_challenge)" for t
    using d pid by (simp_all add: control_call_def public_call_def ex_request_to_def ex_rconfig_def join_host_port_def) (simp add: ex_challenge_def)
  have cf: "rs_config ex_responder = ex_rconfig" by (rule newResponder_ok(2) [OF ex_responder_new])
  have "conforms ex_jose ex_responder Map.empty [(1000, ?put), (1000, ?get 1000), (1200, ?get 1200)]"
    by (rule responder_refines_store [OF ex_responder_new]) (auto simp: unix_of_def)
  from three_conform [OF this] calls cf have "\<exists>r1 r2. observed ex_jose r1 (?get 1000) (Found document) \<and> observed ex_jose r2 (?get 1200) Missing"
    by metis
  then show ?thesis using d by auto
qed

theorem publish_then_fetch_witness:
  "\<exists>document r'. ha_body (fst (public ex_clock (length document, False) ex_timing
     (ex_request_to ''GET'' (PathPrefix @ ch_id ex_challenge) []) r')) = document \<and>
   parseProof ex_jose document ''node.example'' (seconds 1000) = Ok ex_challenge"
proof -
  obtain document where d: "parseProof ex_jose document ''node.example'' (seconds 1000) = Ok ex_challenge"
    "ha_status (fst (control ex_jose ex_clock (seconds 1000) ex_timing
       (ex_request_to ''PUT'' (''/v1/proofs/'' @ ch_id ex_challenge) document) ex_responder)) = 201"
    by (rule ex_publish)
  obtain ans r' where c: "control ex_jose ex_clock (seconds 1000) ex_timing
      (ex_request_to ''PUT'' (''/v1/proofs/'' @ ch_id ex_challenge) document) ex_responder = (ans, r')" by fastforce
  have "rc_fqdn (rs_config ex_responder) = ''node.example''" "rc_port (rs_config ex_responder) = 18091"
    using newResponder_ok(2) [OF ex_responder_new] by (simp_all add: ex_rconfig_def)
  moreover have "itoa 18091 = ''18091''" by (simp add: itoa_def show_nat.simps digit_char_literals)
  ultimately have "ha_body (fst (public ex_clock (length document, False) ex_timing
     (ex_request_to ''GET'' (PathPrefix @ ch_id ex_challenge) []) r')) = document"
    using publish_then_fetch [OF ex_responder_ok c, of ex_challenge
        "ex_request_to ''GET'' (PathPrefix @ ch_id ex_challenge) []" ex_clock ex_timing] d c
    by (simp add: ex_request_to_def join_host_port_def unix_of_def) (simp add: ex_challenge_def)
  with d show ?thesis by blast
qed

text \<open>Only unexpired, published proofs are served: a 200 answer is (a prefix of) the body stored
  under the identifier in the path, which was accepted for this node and had not expired when the
  clock was read.\<close>

theorem public_serves_stored:
  assumes "rs_ok J r" "public clock written tm request r = (ans, r')" "ha_status ans = 200"
  shows "\<exists>pid body t c k. proofID (hq_path request) PathPrefix = (pid, True) \<and>
    parseProof J body (rc_fqdn (rs_config r)) t = Ok c \<and> ch_id c = pid \<and>
    unix_of (clock k) < ch_expires c \<and> ha_body ans = take (fst written) body"
  using assms(2)
proof (cases rule: public_cases)
  case (served pid p out reason)
  have "gm_ok (rs_proofs r)" using assms(1) by (simp add: rs_ok_def)
  from expireLocked_old [OF this served(3)] obtain k where
    k: "gm_get (rs_proofs r) pid = Some p" "unix_of (clock k) < sp_expires p" by blast
  then obtain t c where "parseProof J (sp_body p) (rc_fqdn (rs_config r)) t = Ok c" "ch_id c = pid"
    "ch_expires c = sp_expires p" using assms(1) unfolding rs_ok_def stored_ok_def by blast
  with served k show ?thesis by metis
qed (use assms(3) in auto)

theorem public_serves_stored_witness:
  "\<exists>r ans r'. rs_ok ex_jose r \<and>
    public ex_clock (3, False) ex_timing (ex_request_to ''GET'' (PathPrefix @ ch_id ex_challenge) []) r = (ans, r') \<and>
    (\<exists>body t c. parseProof ex_jose body ''node.example'' t = Ok c \<and> ha_body ans = take 3 body)"
proof -
  let ?get = "ex_request_to ''GET'' (PathPrefix @ ch_id ex_challenge) []"
  obtain document where d: "parseProof ex_jose document ''node.example'' (seconds 1000) = Ok ex_challenge"
    "ha_status (fst (control ex_jose ex_clock (seconds 1000) ex_timing
       (ex_request_to ''PUT'' (''/v1/proofs/'' @ ch_id ex_challenge) document) ex_responder)) = 201"
    by (rule ex_publish)
  let ?op = "RControl ex_clock (seconds 1000) ex_timing (ex_request_to ''PUT'' (''/v1/proofs/'' @ ch_id ex_challenge) document)"
  define r where "r = rsp_step ex_jose ex_responder ?op"
  have ok: "rs_ok ex_jose r" unfolding r_def by (rule rs_ok_step [OF ex_responder_ok])
  obtain ans1 where c: "control ex_jose ex_clock (seconds 1000) ex_timing
      (ex_request_to ''PUT'' (''/v1/proofs/'' @ ch_id ex_challenge) document) ex_responder = (ans1, r)"
    by (metis r_def prod.collapse rsp_step.simps(2))
  have cf: "rs_config ex_responder = ex_rconfig" by (rule newResponder_ok(2) [OF ex_responder_new])
  then have "parseProof ex_jose (hq_body (ex_request_to ''PUT'' (''/v1/proofs/'' @ ch_id ex_challenge) document))
      (rc_fqdn (rs_config ex_responder)) (seconds 1000) = Ok ex_challenge"
    using d by (simp add: ex_request_to_def ex_rconfig_def)
  from control_created [OF c _ this] d(2) c
  have g: "gm_get (rs_proofs r) (ch_id ex_challenge) = Some \<lparr>sp_body = document, sp_expires = 1120\<rparr>"
    "rs_config r = ex_rconfig"
    by (simp_all add: ex_request_to_def put_proof_def cf) (simp add: ex_challenge_def)
  have gk: "gm_ok (rs_proofs r)" using ok by (simp add: rs_ok_def)
  from expireLocked_get [OF gk g(1), of ex_clock]
  have e: "gm_get (rs_proofs (expireLocked ex_clock r)) (ch_id ex_challenge) = Some \<lparr>sp_body = document, sp_expires = 1120\<rparr>"
    by (simp add: unix_of_def)
  have "validRandom (ch_id ex_challenge)" using ex_challenge_valid by (simp add: validateChallenge_iff)
  then have pid: "proofID (PathPrefix @ ch_id ex_challenge) PathPrefix = (ch_id ex_challenge, True)"
    by (rule proofID_append)
  obtain ans r' where p: "public ex_clock (3, False) ex_timing ?get r = (ans, r')" by fastforce
  have "itoa 18091 = ''18091''" by (simp add: itoa_def show_nat.simps digit_char_literals)
  then have "ha_status ans = 200"
    using p e pid g(2) by (auto simp: public_def ex_request_to_def ex_rconfig_def join_host_port_def Let_def split: if_splits)
  from public_serves_stored [OF ok p this] obtain body t c where
    "parseProof ex_jose body (rc_fqdn (rs_config r)) t = Ok c" "ha_body ans = take 3 body" by auto
  moreover have "rc_fqdn (rs_config r) = ''node.example''" by (simp add: g(2) ex_rconfig_def)
  ultimately show ?thesis using ok p by metis
qed

text \<open>A control request from a peer that is not root never reads its body or changes what is
  stored: it is answered 403, and only the metrics record it.\<close>

theorem control_needs_root:
  "\<not> hq_root_peer request \<Longrightarrow>
    ha_status (fst (control J clock now tm request r)) = 403 \<and>
    snd (control J clock now tm request r) = record_request tm ''failure'' ''control'' ''peer_denied'' r \<and>
    rs_proofs (snd (control J clock now tm request r)) = rs_proofs r"
  by (simp add: control_def Let_def http_error_def)

theorem control_needs_root_witness:
  "ha_status (fst (control ex_jose ex_clock 0 ex_timing ((ex_request_to ''DELETE'' ''/v1/proofs/x'' [])\<lparr>hq_root_peer := False\<rparr>) ex_responder)) = 403"
  by (rule control_needs_root [THEN conjunct1]) simp

end
