(* ===== verification/Attest_Agent.thy ===== *)
theory Attest_Agent
  imports Attest_Responder
begin

text \<open>
  \<^verbatim>\<open>realm-node-attest/agent.go\<close>: one attestation attempt of an agent. What a request on the control
  socket does to the responder is the argument \<open>dial\<close>: given the socket, the method, the URL
  and the body it returns the status of the reply (\<^const>\<open>None\<close> when \<^verbatim>\<open>client.Do\<close> fails) and the
  world after the request. The locale \<open>proof_store\<close> is what the agent relies on of that endpoint; it
  is interpreted on the responder's \<^verbatim>\<open>control\<close> handler.
\<close>

section \<open>Attempts\<close>

record AgentAttempt =
  ag_config :: AgentConfig
  ag_key :: string
  ag_payload :: string
  ag_published :: string
  ag_responded :: bool
  ag_closed :: bool

definition validateAgentConfig :: "AgentConfig \<Rightarrow> unit result" where
  "validateAgentConfig config =
     (case validateMetricsAddress (ac_metrics_address config) of
        Inl e \<Rightarrow> Inl e
      | Inr _ \<Rightarrow>
          if \<not> validFQDN (ac_fqdn config) \<or> \<not> validFQDN (ac_trust_domain config) \<or>
             \<not> path_is_abs (ac_control_socket config)
          then Fail ''invalid agent configuration'' else Ok ())"

text \<open>\<open>generated\<close> is what \<^verbatim>\<open>ed25519.GenerateKey\<close> gives: a private key, which ends in its public key.\<close>

definition BeginAgent :: "string result \<Rightarrow> AgentConfig \<Rightarrow> AgentAttempt result" where
  "BeginAgent generated config =
     (case validateAgentConfig config of
        Inl e \<Rightarrow> Inl e
      | Inr _ \<Rightarrow>
          (case generated of
             Inl e \<Rightarrow> Inl e
           | Inr private \<Rightarrow>
               let payload = json_print (request_json
                     \<lparr>rq_version = 1, rq_fqdn = ac_fqdn config, rq_jwk = jwkFor (public_of private)\<rparr>)
               in Ok \<lparr>ag_config = config, ag_key = private, ag_payload = payload, ag_published = [],
                      ag_responded = False, ag_closed = False\<rparr>))"

definition Payload :: "AgentAttempt \<Rightarrow> string" where
  "Payload a = ag_payload a"

section \<open>The control socket\<close>

type_synonym 'w dial = "string \<Rightarrow> string \<Rightarrow> string \<Rightarrow> string \<Rightarrow> 'w \<Rightarrow> int option \<times> 'w"

text \<open>
  \<^verbatim>\<open>url.Parse\<close> of a URL whose scheme and host are fixed: it refuses control bytes, and escapes in
  the path or the fragment that are not two hexadecimal digits.
\<close>

fun good_escapes :: "string \<Rightarrow> bool" where
  "good_escapes [] = True"
| "good_escapes (c # cs) =
     (if c = CHR ''%'' then (case cs of a # b # rest \<Rightarrow> is_hex a \<and> is_hex b \<and> good_escapes rest | _ \<Rightarrow> False)
      else good_escapes cs)"

definition url_parses :: "string \<Rightarrow> bool" where
  "url_parses url =
     (let before = takeWhile (\<lambda>c. c \<noteq> CHR ''#'') url;
          fragment = drop (length before + 1) url;
          path = takeWhile (\<lambda>c. c \<noteq> CHR ''?'') before in
      list_all (\<lambda>c. 32 \<le> (of_char c :: nat) \<and> (of_char c :: nat) \<noteq> 127) before \<and>
      good_escapes path \<and> good_escapes fragment)"

definition control_url :: "string \<Rightarrow> string" where
  "control_url pid = ''http://localhost/v1/proofs/'' @ pid"

definition controlRequest ::
  "'w dial \<Rightarrow> string \<Rightarrow> string \<Rightarrow> string \<Rightarrow> string \<Rightarrow> 'w \<Rightarrow> unit result \<times> 'w" where
  "controlRequest dial socket method pid body w =
     (if \<not> url_parses (control_url pid) then (Inl (ErrLib ''http.NewRequest''), w)
      else case dial socket method (control_url pid) body w of
        (None, w') \<Rightarrow> (Fail ''control endpoint unavailable'', w')
      | (Some status, w') \<Rightarrow>
          if method = ''PUT'' \<and> status \<noteq> 201 \<or> method = ''DELETE'' \<and> status \<noteq> 204 \<and> status \<noteq> 404
          then (Fail ''control endpoint rejected operation'', w') else (Ok (), w'))"

section \<open>Respond and Close\<close>

definition Respond ::
  "('sg, 'ob, 'z) jose_lib_scheme \<Rightarrow> 'w dial \<Rightarrow> time \<Rightarrow> string \<Rightarrow> AgentAttempt \<Rightarrow> 'w \<Rightarrow>
    string result \<times> AgentAttempt \<times> 'w" where
  "Respond J dial now rawChallenge a w =
     (let bad = (\<lambda>e a'. (observeError (Inl e) ''challenge'' ''invalid_challenge'', a', w)) in
      if ag_closed a \<or> ag_responded a then bad (Err ''agent attempt is not pending'') a
      else
        let a1 = a\<lparr>ag_responded := True\<rparr> in
        case decodeJSON dec_challenge zero_challenge rawChallenge of
          Inl e \<Rightarrow> bad e a1
        | Inr c \<Rightarrow>
            (case validateChallenge c now of
               Inl e \<Rightarrow> bad e a1
             | Inr _ \<Rightarrow>
                 if ch_fqdn c \<noteq> ac_fqdn (ag_config a) \<or> ch_trust_domain c \<noteq> ac_trust_domain (ag_config a) \<or>
                    ch_server_id c \<noteq> serverID (ac_trust_domain (ag_config a)) \<or>
                    ch_thumbprint c \<noteq> thumbprint (jwkFor (public_of (ag_key a)))
                 then bad (Err ''challenge does not match agent attempt'') a1
                 else case signProof J (ag_key a) rawChallenge of
                   Inl e \<Rightarrow> bad e a1
                 | Inr proof_bytes \<Rightarrow>
                     let a2 = a1\<lparr>ag_published := ch_id c\<rparr> in
                     (case controlRequest dial (ac_control_socket (ag_config a)) ''PUT'' (ch_id c) proof_bytes w of
                        (Inl e, w') \<Rightarrow>
                          (observeError (Inl (ErrWrap ''publish challenge'' e)) ''publish'' ''publish_failed'', a2, w')
                      | (Inr _, w') \<Rightarrow>
                          (Ok (json_print (ready_json \<lparr>rd_version = 1, rd_id = ch_id c\<rparr>)), a2, w'))))"

definition Close_agent :: "'w dial \<Rightarrow> AgentAttempt \<Rightarrow> 'w \<Rightarrow> AgentAttempt \<times> 'w" where
  "Close_agent dial a w =
     (if ag_closed a then (a, w)
      else
        let w' = (if ag_published a \<noteq> []
                  then snd (controlRequest dial (ac_control_socket (ag_config a)) ''DELETE'' (ag_published a) [] w)
                  else w)
        in (a\<lparr>ag_closed := True, ag_key := []\<rparr>, w'))"

section \<open>Requests to the control socket\<close>

definition url_safe :: "char \<Rightarrow> bool" where
  "url_safe c = (32 \<le> (of_char c :: nat) \<and> (of_char c :: nat) \<noteq> 127 \<and> c \<noteq> CHR ''%'' \<and> c \<noteq> CHR ''#'' \<and> c \<noteq> CHR ''?'')"

lemma b64_safe_url: "b64_safe c \<Longrightarrow> url_safe c"
  by (auto simp: b64_safe_def b64_val_def url_safe_def Let_def split: if_splits)

lemma good_escapes_safe: "list_all url_safe s \<Longrightarrow> good_escapes s"
  by (induction s rule: good_escapes.induct) (auto simp: url_safe_def)

lemma url_parses_safe: "list_all url_safe s \<Longrightarrow> url_parses s"
proof -
  assume s: "list_all url_safe s"
  then have tw: "takeWhile (\<lambda>c. c \<noteq> CHR ''#'') s = s" "takeWhile (\<lambda>c. c \<noteq> CHR ''?'') s = s"
    by (auto simp: list_all_iff url_safe_def takeWhile_eq_all_conv)
  have "list_all (\<lambda>c. 32 \<le> (of_char c :: nat) \<and> (of_char c :: nat) \<noteq> 127) s"
    using s by (rule list.pred_mono_strong) (simp add: url_safe_def)
  then show ?thesis using good_escapes_safe [OF s] unfolding url_parses_def Let_def tw by simp
qed

lemma control_url_parses: "validRandom pid \<Longrightarrow> url_parses (control_url pid)"
proof -
  assume "validRandom pid"
  then obtain b where "pid = b64_encode b" by (auto simp: validRandom_def split: option.splits)
  then have "list_all url_safe pid" using b64_encode_safe [of b] by (auto simp: list_all_iff b64_safe_url)
  then show ?thesis
    unfolding control_url_def by (intro url_parses_safe) (simp add: url_safe_def)
qed

lemma validRandom_nonempty: "validRandom pid \<Longrightarrow> pid \<noteq> []"
  using validRandom_plain by fastforce

lemma controlRequest_Ok:
  assumes "controlRequest dial socket method pid body w = (Ok u, w')"
  obtains status where "dial socket method (control_url pid) body w = (Some status, w')"
    "method = ''PUT'' \<Longrightarrow> status = 201" "method = ''DELETE'' \<Longrightarrow> status = 204 \<or> status = 404"
  using assms that by (auto simp: controlRequest_def split: if_splits prod.splits option.splits)

lemma controlRequest_sends:
  "validRandom pid \<Longrightarrow> snd (controlRequest dial socket method pid body w) = snd (dial socket method (control_url pid) body w)"
  by (simp add: controlRequest_def control_url_parses split: prod.split option.split)

text \<open>The challenge an attempt answers: valid now, and naming this agent, its server and its key.\<close>

definition answers :: "AgentAttempt \<Rightarrow> time \<Rightarrow> string \<Rightarrow> challenge \<Rightarrow> bool" where
  "answers a now raw c =
     (decodeJSON dec_challenge zero_challenge raw = Ok c \<and> validateChallenge c now = Ok () \<and>
      ch_fqdn c = ac_fqdn (ag_config a) \<and> ch_trust_domain c = ac_trust_domain (ag_config a) \<and>
      ch_server_id c = serverID (ac_trust_domain (ag_config a)) \<and>
      ch_thumbprint c = thumbprint (jwkFor (public_of (ag_key a))))"

lemma Respond_spent:
  "ag_closed a \<or> ag_responded a \<Longrightarrow> Respond J dial now raw a w =
    (Inl (ErrObserved (Err ''agent attempt is not pending'') ''challenge'' ''invalid_challenge''), a, w)"
  unfolding Respond_def Let_def by (simp add: observeError_def)

lemma Respond_refused:
  assumes "\<not> (ag_closed a \<or> ag_responded a)" "\<not> (\<exists>c pf. answers a now raw c \<and> signProof J (ag_key a) raw = Ok pf)"
  obtains e where "Respond J dial now raw a w =
    (Inl (ErrObserved e ''challenge'' ''invalid_challenge''), a\<lparr>ag_responded := True\<rparr>, w)"
proof (cases "decodeJSON dec_challenge zero_challenge raw")
  case (Inl e)
  with assms(1) show ?thesis by (intro that [of e]) (simp add: Respond_def observeError_def)
next
  case c: (Inr c)
  show ?thesis
  proof (cases "validateChallenge c now")
    case (Inl e)
    with assms(1) c show ?thesis by (intro that [of e]) (simp add: Respond_def observeError_def)
  next
    case v: (Inr u)
    show ?thesis
    proof (cases "answers a now raw c")
      case False
      with c v assms(1) show ?thesis
        by (intro that [of "Err ''challenge does not match agent attempt''"])
          (simp add: Respond_def observeError_def answers_def)
    next
      case True
      then obtain e where "signProof J (ag_key a) raw = Inl e" using assms(2) by (cases "signProof J (ag_key a) raw") auto
      with c v True assms(1) show ?thesis
        by (intro that [of e]) (simp add: Respond_def observeError_def answers_def)
    qed
  qed
qed

lemma Respond_sent:
  assumes "\<not> (ag_closed a \<or> ag_responded a)" "answers a now raw c" "signProof J (ag_key a) raw = Ok pf"
    and "controlRequest dial (ac_control_socket (ag_config a)) ''PUT'' (ch_id c) pf w = (r, w')"
  shows "Respond J dial now raw a w =
    (case r of
       Inl e \<Rightarrow> observeError (Inl (ErrWrap ''publish challenge'' e)) ''publish'' ''publish_failed''
     | Inr _ \<Rightarrow> Ok (json_print (ready_json \<lparr>rd_version = 1, rd_id = ch_id c\<rparr>)),
     a\<lparr>ag_responded := True, ag_published := ch_id c\<rparr>, w')"
  using assms by (cases r) (simp_all add: Respond_def answers_def)

lemma Respond_cases:
  assumes "Respond J dial now raw a w = (res, a', w')"
  obtains (spent) "ag_closed a \<or> ag_responded a" "\<not> is_ok res" "a' = a" "w' = w"
  | (refused) "\<not> ag_closed a" "\<not> ag_responded a" "\<not> is_ok res" "a' = a\<lparr>ag_responded := True\<rparr>" "w' = w"
  | (sent) c pf r where "\<not> ag_closed a" "\<not> ag_responded a" "answers a now raw c"
      "signProof J (ag_key a) raw = Ok pf" "a' = a\<lparr>ag_responded := True, ag_published := ch_id c\<rparr>"
      "controlRequest dial (ac_control_socket (ag_config a)) ''PUT'' (ch_id c) pf w = (r, w')"
      "is_ok res = is_ok r"
      "is_ok r \<Longrightarrow> res = Ok (json_print (ready_json \<lparr>rd_version = 1, rd_id = ch_id c\<rparr>))"
proof (cases "ag_closed a \<or> ag_responded a")
  case True
  from assms [unfolded Respond_spent [OF True]] show ?thesis by (intro spent) (use True in auto)
next
  case pending: False
  show ?thesis
  proof (cases "\<exists>c pf. answers a now raw c \<and> signProof J (ag_key a) raw = Ok pf")
    case False
    obtain e where e: "Respond J dial now raw a w =
        (Inl (ErrObserved e ''challenge'' ''invalid_challenge''), a\<lparr>ag_responded := True\<rparr>, w)"
      by (rule Respond_refused [OF pending False])
    from assms [unfolded e] pending show ?thesis by (intro refused) auto
  next
    case True
    then obtain c pf where c: "answers a now raw c" "signProof J (ag_key a) raw = Ok pf" by blast
    obtain r w'' where r: "controlRequest dial (ac_control_socket (ag_config a)) ''PUT'' (ch_id c) pf w = (r, w'')"
      by fastforce
    from assms [unfolded Respond_sent [OF pending c r]] have "a' = a\<lparr>ag_responded := True, ag_published := ch_id c\<rparr>" "w'' = w'"
      "res = (case r of Inl e \<Rightarrow> observeError (Inl (ErrWrap ''publish challenge'' e)) ''publish'' ''publish_failed''
         | Inr _ \<Rightarrow> Ok (json_print (ready_json \<lparr>rd_version = 1, rd_id = ch_id c\<rparr>)))" by simp_all
    then show ?thesis
      by (intro sent [of c pf r]) (use pending c r in \<open>auto simp: observeError_def split: sum.splits\<close>)
  qed
qed

section \<open>Calls on one attempt\<close>

datatype agent_call = ARespond time string | AClose

text \<open>The requests that reach the control socket are logged beside the world.\<close>

definition logged :: "'w dial \<Rightarrow> ('w \<times> (string \<times> string) list) dial" where
  "logged dial socket method url body wl =
     (case dial socket method url body (fst wl) of (st, w') \<Rightarrow> (st, (w', snd wl @ [(method, url)])))"

fun agent_step ::
  "('sg, 'ob, 'z) jose_lib_scheme \<Rightarrow> 'w dial \<Rightarrow> AgentAttempt \<times> 'w \<Rightarrow> agent_call \<Rightarrow> AgentAttempt \<times> 'w" where
  "agent_step J dial (a, w) (ARespond now raw) = snd (Respond J dial now raw a w)"
| "agent_step J dial (a, w) AClose = Close_agent dial a w"

definition agent_log :: "AgentAttempt \<Rightarrow> (string \<times> string) list" where
  "agent_log a =
     (if ag_published a = [] then []
      else (''PUT'', control_url (ag_published a)) #
        (if ag_closed a then [(''DELETE'', control_url (ag_published a))] else []))"

definition agent_ok :: "AgentAttempt \<Rightarrow> (string \<times> string) list \<Rightarrow> bool" where
  "agent_ok a log =
     (log = agent_log a \<and> (ag_published a \<noteq> [] \<longrightarrow> ag_responded a \<and> validRandom (ag_published a)) \<and>
      (ag_closed a \<longrightarrow> ag_key a = []))"

lemma logged_snd [simp]: "snd (snd (logged dial s m u b wl)) = snd wl @ [(m, u)]"
  by (simp add: logged_def split: prod.split)

lemma agent_ok_call:
  assumes "agent_ok a (snd w)" "agent_step J (logged dial) (a, w) op = (a', w')"
  shows "agent_ok a' (snd w')"
proof (cases op)
  case (ARespond now raw)
  with assms(2) obtain res where "Respond J (logged dial) now raw a w = (res, a', w')"
    by (cases "Respond J (logged dial) now raw a w") auto
  then show ?thesis
  proof (cases rule: Respond_cases)
    case (sent c pf r)
    have v: "validRandom (ch_id c)" using sent(3) by (simp add: answers_def validateChallenge_iff)
    have "ag_published a = []" using sent(2) assms(1) by (auto simp: agent_ok_def)
    moreover have "snd w' = snd w @ [(''PUT'', control_url (ch_id c))]"
      using controlRequest_sends [OF v, of "logged dial" "ac_control_socket (ag_config a)" "''PUT''" pf w] sent(6) by simp
    ultimately show ?thesis
      using assms(1) sent v validRandom_nonempty [OF v] by (simp add: agent_ok_def agent_log_def)
  qed (use assms(1) in \<open>auto simp: agent_ok_def agent_log_def\<close>)
next
  case AClose
  show ?thesis
  proof (cases "ag_published a = [] \<or> ag_closed a")
    case True
    with AClose assms show ?thesis
      by (auto simp: Close_agent_def agent_ok_def agent_log_def Let_def split: if_splits)
  next
    case False
    then have v: "validRandom (ag_published a)" using assms(1) by (auto simp: agent_ok_def)
    from AClose assms False show ?thesis
      by (auto simp: Close_agent_def agent_ok_def agent_log_def Let_def controlRequest_sends [OF v])
  qed
qed

lemma agent_ok_calls:
  "agent_ok a (snd w) \<Longrightarrow> foldl (agent_step J (logged dial)) (a, w) ops = (a', w') \<Longrightarrow> agent_ok a' (snd w')"
proof (induction ops arbitrary: a w)
  case (Cons op ops)
  obtain a1 w1 where 1: "agent_step J (logged dial) (a, w) op = (a1, w1)" by (rule prod.exhaust)
  from Cons.IH [OF agent_ok_call [OF Cons.prems(1) 1]] Cons.prems(2) 1 show ?case by simp
qed simp

lemma agent_step_closed: "ag_closed a \<Longrightarrow> agent_step J dial (a, w) op = (a, w)"
  by (cases op) (simp_all add: Respond_def Close_agent_def Let_def)

lemma agent_calls_closed: "ag_closed a \<Longrightarrow> foldl (agent_step J dial) (a, w) ops = (a, w)"
  by (induction ops) (simp_all add: agent_step_closed)

lemma agent_calls_close:
  assumes "foldl (agent_step J dial) (a, w) ops = (a', w')" "AClose \<in> set ops"
  shows "ag_closed a'"
  using assms
proof (induction ops arbitrary: a w)
  case (Cons op ops)
  obtain a1 w1 where 1: "agent_step J dial (a, w) op = (a1, w1)" by (rule prod.exhaust)
  show ?case
  proof (cases "op = AClose")
    case True
    with 1 have "ag_closed a1" by (auto simp: Close_agent_def Let_def split: if_splits)
    then show ?thesis using Cons.prems(1) 1 agent_calls_closed [of a1 J dial w1 ops] by simp
  next
    case False
    with Cons 1 show ?thesis by simp
  qed
qed simp

lemma BeginAgent_Ok:
  assumes "BeginAgent generated config = Ok a"
  obtains key where "generated = Ok key" "validateAgentConfig config = Ok ()"
    "a = \<lparr>ag_config = config, ag_key = key, ag_payload = json_print (request_json
        \<lparr>rq_version = 1, rq_fqdn = ac_fqdn config, rq_jwk = jwkFor (public_of key)\<rparr>),
      ag_published = [], ag_responded = False, ag_closed = False\<rparr>"
  using assms that by (auto simp: BeginAgent_def Let_def split: sum.splits)

text \<open>C24. An attempt publishes at most once and takes back what it published: whatever calls are made
  on it, in whatever order, the requests its socket sees are none, one \<^verbatim>\<open>PUT\<close>, or that \<^verbatim>\<open>PUT\<close> and then
  one \<^verbatim>\<open>DELETE\<close> of the same proof; after a \<^verbatim>\<open>Close\<close> a published proof's \<^verbatim>\<open>DELETE\<close> was sent and the
  private key is erased.\<close>

theorem agent_publishes_once:
  assumes "BeginAgent generated config = Ok a0" "foldl (agent_step J (logged dial)) (a0, (w0, [])) ops = (a, (w, log))"
  shows "(log = [] \<or> log = [(''PUT'', control_url (ag_published a))] \<and> \<not> ag_closed a \<or>
      log = [(''PUT'', control_url (ag_published a)), (''DELETE'', control_url (ag_published a))]) \<and>
    (AClose \<in> set ops \<longrightarrow> ag_key a = [] \<and> length log \<noteq> 1)"
proof -
  have "agent_ok a0 (snd (w0, []))"
    using assms(1) by (rule BeginAgent_Ok) (simp add: agent_ok_def agent_log_def)
  from agent_ok_calls [OF this assms(2)] have "agent_ok a log" by simp
  moreover have "AClose \<in> set ops \<longrightarrow> ag_closed a" using agent_calls_close [OF assms(2)] by blast
  ultimately show ?thesis by (auto simp: agent_ok_def agent_log_def)
qed


definition ex_agent_config :: AgentConfig where
  "ex_agent_config = \<lparr>ac_fqdn = ''node.example'', ac_trust_domain = ''realm.example'',
     ac_control_socket = ''/run/proofs.sock'', ac_metrics_address = []\<rparr>"

lemma ex_agent_valid: "validateAgentConfig ex_agent_config = Ok ()"
  by (simp add: validateAgentConfig_def ex_agent_config_def validateMetricsAddress_def ex_names path_is_abs_def
      has_prefix_def)

lemma ex_agent_begin: "is_ok (BeginAgent (Ok ex_key) ex_agent_config)"
  by (simp add: BeginAgent_def ex_agent_valid)

theorem agent_publishes_once_witness:
  "\<exists>a w log. foldl (agent_step ex_jose (logged (\<lambda>_ _ _ _ w. (Some 201, w))))
      (projr (BeginAgent (Ok ex_key) ex_agent_config), ((), []))
      [ARespond (seconds 1000) (json_print (challenge_json ex_challenge)), AClose] = (a, (w, log)) \<and>
    ag_key a = [] \<and> length log \<noteq> 1"
proof -
  let ?ops = "[ARespond (seconds 1000) (json_print (challenge_json ex_challenge)), AClose]"
  obtain a0 where a0: "BeginAgent (Ok ex_key) ex_agent_config = Ok a0" using ex_agent_begin by (auto simp: is_ok_iff)
  obtain a w log where "foldl (agent_step ex_jose (logged (\<lambda>_ _ _ _ w. (Some 201, w)))) (a0, ((), [])) ?ops = (a, (w, log))"
    by (metis surj_pair)
  with agent_publishes_once [OF a0 this] a0 show ?thesis by auto
qed

section \<open>The contract of the control endpoint\<close>

text \<open>
  What an agent relies on: a proof whose \<^verbatim>\<open>PUT\<close> was answered 201 is stored, and one whose \<^verbatim>\<open>DELETE\<close> was
  answered 204 or 404 is not.
\<close>

locale proof_store =
  fixes dial :: "'w dial"
    and stored :: "'w \<Rightarrow> string \<Rightarrow> string option"
    and ok :: "'w \<Rightarrow> bool"
  assumes put_created: "ok w \<Longrightarrow> validRandom pid \<Longrightarrow>
      dial socket ''PUT'' (control_url pid) body w = (Some 201, w') \<Longrightarrow> stored w' pid = Some body"
    and delete_gone: "ok w \<Longrightarrow> validRandom pid \<Longrightarrow>
      dial socket ''DELETE'' (control_url pid) body w = (Some status, w') \<Longrightarrow> status = 204 \<or> status = 404 \<Longrightarrow>
      stored w' pid = None"
    and dial_ok: "ok w \<Longrightarrow> dial socket method url body w = (st, w') \<Longrightarrow> ok w'"
begin

lemma respond_stored:
  assumes "ok w" "Respond J dial now raw a w = (Ok out, a', w')"
  shows "\<exists>c pf. answers a now raw c \<and> signProof J (ag_key a) raw = Ok pf \<and>
    out = json_print (ready_json \<lparr>rd_version = 1, rd_id = ch_id c\<rparr>) \<and>
    ag_published a' = ch_id c \<and> ok w' \<and> stored w' (ch_id c) = Some pf"
  using assms(2)
proof (cases rule: Respond_cases)
  case (sent c pf r)
  then obtain u where "r = Ok u" by (auto simp: is_ok_iff)
  with sent(6) have "controlRequest dial (ac_control_socket (ag_config a)) ''PUT'' (ch_id c) pf w = (Ok u, w')" by simp
  then obtain st where st: "dial (ac_control_socket (ag_config a)) ''PUT'' (control_url (ch_id c)) pf w = (Some st, w')" "st = 201"
    by (rule controlRequest_Ok) simp
  have "validRandom (ch_id c)" using sent(3) by (simp add: answers_def validateChallenge_iff)
  with put_created [OF assms(1)] st have "stored w' (ch_id c) = Some pf" by blast
  moreover have "ok w'" using dial_ok [OF assms(1) st(1)] .
  ultimately show ?thesis using sent by (intro exI [of _ c] exI [of _ pf]) (auto simp: is_ok_iff)
qed simp_all

lemma close_gone:
  assumes "ok w" "\<not> ag_closed a" "validRandom (ag_published a)" "Close_agent dial a w = (a', w')"
    and "dial (ac_control_socket (ag_config a)) ''DELETE'' (control_url (ag_published a)) [] w = (Some st, w1)"
    and "st = 204 \<or> st = 404"
  shows "stored w' (ag_published a) = None \<and> ag_key a' = [] \<and> ag_closed a'"
proof -
  have "w' = w1" "ag_key a' = []" "ag_closed a'"
    using assms(2,4,5) validRandom_nonempty [OF assms(3)] controlRequest_sends [OF assms(3), of dial _ "''DELETE''" "[]" w]
    by (auto simp: Close_agent_def Let_def)
  with delete_gone [OF assms(1,3,5,6)] show ?thesis by simp
qed

end

text \<open>
  The responder as the endpoint: the agent, which runs as root, reaches its \<^verbatim>\<open>control\<close> handler over the
  Unix socket. A URL made from a valid identifier has nothing to escape.
\<close>

definition control_dial ::
  "('sg, 'ob, 'z) jose_lib_scheme \<Rightarrow> (nat \<Rightarrow> time) \<Rightarrow> time \<Rightarrow> timing \<Rightarrow> responder dial" where
  "control_dial J clock now tm socket method url body r =
     (let path = trim_prefix ''http://localhost'' url in
      case control J clock now tm
        \<lparr>hq_method = method, hq_host = ''localhost'', hq_path = path, hq_escaped_path = path, hq_raw_query = [],
         hq_content_length = int (length body), hq_transfer_encoding = [], hq_body = body,
         hq_body_broken = False, hq_root_peer = True\<rparr> r of
        (ans, r') \<Rightarrow> (Some (ha_status ans), r'))"

definition stored_body :: "responder \<Rightarrow> string \<Rightarrow> string option" where
  "stored_body r pid = map_option sp_body (gm_get (rs_proofs r) pid)"

lemma control_url_path: "trim_prefix ''http://localhost'' (control_url pid) = ''/v1/proofs/'' @ pid"
  by (simp add: trim_prefix_def has_prefix_def control_url_def)

lemma control_rs_ok: "rs_ok J r \<Longrightarrow> control J clock now tm request r = (ans, r') \<Longrightarrow> rs_ok J r'"
  using rs_ok_step [of J r "RControl clock now tm request"] by simp

lemma control_dial_delete:
  assumes "validRandom pid"
  shows "control_dial J clock now tm socket ''DELETE'' (control_url pid) body r = (Some 204, snd (control_delete tm pid r))"
proof -
  obtain st r' where d: "control_dial J clock now tm socket ''DELETE'' (control_url pid) body r = (st, r')" by fastforce
  then obtain req ans where c: "control J clock now tm req r = (ans, r')" "st = Some (ha_status ans)" "hq_method req = ''DELETE''"
    "hq_path req = ''/v1/proofs/'' @ pid" "hq_escaped_path req = hq_path req" "hq_raw_query req = []" "hq_root_peer req"
    by (auto simp: control_dial_def control_url_path Let_def split: prod.splits)
  have "proofID (hq_path req) ''/v1/proofs/'' = (pid, True)" unfolding c(4) by (rule proofID_append [OF assms])
  with c(1,3,5-7) have "(ans, r') = control_delete tm pid r" by (simp add: control_def Let_def)
  then show ?thesis unfolding d c(2) by (simp add: control_delete_def Let_def)
qed

lemma control_dial_put:
  assumes "control_dial J clock now tm socket ''PUT'' (control_url pid) body r = (st, r')"
  obtains req ans where "control J clock now tm req r = (ans, r')" "st = Some (ha_status ans)" "hq_method req = ''PUT''"
    "hq_path req = ''/v1/proofs/'' @ pid" "hq_escaped_path req = hq_path req" "hq_raw_query req = []" "hq_root_peer req"
    "hq_body req = body" "\<not> hq_body_broken req"
  using assms that by (auto simp: control_dial_def control_url_path Let_def split: prod.splits)

interpretation rsp: proof_store "control_dial J clock now tm" stored_body "rs_ok J" for J clock now tm
proof unfold_locales
  fix r pid socket body r'
  assume ok: "rs_ok J r" and v: "validRandom pid"
    and d: "control_dial J clock now tm socket ''PUT'' (control_url pid) body r = (Some 201, r')"
  from d obtain req ans where c: "control J clock now tm req r = (ans, r')" "ha_status ans = 201" "hq_body req = body"
    "hq_path req = ''/v1/proofs/'' @ pid"
    by (rule control_dial_put) simp
  have "proofID (hq_path req) ''/v1/proofs/'' = (pid, True)" unfolding c(4) by (rule proofID_append [OF v])
  with c(1) show "stored_body r' pid = Some body"
    by (cases rule: control_cases) (use c(2,3) in \<open>auto simp: stored_body_def put_proof_def\<close>)
next
  fix r pid socket body status r'
  assume ok: "rs_ok J r" and v: "validRandom pid" and st: "status = 204 \<or> status = 404"
    and d: "control_dial J clock now tm socket ''DELETE'' (control_url pid) body r = (Some status, r')"
  have "r' = snd (control_delete tm pid r)" using d control_dial_delete [OF v, of J clock now tm socket body r] by simp
  then show "stored_body r' pid = None"
    by (auto simp: control_delete_def stored_body_def Let_def)
next
  fix r socket meth url body st r'
  assume "rs_ok J r" "control_dial J clock now tm socket meth url body r = (st, r')"
  then show "rs_ok J r'"
    by (auto simp: control_dial_def Let_def split: prod.splits intro: control_rs_ok)
qed

text \<open>An honest agent and an honest responder with room: the proof is published.\<close>

lemma honest_respond:
  assumes J: "jose_correct J" "length (ag_key a) = 64" and a: "\<not> ag_closed a" "\<not> ag_responded a"
    and c: "answers a t (json_print (challenge_json c)) c" "int64 (ch_expires c)"
    and r: "rs_ok J r" "rc_fqdn (rs_config r) = ch_fqdn c" "gm_len (rs_proofs r) < 4"
    and now: "validateChallenge c now = Ok ()"
  obtains pf r' where "signProof J (ag_key a) (json_print (challenge_json c)) = Ok pf" "length pf \<le> MaxDocumentSize"
    "verifyProof J pf (jwkFor (public_of (ag_key a))) = Ok (json_print (challenge_json c))"
    "Respond J (control_dial J clock now tm) t (json_print (challenge_json c)) a r =
       (Ok (json_print (ready_json \<lparr>rd_version = 1, rd_id = ch_id c\<rparr>)),
        a\<lparr>ag_responded := True, ag_published := ch_id c\<rparr>, r')"
    "gm_get (rs_proofs r') (ch_id c) = Some \<lparr>sp_body = pf, sp_expires = ch_expires c\<rparr>"
    "rs_config r' = rs_config r" "rs_ok J r'"
proof -
  let ?raw = "json_print (challenge_json c)" and ?socket = "ac_control_socket (ag_config a)"
  have th: "ch_thumbprint c = thumbprint (jwkFor (public_of (ag_key a)))" using c(1) by (simp add: answers_def)
  have v: "validRandom (ch_id c)" using now by (simp add: validateChallenge_iff)
  obtain pf where pf: "signProof J (ag_key a) ?raw = Ok pf" "length pf \<le> MaxDocumentSize"
    "parseProof J pf (ch_fqdn c) now = Ok c" "verifyProof J pf (jwkFor (public_of (ag_key a))) = Ok ?raw"
    by (rule sign_parse [OF J now c(2) th])
  obtain st r' where d: "control_dial J clock now tm ?socket ''PUT'' (control_url (ch_id c)) pf r = (st, r')" by fastforce
  then obtain req ans where req: "control J clock now tm req r = (ans, r')" "st = Some (ha_status ans)"
    "hq_method req = ''PUT''" "hq_path req = ''/v1/proofs/'' @ ch_id c" "hq_escaped_path req = hq_path req"
    "hq_raw_query req = []" "hq_root_peer req" "hq_body req = pf" "\<not> hq_body_broken req" by (rule control_dial_put)
  have "gm_len (rs_proofs (expireLocked clock r)) < 4"
    using expireLocked_gauge(4) [of r clock] r by (simp add: rs_ok_def)
  with req pf r(2) have "ha_status (fst (control J clock now tm req r)) = 201"
    by (intro control_put_created [where c = c]) simp_all
  then have created: "ha_status ans = 201" using req(1) by simp
  from control_created [OF req(1) this, of c] req(8) pf(3) r(2)
  have r': "r' = record_request tm ''success'' ''control'' ''proof_published''
      (put_proof (ch_id c) pf (ch_expires c) (expireLocked clock r))" by simp
  have "controlRequest (control_dial J clock now tm) ?socket ''PUT'' (ch_id c) pf r = (Ok (), r')"
    using d req(2) created control_url_parses [OF v] by (simp add: controlRequest_def)
  from Respond_sent [OF _ c(1) pf(1) this] a
  have "Respond J (control_dial J clock now tm) t ?raw a r = (Ok (json_print (ready_json \<lparr>rd_version = 1, rd_id = ch_id c\<rparr>)),
      a\<lparr>ag_responded := True, ag_published := ch_id c\<rparr>, r')" by simp
  moreover have "gm_get (rs_proofs r') (ch_id c) = Some \<lparr>sp_body = pf, sp_expires = ch_expires c\<rparr>"
    "rs_config r' = rs_config r" by (simp_all add: r' put_proof_def)
  ultimately show ?thesis using that pf control_rs_ok [OF r(1) req(1)] by blast
qed

text \<open>C23. A proof lives in the responder exactly from the agent's answer to the attempt's close: when
  \<^verbatim>\<open>Respond\<close> succeeds against the responder, the challenge was valid, named this agent, its trust
  domain and its key, and the responder holds the signature over exactly the challenge's bytes; and
  closing the attempt removes it.\<close>

theorem agent_proof_lifecycle:
  assumes "rs_ok J r" "Respond J (control_dial J clock now tm) t raw a r = (Ok out, a', r')"
  shows "\<exists>c pf. decodeJSON dec_challenge zero_challenge raw = Ok c \<and> validateChallenge c t = Ok () \<and>
    ch_fqdn c = ac_fqdn (ag_config a) \<and> ch_trust_domain c = ac_trust_domain (ag_config a) \<and>
    ch_thumbprint c = thumbprint (jwkFor (public_of (ag_key a))) \<and>
    signProof J (ag_key a) raw = Ok pf \<and> stored_body r' (ch_id c) = Some pf \<and>
    stored_body (snd (Close_agent (control_dial J clock' now' tm') a' r')) (ch_id c) = None"
proof -
  from rsp.respond_stored [OF assms] obtain c pf where c: "answers a t raw c" "signProof J (ag_key a) raw = Ok pf"
    "ag_published a' = ch_id c" "rs_ok J r'" "stored_body r' (ch_id c) = Some pf" by blast
  have v: "validRandom (ag_published a')" using c by (simp add: answers_def validateChallenge_iff)
  have open': "\<not> ag_closed a'" using assms(2) by (cases rule: Respond_cases) auto
  obtain a'' r'' where cl: "Close_agent (control_dial J clock' now' tm') a' r' = (a'', r'')" by fastforce
  from rsp.close_gone [OF c(4) open' v cl control_dial_delete [OF v]] c cl show ?thesis
    by (intro exI [of _ c] exI [of _ pf]) (simp add: answers_def)
qed

lemma ex_answers:
  assumes "BeginAgent (Ok ex_key) ex_agent_config = Ok a"
  shows "answers a (seconds 1000) (json_print (challenge_json ex_challenge)) ex_challenge"
    "length (ag_key a) = 64" "\<not> ag_closed a" "\<not> ag_responded a"
proof -
  have "decodeJSON dec_challenge zero_challenge (json_print (challenge_json ex_challenge)) = Ok ex_challenge"
    using ex_challenge_valid by (rule decode_valid_challenge) (simp add: ex_challenge_def)
  moreover have "ag_config a = ex_agent_config" "ag_key a = ex_key"
    using assms by (auto elim: BeginAgent_Ok)
  ultimately show "answers a (seconds 1000) (json_print (challenge_json ex_challenge)) ex_challenge"
    using ex_challenge_valid unfolding answers_def by (simp add: ex_agent_config_def) (simp add: ex_challenge_def serverID_def)
  show "length (ag_key a) = 64" "\<not> ag_closed a" "\<not> ag_responded a"
    using assms by (auto elim!: BeginAgent_Ok simp: ex_key_def)
qed

theorem agent_proof_lifecycle_witness:
  "\<exists>a out a' r' pf. Respond ex_jose (control_dial ex_jose ex_clock (seconds 1000) ex_timing) (seconds 1000)
      (json_print (challenge_json ex_challenge)) a ex_responder = (Ok out, a', r') \<and>
    stored_body r' (ch_id ex_challenge) = Some pf \<and>
    stored_body (snd (Close_agent (control_dial ex_jose ex_clock (seconds 1001) ex_timing) a' r')) (ch_id ex_challenge) = None"
proof -
  obtain a where a: "BeginAgent (Ok ex_key) ex_agent_config = Ok a" using ex_agent_begin by (auto simp: is_ok_iff)
  have r: "rc_fqdn (rs_config ex_responder) = ch_fqdn ex_challenge" "gm_len (rs_proofs ex_responder) < 4"
    using newResponder_ok(2,3) [OF ex_responder_new] by (simp_all add: ex_rconfig_def ex_challenge_def gm.count_empty)
  have i: "int64 (ch_expires ex_challenge)" by (simp add: ex_challenge_def)
  note ans = ex_answers [OF a]
  obtain out a' r' where o: "Respond ex_jose (control_dial ex_jose ex_clock (seconds 1000) ex_timing) (seconds 1000)
      (json_print (challenge_json ex_challenge)) a ex_responder = (Ok out, a', r')"
    by (rule honest_respond [OF ex_jose_correct ans(2-4) ans(1) i ex_responder_ok r ex_challenge_valid])
  from agent_proof_lifecycle [OF ex_responder_ok o, of ex_clock "seconds 1001" ex_timing] ans(1)
  obtain pf where "stored_body r' (ch_id ex_challenge) = Some pf"
    "stored_body (snd (Close_agent (control_dial ex_jose ex_clock (seconds 1001) ex_timing) a' r')) (ch_id ex_challenge) = None"
    unfolding answers_def by auto
  with o show ?thesis by blast
qed

end
