(* ===== verification/Attest_Server.thy ===== *)
theory Attest_Server
  imports Attest_Metrics
begin

text \<open>
  \<^verbatim>\<open>realm-node-attest/server.go\<close> and \<^verbatim>\<open>address.go\<close>: the server of the attestation protocol. The
  attempts a server creates are shared objects that several goroutines hold pointers to, so the
  state has a heap of attempts (\<open>sv_attempts\<close>, an attempt's pointer being its index) beside the
  fields of \<^verbatim>\<open>Server\<close>. Each stretch of code under one of the two locks is one operation:
  \<open>verify_claim\<close> and \<open>verify_commit\<close> are the two critical sections of \<^verbatim>\<open>Verify\<close>, \<open>verify_check\<close> what
  it does between them, and \<open>close_mark\<close> and \<open>close_remove\<close> the two of \<^verbatim>\<open>Close\<close>. The step relation
  interleaves them freely.

  Times, contexts and the network are inputs: \<open>fetch_env\<close> gives, for each address the fetch tries,
  whether the context has ended and what an HTTP request dialled to that target returns.
\<close>

section \<open>Pinned addresses\<close>

definition validAddress :: "addr \<Rightarrow> bool" where
  "validAddress address =
     (if \<not> addr_is_valid address \<or> addr_zone address \<noteq> [] \<or> addr_is4in6 address \<or>
         \<not> addr_is_global_unicast address \<or> addr_is_loopback address
      then False
      else case address of
        Addr4 w \<Rightarrow> (let first = drop_bit 24 w in first \<noteq> 0 \<and> first < 224)
      | _ \<Rightarrow> True)"

section \<open>Configuration\<close>

record node =
  nd_name :: string
  nd_fqdn :: string
  nd_addresses :: "addr list"

record ServerAttempt =
  at_node :: node
  at_request :: request
  at_challenge :: challenge
  at_raw :: string
  at_verified :: bool
  at_closed :: bool

record Server =
  sv_config :: ServerConfig
  sv_nodes :: "(string, node) gmap"
  sv_active :: "(string, nat) gmap"
  sv_recent :: "(string, time list) gmap"
  sv_metrics :: "metricsRegistry option"
  sv_attempts :: "ServerAttempt list"

text \<open>The addresses accepted so far are also the ones seen.\<close>

fun add_addresses :: "string \<Rightarrow> string list \<Rightarrow> addr list \<Rightarrow> addr list result" where
  "add_addresses name [] seen = Ok seen"
| "add_addresses name (txt # rest) seen =
     (case parse_addr txt of
        None \<Rightarrow> Fail (''node '' @ name @ '' has an invalid pinned address'')
      | Some address \<Rightarrow>
          if \<not> validAddress address then Fail (''node '' @ name @ '' has an invalid pinned address'')
          else if address \<in> set seen then Fail ''duplicate pinned node address''
          else add_addresses name rest (seen @ [address]))"

fun add_nodes :: "(string \<times> NodePolicy) list \<Rightarrow> (string, node) gmap \<Rightarrow> (string, node) gmap result" where
  "add_nodes [] nodes = Ok nodes"
| "add_nodes ((name, policy) # rest) nodes =
     (if \<not> rx_match labelPattern name \<or> \<not> validFQDN (np_fqdn policy) \<or> np_addresses policy = []
      then Fail ''invalid node policy''
      else if gm_get nodes (np_fqdn policy) \<noteq> None then Fail ''duplicate node FQDN''
      else if length (np_addresses policy) > 16 then Fail ''too many node addresses''
      else case add_addresses name (np_addresses policy) [] of
        Inl e \<Rightarrow> Inl e
      | Inr addresses \<Rightarrow>
          add_nodes rest (gm_put (np_fqdn policy)
            \<lparr>nd_name = name, nd_fqdn = np_fqdn policy, nd_addresses = addresses\<rparr> nodes))"

definition NewServer :: "ServerConfig \<Rightarrow> Server result" where
  "NewServer config =
     (case validateMetricsAddress (sc_metrics_address config) of
        Inl e \<Rightarrow> Inl e
      | Inr _ \<Rightarrow>
          if \<not> sc_trust_http config
          then Fail ''HTTP attestation requires an explicitly trusted verification path''
          else if \<not> validFQDN (sc_trust_domain config) \<or> sc_port config < 1 \<or> sc_port config > 65535 \<or>
                  gm_len (sc_nodes config) = 0
          then Fail ''invalid server configuration''
          else case add_nodes (sc_nodes config) [] of
            Inl e \<Rightarrow> Inl e
          | Inr nodes \<Rightarrow>
              Ok \<lparr>sv_config = config, sv_nodes = nodes, sv_active = [], sv_recent = [],
                  sv_metrics = None, sv_attempts = []\<rparr>)"

section \<open>Begin\<close>

text \<open>
  \<open>ctx_err\<close> is the error of the caller's context, \<open>rand1\<close> and \<open>rand2\<close> what the two reads of random
  bytes give, \<open>now\<close> the server's clock. The attempt's own context ends at the challenge's expiry
  or with the caller's, and then calls \<^verbatim>\<open>Close\<close>: a step of the system below.
\<close>

definition Begin ::
  "Server \<Rightarrow> go_error option \<Rightarrow> string \<Rightarrow> string result \<Rightarrow> string result \<Rightarrow> time \<Rightarrow> nat result \<times> Server" where
  "Begin s ctx_err payload rand1 rand2 now =
     (case ctx_err of
        Some e \<Rightarrow> (observeError (Inl e) ''payload'' ''invalid_payload'', s)
      | None \<Rightarrow>
      (case decodeJSON dec_request zero_request payload of
        Inl e \<Rightarrow> (observeError (Inl e) ''payload'' ''invalid_payload'', s)
      | Inr request \<Rightarrow>
      if rq_version request \<noteq> 1
      then (observeError (Fail ''unsupported attestation version'') ''payload'' ''invalid_payload'', s)
      else (case gm_get (sv_nodes s) (rq_fqdn request) of
        None \<Rightarrow> (observeError (Fail ''FQDN is not authorized'') ''payload'' ''unknown_node'', s)
      | Some n \<Rightarrow>
      (case jwk_key (rq_jwk request) of
        Inl e \<Rightarrow> (observeError (Inl e) ''payload'' ''invalid_key'', s)
      | Inr _ \<Rightarrow>
      (case randomValue rand1 of
        Inl e \<Rightarrow> (observeError (Inl e) ''start'' ''internal'', s)
      | Inr cid \<Rightarrow>
      (case randomValue rand2 of
        Inl e \<Rightarrow> (observeError (Inl e) ''start'' ''internal'', s)
      | Inr nonce \<Rightarrow>
      if gm_len (sv_active s) \<ge> 32
      then (observeError (Fail ''attestation capacity reached'') ''start'' ''capacity'', s)
      else
        let c = \<lparr>ch_version = 1, ch_id = cid, ch_nonce = nonce, ch_fqdn = rq_fqdn request,
                 ch_trust_domain = sc_trust_domain (sv_config s),
                 ch_server_id = serverID (sc_trust_domain (sv_config s)),
                 ch_thumbprint = thumbprint (rq_jwk request),
                 ch_expires = unix_of (now + ChallengeTTL)\<rparr>;
            attempt = \<lparr>at_node = n, at_request = request, at_challenge = c,
                       at_raw = json_print (challenge_json c), at_verified = False, at_closed = False\<rparr>;
            a = length (sv_attempts s)
        in (Ok a,
            s\<lparr>sv_active := gm_put cid a (sv_active s),
              sv_metrics := map_option (pendingAdd (nd_name n) 1) (sv_metrics s),
              sv_attempts := sv_attempts s @ [attempt]\<rparr>)))))))"

section \<open>Fetching the proof\<close>

text \<open>
  A reply: its status, the bytes of its body, whether reading them ends in an error, and the
  \<^verbatim>\<open>Content-Encoding\<close> header.
\<close>

record http_reply =
  rp_status :: int
  rp_bytes :: string
  rp_broken :: bool
  rp_encoding :: string

record fetch_env =
  fe_ctx_err :: "nat \<Rightarrow> go_error option"
  fe_do :: "nat \<Rightarrow> string \<Rightarrow> string \<Rightarrow> http_reply option"

text \<open>\<^verbatim>\<open>io.ReadAll\<close> of a body limited to \<open>n\<close> bytes.\<close>

definition read_limited :: "nat \<Rightarrow> http_reply \<Rightarrow> string result" where
  "read_limited n r =
     (if length (rp_bytes r) \<ge> n then Ok (take n (rp_bytes r))
      else if rp_broken r then Inl (ErrLib ''read'')
      else Ok (rp_bytes r))"

definition accept_reply :: "http_reply \<Rightarrow> string result" where
  "accept_reply r =
     (case read_limited (MaxDocumentSize + 1) r of
        Inl e \<Rightarrow> Fail ''HTTP endpoint returned an invalid response''
      | Inr body \<Rightarrow>
          if rp_status r \<noteq> 200 \<or> length body > MaxDocumentSize \<or> rp_encoding r \<noteq> []
          then Fail ''HTTP endpoint returned an invalid response'' else Ok body)"

fun fetch_loop :: "fetch_env \<Rightarrow> int \<Rightarrow> string \<Rightarrow> nat \<Rightarrow> addr list \<Rightarrow> string result" where
  "fetch_loop env port url i [] = Fail ''HTTP endpoint unavailable''"
| "fetch_loop env port url i (address # rest) =
     (case fe_ctx_err env i of
        Some e \<Rightarrow> Inl e
      | None \<Rightarrow>
          (case fe_do env i (join_host_port (addr_string address) (itoa port)) url of
             None \<Rightarrow> fetch_loop env port url (Suc i) rest
           | Some reply \<Rightarrow> accept_reply reply))"

definition fetch_url :: "Server \<Rightarrow> ServerAttempt \<Rightarrow> string" where
  "fetch_url s at =
     ''http://'' @ join_host_port (nd_fqdn (at_node at)) (itoa (sc_port (sv_config s))) @
     PathPrefix @ ch_id (at_challenge at)"

definition fetch :: "fetch_env \<Rightarrow> Server \<Rightarrow> ServerAttempt \<Rightarrow> string result" where
  "fetch env s at =
     fetch_loop env (sc_port (sv_config s)) (fetch_url s at) 0 (nd_addresses (at_node at))"

section \<open>The quota\<close>

text \<open>
  The loop that filters a slice into its own backing array: \<open>i\<close> is the element being read, \<open>j\<close> the
  length of the slice being appended to.
\<close>

fun filter_in_place :: "('a \<Rightarrow> bool) \<Rightarrow> nat \<Rightarrow> nat \<Rightarrow> nat \<Rightarrow> 'a list \<Rightarrow> 'a list" where
  "filter_in_place P 0 i j xs = take j xs"
| "filter_in_place P (Suc k) i j xs =
     (if P (xs ! i) then filter_in_place P k (i + 1) (j + 1) (xs[j := xs ! i])
      else filter_in_place P k (i + 1) j xs)"

definition chargeSuccess :: "time \<Rightarrow> string \<Rightarrow> Server \<Rightarrow> unit result \<times> Server" where
  "chargeSuccess now name s =
     (let all = gm_get_or [] (sv_recent s) name;
          recent = filter_in_place (\<lambda>previous. previous > now + - seconds 60) (length all) 0 0 all in
      if length recent \<ge> 6
      then (Fail ''node attestation rate exceeded'', s\<lparr>sv_recent := gm_put name recent (sv_recent s)\<rparr>)
      else (Ok (), s\<lparr>sv_recent := gm_put name (recent @ [now]) (gm_put name recent (sv_recent s))\<rparr>))"

section \<open>Verify and Close\<close>

definition set_attempt :: "nat \<Rightarrow> (ServerAttempt \<Rightarrow> ServerAttempt) \<Rightarrow> Server \<Rightarrow> Server" where
  "set_attempt a f s = s\<lparr>sv_attempts := (sv_attempts s)[a := f (sv_attempts s ! a)]\<rparr>"

definition verify_claim :: "nat \<Rightarrow> Server \<Rightarrow> unit result \<times> Server" where
  "verify_claim a s =
     (let at = sv_attempts s ! a in
      if at_closed at \<or> at_verified at
      then (observeError (Fail ''attestation is not pending'') ''response'' ''session_ended'', s)
      else (Ok (), set_attempt a (at_verified_update (\<lambda>_. True)) s))"

definition verify_check ::
  "('sg, 'ob, 'z) jose_lib_scheme \<Rightarrow> fetch_env \<Rightarrow> nat \<Rightarrow> string \<Rightarrow> time \<Rightarrow> Server \<Rightarrow> string result" where
  "verify_check J env a response now s =
     (let at = sv_attempts s ! a in
      case decodeJSON dec_ready zero_ready response of
        Inl e \<Rightarrow> observeError (Inl e) ''response'' ''invalid_response''
      | Inr ready \<Rightarrow>
          if rd_version ready \<noteq> 1 \<or> rd_id ready \<noteq> ch_id (at_challenge at)
          then observeError (Fail ''unexpected challenge response'') ''response'' ''invalid_response''
          else if unix_of now \<ge> ch_expires (at_challenge at)
          then observeError (Fail ''challenge expired'') ''response'' ''expired''
          else case fetch env s at of
            Inl e \<Rightarrow> observeError (Inl e) ''fetch'' ''endpoint_failed''
          | Inr proof_bytes \<Rightarrow>
              (case verifyProof J proof_bytes (rq_jwk (at_request at)) of
                 Inl e \<Rightarrow> observeError (Inl e) ''verify'' ''invalid_proof''
               | Inr payload \<Rightarrow>
                   if payload \<noteq> at_raw at
                   then observeError (Fail ''proof is not for this attestation session'') ''verify'' ''invalid_proof''
                   else Ok proof_bytes))"

definition verify_result :: "Server \<Rightarrow> ServerAttempt \<Rightarrow> Result" where
  "verify_result s at =
     \<lparr>AgentID = ''spiffe://'' @ sc_trust_domain (sv_config s) @ ''/spire/agent/'' @ PluginName @ ''/'' @ nd_name (at_node at),
      SelectorValues = [''fqdn:'' @ nd_fqdn (at_node at)]\<rparr>"

definition verify_commit ::
  "nat \<Rightarrow> go_error option \<Rightarrow> time \<Rightarrow> time \<Rightarrow> Server \<Rightarrow> Result result \<times> Server" where
  "verify_commit a fetch_ctx_err now1 now2 s =
     (let at = sv_attempts s ! a in
      if at_closed at \<or> unix_of now1 \<ge> ch_expires (at_challenge at) \<or> fetch_ctx_err \<noteq> None
      then (observeError (Fail ''attestation session ended'') ''verify'' ''session_ended'', s)
      else case chargeSuccess now2 (nd_name (at_node at)) s of
        (Inl e, s') \<Rightarrow> (observeError (Inl e) ''quota'' ''rate_limit'', s')
      | (Inr _, s') \<Rightarrow> (Ok (verify_result s at), s'))"

text \<open>A call of \<^verbatim>\<open>Verify\<close> that nothing interrupts.\<close>

definition Verify ::
  "('sg, 'ob, 'z) jose_lib_scheme \<Rightarrow> fetch_env \<Rightarrow> nat \<Rightarrow> string \<Rightarrow> time \<Rightarrow> go_error option \<Rightarrow> time \<Rightarrow> time \<Rightarrow>
    Server \<Rightarrow> Result result \<times> Server" where
  "Verify J env a response now0 fetch_ctx_err now1 now2 s =
     (case verify_claim a s of
        (Inl e, s1) \<Rightarrow> (Inl e, s1)
      | (Inr _, s1) \<Rightarrow>
          (case verify_check J env a response now0 s1 of
             Inl e \<Rightarrow> (Inl e, s1)
           | Inr _ \<Rightarrow> verify_commit a fetch_ctx_err now1 now2 s1))"

text \<open>\<open>close_mark\<close> also says whether this call goes on to the second section.\<close>

definition close_mark :: "nat \<Rightarrow> Server \<Rightarrow> bool \<times> Server" where
  "close_mark a s =
     (if at_closed (sv_attempts s ! a) then (False, s)
      else (True, set_attempt a (at_closed_update (\<lambda>_. True)) s))"

definition close_remove :: "nat \<Rightarrow> Server \<Rightarrow> Server" where
  "close_remove a s =
     (let at = sv_attempts s ! a; cid = ch_id (at_challenge at) in
      if gm_get (sv_active s) cid = Some a
      then s\<lparr>sv_active := gm_del cid (sv_active s),
             sv_metrics := map_option (pendingAdd (nd_name (at_node at)) (- 1)) (sv_metrics s)\<rparr>
      else s)"

definition Close :: "nat \<Rightarrow> Server \<Rightarrow> Server" where
  "Close a s = (case close_mark a s of (False, s') \<Rightarrow> s' | (True, s') \<Rightarrow> close_remove a s')"

section \<open>What a configuration must satisfy\<close>

text \<open>An address may be pinned exactly when it is an IPv4 address whose first octet is 1 to 223
  and that is neither loopback nor link-local, or an IPv6 address without a zone that is neither
  unspecified, loopback, multicast, link-local nor an IPv4-mapped one.\<close>

theorem validAddress_iff:
  "validAddress a \<longleftrightarrow>
    (\<exists>w. a = Addr4 w \<and> drop_bit 24 w \<noteq> 0 \<and> drop_bit 24 w < 224 \<and> drop_bit 24 w \<noteq> 127 \<and> drop_bit 16 w \<noteq> 0xA9FE) \<or>
    (\<exists>w. a = Addr6 w [] \<and> w \<noteq> 0 \<and> w \<noteq> 1 \<and> drop_bit 120 w \<noteq> 0xFF \<and>
       drop_bit 112 w AND 0xFFC0 \<noteq> 0xFE80 \<and> drop_bit 32 w \<noteq> 0xFFFF)"
proof (cases a)
  case (Addr4 w)
  have "drop_bit 24 w AND 0xF0 \<noteq> 0xE0" if "drop_bit 24 w < 224"
  proof
    assume "drop_bit 24 w AND 0xF0 = (0xE0 :: 32 word)"
    then have "(0xE0 :: 32 word) \<le> drop_bit 24 w" by (metis word_and_le2)
    with that show False by simp
  qed
  moreover have "w \<noteq> 0xFFFFFFFF" if "drop_bit 24 w < 224" using that by auto
  moreover have "w \<noteq> 0" if "drop_bit 24 w \<noteq> 0" using that by auto
  ultimately show ?thesis using Addr4
    by (auto simp: validAddress_def addr_is_valid_def addr_zone_def addr_is4in6_def
        addr_is_global_unicast_def addr_is_loopback_def addr_is_multicast_def addr_is_link_local_def
        addr_unmap_def Let_def)
next
  case (Addr6 w z)
  then show ?thesis
    by (auto simp: validAddress_def addr_is_valid_def addr_zone_def addr_is4in6_def
        addr_is_global_unicast_def addr_is_loopback_def addr_is_multicast_def addr_is_link_local_def
        addr_unmap_def)
qed (simp add: validAddress_def addr_is_valid_def)

definition address_ok :: "string \<Rightarrow> bool" where
  "address_ok t = (case parse_addr t of None \<Rightarrow> False | Some a \<Rightarrow> validAddress a)"

definition policy_ok :: "string \<Rightarrow> NodePolicy \<Rightarrow> bool" where
  "policy_ok name policy =
     (valid_label name \<and> validFQDN (np_fqdn policy) \<and>
      1 \<le> length (np_addresses policy) \<and> length (np_addresses policy) \<le> 16 \<and>
      list_all address_ok (np_addresses policy) \<and>
      distinct (map parse_addr (np_addresses policy)))"

definition node_of :: "string \<Rightarrow> NodePolicy \<Rightarrow> node" where
  "node_of name policy = \<lparr>nd_name = name, nd_fqdn = np_fqdn policy,
     nd_addresses = map (the \<circ> parse_addr) (np_addresses policy)\<rparr>"

lemma add_addresses_iff:
  "add_addresses name ts seen = Ok r \<longleftrightarrow>
    list_all address_ok ts \<and> distinct (map parse_addr ts) \<and>
    set (map parse_addr ts) \<inter> Some ` set seen = {} \<and> r = seen @ map (the \<circ> parse_addr) ts"
proof (induction ts arbitrary: seen)
  case (Cons t ts)
  show ?case
  proof (cases "parse_addr t")
    case (Some a)
    with Cons.IH [of "seen @ [a]"] show ?thesis by (auto simp: address_ok_def)
  qed (simp add: address_ok_def)
qed auto

lemma add_nodes_Ok:
  "add_nodes ps nodes = Ok r \<longleftrightarrow>
    (\<forall>(name, policy) \<in> set ps. policy_ok name policy \<and> gm_get nodes (np_fqdn policy) = None) \<and>
    distinct (map (np_fqdn \<circ> snd) ps) \<and>
    r = foldl (\<lambda>m (name, policy). gm_put (np_fqdn policy) (node_of name policy) m) nodes ps"
proof (induction ps arbitrary: nodes)
  case (Cons p ps)
  obtain name policy where p: "p = (name, policy)" by fastforce
  let ?nodes = "gm_put (np_fqdn policy) (node_of name policy) nodes"
  have absent: "(\<forall>(n, q) \<in> set ps. policy_ok n q \<and> gm_get ?nodes (np_fqdn q) = None) \<longleftrightarrow>
      (\<forall>(n, q) \<in> set ps. policy_ok n q \<and> gm_get nodes (np_fqdn q) = None) \<and>
      np_fqdn policy \<notin> (np_fqdn \<circ> snd) ` set ps"
    by (simp add: image_iff split_beta) metis
  have a: "add_addresses name (np_addresses policy) [] = Ok r \<longleftrightarrow>
      list_all address_ok (np_addresses policy) \<and> distinct (map parse_addr (np_addresses policy)) \<and>
      r = map (the \<circ> parse_addr) (np_addresses policy)" for r
    by (simp add: add_addresses_iff)
  have "add_nodes (p # ps) nodes = Ok r \<longleftrightarrow>
    policy_ok name policy \<and> gm_get nodes (np_fqdn policy) = None \<and> add_nodes ps ?nodes = Ok r"
  proof (cases "add_addresses name (np_addresses policy) []")
    case (Inl e)
    with a [of "map (the \<circ> parse_addr) (np_addresses policy)"] show ?thesis
      by (auto simp: p policy_ok_def)
  next
    case (Inr as)
    with a [of as] show ?thesis
      by (auto simp: p policy_ok_def labelPattern_iff node_of_def Suc_le_eq)
  qed
  also have "\<dots> \<longleftrightarrow> (\<forall>(name, policy) \<in> set (p # ps). policy_ok name policy \<and> gm_get nodes (np_fqdn policy) = None) \<and>
    distinct (map (np_fqdn \<circ> snd) (p # ps)) \<and>
    r = foldl (\<lambda>m (name, policy). gm_put (np_fqdn policy) (node_of name policy) m) nodes (p # ps)"
    unfolding Cons.IH p absent by auto
  finally show ?case .
qed auto

definition config_ok :: "ServerConfig \<Rightarrow> bool" where
  "config_ok config =
     ((sc_metrics_address config = [] \<or> loopback_literal (sc_metrics_address config)) \<and>
      sc_trust_http config \<and> validFQDN (sc_trust_domain config) \<and>
      1 \<le> sc_port config \<and> sc_port config \<le> 65535 \<and> sc_nodes config \<noteq> [] \<and>
      (\<forall>(name, policy) \<in> set (sc_nodes config). policy_ok name policy) \<and>
      distinct (map (np_fqdn \<circ> snd) (sc_nodes config)))"

definition initial_server :: "ServerConfig \<Rightarrow> Server" where
  "initial_server config =
     \<lparr>sv_config = config,
      sv_nodes = foldl (\<lambda>m (name, policy). gm_put (np_fqdn policy) (node_of name policy) m) [] (sc_nodes config),
      sv_active = [], sv_recent = [], sv_metrics = None, sv_attempts = []\<rparr>"

lemma NewServer_Ok: "NewServer config = Ok s \<longleftrightarrow> config_ok config \<and> s = initial_server config"
proof -
  have m: "is_ok (validateMetricsAddress (sc_metrics_address config)) \<longleftrightarrow>
      sc_metrics_address config = [] \<or> loopback_literal (sc_metrics_address config)"
    by (simp add: is_ok_iff validateMetricsAddress_iff)
  have "add_nodes (sc_nodes config) [] = Ok r \<longleftrightarrow>
      (\<forall>(name, policy) \<in> set (sc_nodes config). policy_ok name policy) \<and>
      distinct (map (np_fqdn \<circ> snd) (sc_nodes config)) \<and> r = sv_nodes (initial_server config)" for r
    by (simp add: add_nodes_Ok initial_server_def)
  note n = this [of "sv_nodes (initial_server config)"] this
  show ?thesis
  proof (cases "add_nodes (sc_nodes config) []")
    case (Inl e)
    with m n(1) show ?thesis
      by (auto simp: NewServer_def config_ok_def split: sum.splits)
  next
    case (Inr nodes)
    with m n(2) [of nodes] show ?thesis
      by (auto simp: NewServer_def config_ok_def initial_server_def gm_len_length split: sum.splits)
  qed
qed

text \<open>C31. A server is created exactly for a configuration with an explicitly trusted transport, a
  loopback (or no) metrics address, a valid trust domain and port, and at least one node, where
  every node has a valid name and FQDN, 1 to 16 distinct pinnable addresses, and no two nodes
  share an FQDN. The order in which the map of nodes is visited does not matter.\<close>

theorem NewServer_exact: "is_ok (NewServer config) \<longleftrightarrow> config_ok config"
  by (simp add: is_ok_iff NewServer_Ok)

lemma nodes_lookup:
  "distinct (map (np_fqdn \<circ> snd) ps) \<Longrightarrow>
    gm_get (foldl (\<lambda>m (name, policy). gm_put (np_fqdn policy) (node_of name policy) m) m ps) f =
      (case find (\<lambda>p. np_fqdn (snd p) = f) ps of
         Some (name, policy) \<Rightarrow> Some (node_of name policy) | None \<Rightarrow> gm_get m f)"
proof (induction ps arbitrary: m)
  case (Cons p ps)
  obtain name policy where p: "p = (name, policy)" by fastforce
  show ?case
  proof (cases "np_fqdn policy = f")
    case True
    then have "find (\<lambda>p. np_fqdn (snd p) = f) ps = None"
      using Cons.prems by (force simp: find_None_iff p)
    with True Cons show ?thesis by (simp add: p)
  next
    case False
    with Cons show ?thesis by (auto simp: p split: option.splits)
  qed
qed simp

text \<open>The node a name leads to is built from a configured policy for exactly that name.\<close>

lemma initial_nodes:
  assumes "config_ok config" "gm_get (sv_nodes (initial_server config)) f = Some n"
  shows "\<exists>name policy. (name, policy) \<in> set (sc_nodes config) \<and> np_fqdn policy = f \<and>
    n = node_of name policy \<and> policy_ok name policy"
proof -
  from assms have "distinct (map (np_fqdn \<circ> snd) (sc_nodes config))" by (simp add: config_ok_def)
  with assms(2) obtain name policy where
    f: "find (\<lambda>p. np_fqdn (snd p) = f) (sc_nodes config) = Some (name, policy)" "n = node_of name policy"
    by (auto simp: initial_server_def nodes_lookup split: option.splits)
  then have "(name, policy) \<in> set (sc_nodes config)" "np_fqdn policy = f"
    by (auto simp: find_Some_iff in_set_conv_nth) (metis snd_conv)
  moreover from this(1) assms(1) have "policy_ok name policy" by (auto simp: config_ok_def)
  ultimately show ?thesis using f by blast
qed

lemma policy_ok_addresses: "policy_ok name policy \<Longrightarrow> list_all validAddress (nd_addresses (node_of name policy))"
  by (auto simp: policy_ok_def node_of_def list_all_iff address_ok_def split: option.splits)

section \<open>The quota is a filter\<close>

lemma filter_in_place_inv:
  "i + k = length xs \<Longrightarrow> j \<le> i \<Longrightarrow>
    filter_in_place P k i j xs = take j xs @ filter P (drop i xs)"
proof (induction k arbitrary: i j xs)
  case (Suc k)
  then have i: "i < length xs" by simp
  have d: "drop i xs = xs ! i # drop (Suc i) xs" using i by (simp add: Cons_nth_drop_Suc)
  show ?case
  proof (cases "P (xs ! i)")
    case True
    have "filter_in_place P k (i + 1) (j + 1) (xs[j := xs ! i]) =
        take (j + 1) (xs[j := xs ! i]) @ filter P (drop (i + 1) (xs[j := xs ! i]))"
      using Suc.prems by (intro Suc.IH) simp_all
    also have "\<dots> = (take j xs @ [xs ! i]) @ filter P (drop (Suc i) xs)"
      using Suc.prems i by (simp add: take_Suc_conv_app_nth drop_update_cancel)
    finally show ?thesis using True d by simp
  next
    case False
    with Suc d show ?thesis by simp
  qed
qed simp

lemma chargeSuccess_cases:
  assumes "chargeSuccess now name s = (r, s')"
  defines "recent \<equiv> filter (\<lambda>t. t > now - seconds 60) (gm_get_or [] (sv_recent s) name)"
  shows "(r = Fail ''node attestation rate exceeded'' \<and> 6 \<le> length recent \<and>
      s' = s\<lparr>sv_recent := gm_put name recent (sv_recent s)\<rparr>) \<or>
    (r = Ok () \<and> length recent < 6 \<and>
      s' = s\<lparr>sv_recent := gm_put name (recent @ [now]) (gm_put name recent (sv_recent s))\<rparr>)"
  using assms(1) unfolding recent_def
  by (auto simp: chargeSuccess_def Let_def filter_in_place_inv split: if_splits)

section \<open>Fetching reaches pinned addresses only\<close>

definition fetch_targets :: "Server \<Rightarrow> ServerAttempt \<Rightarrow> string list" where
  "fetch_targets s at =
     map (\<lambda>a. join_host_port (addr_string a) (itoa (sc_port (sv_config s)))) (nd_addresses (at_node at))"

lemma fetch_loop_agree:
  assumes "\<And>i t. t \<in> set (map (\<lambda>a. join_host_port (addr_string a) (itoa port)) as) \<Longrightarrow> fe_do e1 i t url = fe_do e2 i t url"
    and "fe_ctx_err e1 = fe_ctx_err e2"
  shows "fetch_loop e1 port url i as = fetch_loop e2 port url i as"
  using assms by (induction as arbitrary: i) (auto split: option.splits)

lemma fetch_loop_Ok:
  "fetch_loop env port url i as = Ok body \<Longrightarrow>
    \<exists>k reply. k < length as \<and> fe_do env (i + k) (join_host_port (addr_string (as ! k)) (itoa port)) url = Some reply \<and>
      accept_reply reply = Ok body \<and>
      (\<forall>j<k. fe_do env (i + j) (join_host_port (addr_string (as ! j)) (itoa port)) url = None)"
proof (induction as arbitrary: i)
  case (Cons a as)
  show ?case
  proof (cases "fe_do env i (join_host_port (addr_string a) (itoa port)) url")
    case None
    with Cons.prems have "fetch_loop env port url (Suc i) as = Ok body" by (auto split: option.splits)
    then obtain k reply where k: "k < length as"
      "fe_do env (Suc i + k) (join_host_port (addr_string (as ! k)) (itoa port)) url = Some reply"
      "accept_reply reply = Ok body"
      "\<forall>j<k. fe_do env (Suc i + j) (join_host_port (addr_string (as ! j)) (itoa port)) url = None"
      using Cons.IH by blast
    with None have "\<forall>j<Suc k. fe_do env (i + j) (join_host_port (addr_string ((a # as) ! j)) (itoa port)) url = None"
      by (auto simp: less_Suc_eq_0_disj)
    with k show ?thesis by (intro exI [of _ "Suc k"] exI [of _ reply]) simp
  next
    case (Some reply)
    with Cons.prems show ?thesis
      by (intro exI [of _ 0] exI [of _ reply]) (auto split: option.splits)
  qed
qed simp

lemma accept_reply_Ok:
  "accept_reply r = Ok body \<longleftrightarrow>
    rp_status r = 200 \<and> rp_encoding r = [] \<and> \<not> rp_broken r \<and> body = rp_bytes r \<and> length body \<le> MaxDocumentSize"
  by (auto simp: accept_reply_def read_limited_def split: if_splits)

text \<open>C18. A fetch talks only to the attempt's pinned addresses: networks that answer alike there give
  the same outcome, so no name lookup can redirect it. A body it returns is the complete,
  unencoded body of at most 8192 bytes of a 200 reply from the first pinned address that answered.\<close>

theorem fetch_pinned:
  assumes "\<And>i t. t \<in> set (fetch_targets s at) \<Longrightarrow> fe_do e1 i t (fetch_url s at) = fe_do e2 i t (fetch_url s at)"
    and "fe_ctx_err e1 = fe_ctx_err e2"
  shows "fetch e1 s at = fetch e2 s at \<and>
    (\<forall>body. fetch e1 s at = Ok body \<longrightarrow>
      (\<exists>k reply. k < length (nd_addresses (at_node at)) \<and>
         fe_do e1 k (fetch_targets s at ! k) (fetch_url s at) = Some reply \<and>
         (\<forall>j<k. fe_do e1 j (fetch_targets s at ! j) (fetch_url s at) = None) \<and>
         rp_status reply = 200 \<and> rp_encoding reply = [] \<and> \<not> rp_broken reply \<and>
         body = rp_bytes reply \<and> length body \<le> MaxDocumentSize))"
proof (intro conjI allI impI)
  show "fetch e1 s at = fetch e2 s at"
    unfolding fetch_def using assms by (intro fetch_loop_agree) (simp_all add: fetch_targets_def)
next
  fix body assume "fetch e1 s at = Ok body"
  from fetch_loop_Ok [OF this [unfolded fetch_def]] obtain k reply where
    k: "k < length (nd_addresses (at_node at))" and r: "accept_reply reply = Ok body"
    and hit: "fe_do e1 k (join_host_port (addr_string (nd_addresses (at_node at) ! k))
      (itoa (sc_port (sv_config s)))) (fetch_url s at) = Some reply"
    and miss: "\<forall>j<k. fe_do e1 j (join_host_port (addr_string (nd_addresses (at_node at) ! j))
      (itoa (sc_port (sv_config s)))) (fetch_url s at) = None"
    by auto
  from k hit miss r show "\<exists>k reply. k < length (nd_addresses (at_node at)) \<and>
         fe_do e1 k (fetch_targets s at ! k) (fetch_url s at) = Some reply \<and>
         (\<forall>j<k. fe_do e1 j (fetch_targets s at ! j) (fetch_url s at) = None) \<and>
         rp_status reply = 200 \<and> rp_encoding reply = [] \<and> \<not> rp_broken reply \<and>
         body = rp_bytes reply \<and> length body \<le> MaxDocumentSize"
    by (intro exI [of _ k] exI [of _ reply]) (auto simp: fetch_targets_def accept_reply_Ok)
qed

definition ex_node :: node where
  "ex_node = \<lparr>nd_name = ''alpha'', nd_fqdn = ''node.example'', nd_addresses = [Addr4 0x0A000001, Addr4 0x0A000002]\<rparr>"

definition ex_config :: ServerConfig where
  "ex_config = \<lparr>sc_trust_domain = ''realm.example'',
     sc_nodes = [(''alpha'', \<lparr>np_fqdn = ''node.example'', np_addresses = [''10.0.0.1'', ''10.0.0.2'']\<rparr>)],
     sc_port = 18091, sc_trust_http = True, sc_metrics_address = []\<rparr>"

definition ex_request :: request where
  "ex_request = \<lparr>rq_version = 1, rq_fqdn = ''node.example'', rq_jwk = jwkFor (public_of ex_key)\<rparr>"

definition ex_attempt :: ServerAttempt where
  "ex_attempt = \<lparr>at_node = ex_node, at_request = ex_request, at_challenge = ex_challenge,
     at_raw = json_print (challenge_json ex_challenge), at_verified = False, at_closed = False\<rparr>"

text \<open>A network in which the first pinned address does not answer and the second serves a body.\<close>

definition ex_env :: "string \<Rightarrow> fetch_env" where
  "ex_env body = \<lparr>fe_ctx_err = (\<lambda>_. None),
     fe_do = (\<lambda>i target url. if target = ''10.0.0.2:18091''
        then Some \<lparr>rp_status = 200, rp_bytes = body, rp_broken = False, rp_encoding = []\<rparr> else None)\<rparr>"

lemma ex_config_ok: "config_ok ex_config"
proof -
  have "is_ok (NewServer ex_config)" by code_simp
  then show ?thesis by (simp add: is_ok_iff NewServer_Ok)
qed

lemma ex_targets: "addr_string (Addr4 0x0A000001) = ''10.0.0.1''" "addr_string (Addr4 0x0A000002) = ''10.0.0.2''"
  "itoa 18091 = ''18091''"
    apply code_simp
   apply code_simp
  by (simp add: itoa_def show_nat.simps digit_char_literals)

lemma ex_fetch:
  assumes "length body \<le> MaxDocumentSize" "sv_config s = ex_config" "at_node at = ex_node"
  shows "fetch (ex_env body) s at = Ok body"
  using assms by (simp add: fetch_def ex_node_def ex_config_def ex_env_def ex_targets join_host_port_def
      accept_reply_def read_limited_def)

theorem fetch_pinned_witness:
  "fetch (ex_env ''ok'') (initial_server ex_config) ex_attempt = fetch (ex_env ''ok'') (initial_server ex_config) ex_attempt \<and>
   (\<exists>k reply. k < 2 \<and> fe_do (ex_env ''ok'') k (fetch_targets (initial_server ex_config) ex_attempt ! k)
      (fetch_url (initial_server ex_config) ex_attempt) = Some reply \<and> rp_bytes reply = ''ok'')"
proof -
  have "fetch (ex_env ''ok'') (initial_server ex_config) ex_attempt = Ok ''ok''"
    by (rule ex_fetch) (simp_all add: MaxDocumentSize_def initial_server_def ex_attempt_def)
  moreover have "length (nd_addresses (at_node ex_attempt)) = 2" by (simp add: ex_attempt_def ex_node_def)
  ultimately show ?thesis
    using fetch_pinned [of "initial_server ex_config" ex_attempt "ex_env ''ok''" "ex_env ''ok''"] by metis
qed

end
