(* ===== verification/Attest_Server_Runs.thy ===== *)
theory Attest_Server_Runs
  imports Attest_Server
begin

text \<open>
  Runs of the attestation server: goroutines call \<^verbatim>\<open>Begin\<close>, \<^verbatim>\<open>Verify\<close> and \<^verbatim>\<open>Close\<close> on shared attempts, and
  the critical sections of those calls interleave in any order. The state of a run is the server,
  the calls that are between two sections, the clock, and a log of the results granted (which no
  code reads). The invariants are proved once per step; the properties hold in every reachable
  state.
\<close>

section \<open>Steps\<close>

datatype verify_call = Claimed string | Checked string

record grant =
  gr_attempt :: nat
  gr_name :: string
  gr_checked :: time
  gr_time :: time
  gr_result :: Result
  gr_proof :: string

record system =
  sy_server :: Server
  sy_verifying :: "(nat \<times> verify_call) list"
  sy_closing :: "nat list"
  sy_now :: time
  sy_grants :: "grant list"

text \<open>
  A step reads a clock that does not run backwards. \<open>sys_begin\<close> asks of the random source that it
  fills its 32-byte buffer and does not repeat an identifier that is still in use. The last section of
  \<^verbatim>\<open>Verify\<close> reads the clock before it waits for the server's lock, and other calls may run in between: it takes effect at
  the charge, and the first of its two readings may lie before steps that are already done.
\<close>

inductive sys_step :: "('sg, 'ob, 'z) jose_lib_scheme \<Rightarrow> system \<Rightarrow> system \<Rightarrow> bool"
  for J :: "('sg, 'ob, 'z) jose_lib_scheme" where
  sys_begin:
    "Begin (sy_server y) ctx_err payload rand1 rand2 now = (r, s') \<Longrightarrow> sy_now y \<le> now \<Longrightarrow>
     (\<And>v. rand1 = Ok v \<Longrightarrow> length v = 32 \<and> gm_get (sv_active (sy_server y)) (b64_encode v) = None) \<Longrightarrow>
     (\<And>v. rand2 = Ok v \<Longrightarrow> length v = 32) \<Longrightarrow>
     sys_step J y (y\<lparr>sy_server := s', sy_now := now\<rparr>)"
| sys_claim:
    "a < length (sv_attempts (sy_server y)) \<Longrightarrow> verify_claim a (sy_server y) = (Ok (), s') \<Longrightarrow>
     sys_step J y (y\<lparr>sy_server := s', sy_verifying := (a, Claimed response) # sy_verifying y\<rparr>)"
| sys_refused:
    "a < length (sv_attempts (sy_server y)) \<Longrightarrow> verify_claim a (sy_server y) = (Inl e, s') \<Longrightarrow>
     sys_step J y (y\<lparr>sy_server := s'\<rparr>)"
| sys_check:
    "sy_verifying y = us @ (a, Claimed response) # vs \<Longrightarrow> sy_now y \<le> now \<Longrightarrow>
     verify_check J env a response now (sy_server y) = Ok pf \<Longrightarrow>
     sys_step J y (y\<lparr>sy_verifying := us @ (a, Checked pf) # vs, sy_now := now\<rparr>)"
| sys_reject:
    "sy_verifying y = us @ (a, Claimed response) # vs \<Longrightarrow> sy_now y \<le> now \<Longrightarrow>
     verify_check J env a response now (sy_server y) = Inl e \<Longrightarrow>
     sys_step J y (y\<lparr>sy_verifying := us @ vs, sy_now := now\<rparr>)"
| sys_grant:
    "sy_verifying y = us @ (a, Checked pf) # vs \<Longrightarrow> now1 \<le> now2 \<Longrightarrow> sy_now y \<le> now2 \<Longrightarrow>
     verify_commit a ctx_err now1 now2 (sy_server y) = (Ok res, s') \<Longrightarrow>
     sys_step J y (y\<lparr>sy_server := s', sy_verifying := us @ vs, sy_now := now2,
       sy_grants := sy_grants y @
         [\<lparr>gr_attempt = a, gr_name = nd_name (at_node (sv_attempts (sy_server y) ! a)),
           gr_checked = now1, gr_time = now2, gr_result = res, gr_proof = pf\<rparr>]\<rparr>)"
| sys_deny:
    "sy_verifying y = us @ (a, Checked pf) # vs \<Longrightarrow> now1 \<le> now2 \<Longrightarrow> sy_now y \<le> now2 \<Longrightarrow>
     verify_commit a ctx_err now1 now2 (sy_server y) = (Inl e, s') \<Longrightarrow>
     sys_step J y (y\<lparr>sy_server := s', sy_verifying := us @ vs, sy_now := now2\<rparr>)"
| sys_close:
    "a < length (sv_attempts (sy_server y)) \<Longrightarrow> close_mark a (sy_server y) = (goes_on, s') \<Longrightarrow>
     sys_step J y (y\<lparr>sy_server := s', sy_closing := (if goes_on then a # sy_closing y else sy_closing y)\<rparr>)"
| sys_remove:
    "sy_closing y = us @ a # vs \<Longrightarrow>
     sys_step J y (y\<lparr>sy_server := close_remove a (sy_server y), sy_closing := us @ vs\<rparr>)"

definition sys_start :: "ServerConfig \<Rightarrow> metricsRegistry option \<Rightarrow> time \<Rightarrow> system" where
  "sys_start config m now =
     \<lparr>sy_server = (initial_server config)\<lparr>sv_metrics := m\<rparr>, sy_verifying = [], sy_closing = [],
      sy_now = now, sy_grants = []\<rparr>"

definition sys_reachable ::
  "('sg, 'ob, 'z) jose_lib_scheme \<Rightarrow> ServerConfig \<Rightarrow> metricsRegistry option \<Rightarrow> system \<Rightarrow> bool" where
  "sys_reachable J config m y =
     (config_ok config \<and> (\<exists>now. (sys_step J)\<^sup>*\<^sup>* (sys_start config m now) y))"

lemma reachable_invariant:
  assumes "sys_reachable J config m y"
    and "\<And>now. config_ok config \<Longrightarrow> I (sys_start config m now)"
    and "\<And>y y'. I y \<Longrightarrow> sys_step J y y' \<Longrightarrow> I y'"
  shows "I y"
proof -
  from assms(1) obtain now where "config_ok config" "(sys_step J)\<^sup>*\<^sup>* (sys_start config m now) y"
    by (auto simp: sys_reachable_def)
  from this(2) show ?thesis
    by (induction rule: rtranclp_induct) (use \<open>config_ok config\<close> assms(2,3) in auto)
qed

section \<open>What the operations do to an attempt\<close>

text \<open>The part of an attempt that is fixed when it is created.\<close>

definition at_core :: "ServerAttempt \<Rightarrow> node \<times> request \<times> challenge \<times> string" where
  "at_core at = (at_node at, at_request at, at_challenge at, at_raw at)"

definition begun :: "Server \<Rightarrow> request \<Rightarrow> node \<Rightarrow> string \<Rightarrow> string \<Rightarrow> time \<Rightarrow> ServerAttempt" where
  "begun s request n cid nonce now =
     (let c = \<lparr>ch_version = 1, ch_id = cid, ch_nonce = nonce, ch_fqdn = rq_fqdn request,
               ch_trust_domain = sc_trust_domain (sv_config s),
               ch_server_id = serverID (sc_trust_domain (sv_config s)),
               ch_thumbprint = thumbprint (rq_jwk request), ch_expires = unix_of now + 120\<rparr>
      in \<lparr>at_node = n, at_request = request, at_challenge = c,
          at_raw = json_print (challenge_json c), at_verified = False, at_closed = False\<rparr>)"

lemma unix_of_ttl: "unix_of (now + ChallengeTTL) = unix_of now + 120"
  using unix_of_add_seconds [of now 120] by (simp add: ChallengeTTL_def)

lemma Begin_Ok:
  assumes "Begin s ctx_err payload rand1 rand2 now = (Ok a, s')"
  obtains request n b1 b2 where
    "ctx_err = None" "decodeJSON dec_request zero_request payload = Ok request" "rq_version request = 1"
    "gm_get (sv_nodes s) (rq_fqdn request) = Some n" "is_ok (jwk_key (rq_jwk request))"
    "rand1 = Ok b1" "rand2 = Ok b2" "gm_len (sv_active s) < 32" "a = length (sv_attempts s)"
    "s' = s\<lparr>sv_active := gm_put (b64_encode b1) a (sv_active s),
            sv_metrics := map_option (pendingAdd (nd_name n) 1) (sv_metrics s),
            sv_attempts := sv_attempts s @ [begun s request n (b64_encode b1) (b64_encode b2) now]\<rparr>"
  using assms
  by (auto simp: Begin_def Let_def observeError_def randomValue_def begun_def unix_of_ttl
      split: option.splits sum.splits if_splits)

lemma Begin_error: "Begin s ctx_err payload rand1 rand2 now = (Inl e, s') \<Longrightarrow> s' = s"
  by (auto simp: Begin_def Let_def observeError_def split: option.splits sum.splits if_splits)

lemma set_attempt_simps [simp]:
  "sv_config (set_attempt a f s) = sv_config s" "sv_nodes (set_attempt a f s) = sv_nodes s"
  "sv_active (set_attempt a f s) = sv_active s" "sv_recent (set_attempt a f s) = sv_recent s"
  "sv_metrics (set_attempt a f s) = sv_metrics s"
  "length (sv_attempts (set_attempt a f s)) = length (sv_attempts s)"
  by (simp_all add: set_attempt_def)

lemma set_attempt_nth:
  "b < length (sv_attempts s) \<Longrightarrow>
    sv_attempts (set_attempt a f s) ! b = (if b = a then f (sv_attempts s ! a) else sv_attempts s ! b)"
  by (auto simp: set_attempt_def nth_list_update)

text \<open>Each operation leaves the configuration, the nodes and the cores of the attempts alone, except
  that \<^verbatim>\<open>Begin\<close> adds an attempt; it never clears a flag.\<close>

definition extends :: "Server \<Rightarrow> Server \<Rightarrow> bool" where
  "extends s s' =
     (sv_config s' = sv_config s \<and> sv_nodes s' = sv_nodes s \<and>
      length (sv_attempts s) \<le> length (sv_attempts s') \<and>
      (\<forall>a < length (sv_attempts s).
         at_core (sv_attempts s' ! a) = at_core (sv_attempts s ! a) \<and>
         (at_verified (sv_attempts s ! a) \<longrightarrow> at_verified (sv_attempts s' ! a)) \<and>
         (at_closed (sv_attempts s ! a) \<longrightarrow> at_closed (sv_attempts s' ! a))))"

lemma extends_refl [simp]: "extends s s"
  by (simp add: extends_def)

lemma extends_same: "sv_config s' = sv_config s \<Longrightarrow> sv_nodes s' = sv_nodes s \<Longrightarrow>
    sv_attempts s' = sv_attempts s \<Longrightarrow> extends s s'"
  by (simp add: extends_def)

lemma extends_set_attempt:
  assumes "\<And>at. at_core (f at) = at_core at" "\<And>at. at_verified at \<Longrightarrow> at_verified (f at)"
    "\<And>at. at_closed at \<Longrightarrow> at_closed (f at)"
  shows "extends s (set_attempt a f s)"
  using assms by (simp add: extends_def set_attempt_nth)

lemma extends_begin:
  "Begin s ctx_err payload rand1 rand2 now = (r, s') \<Longrightarrow> extends s s'"
  by (cases r) (auto dest!: Begin_error elim!: Begin_Ok simp: extends_def nth_append)

lemma chargeSuccess_frame:
  "chargeSuccess now name s = (r, s') \<Longrightarrow>
    sv_config s' = sv_config s \<and> sv_nodes s' = sv_nodes s \<and> sv_attempts s' = sv_attempts s \<and>
    sv_active s' = sv_active s \<and> sv_metrics s' = sv_metrics s"
  by (drule chargeSuccess_cases) auto

lemma verify_commit_Ok:
  assumes "verify_commit a ctx_err now1 now2 s = (Ok res, s')"
  shows "\<not> at_closed (sv_attempts s ! a)" "unix_of now1 < ch_expires (at_challenge (sv_attempts s ! a))"
    "ctx_err = None" "res = verify_result s (sv_attempts s ! a)"
    "chargeSuccess now2 (nd_name (at_node (sv_attempts s ! a))) s = (Ok (), s')"
  using assms by (auto simp: verify_commit_def Let_def observeError_def split: if_splits prod.splits sum.splits)

lemma verify_commit_error:
  assumes "verify_commit a ctx_err now1 now2 s = (Inl e, s')"
  shows "s' = s \<or> (\<exists>e'. chargeSuccess now2 (nd_name (at_node (sv_attempts s ! a))) s = (Inl e', s'))"
  using assms by (auto simp: verify_commit_def Let_def observeError_def split: if_splits prod.splits sum.splits)

lemma verify_commit_frame:
  assumes "verify_commit a ctx_err now1 now2 s = (r, s')"
  shows "sv_config s' = sv_config s \<and> sv_nodes s' = sv_nodes s \<and> sv_attempts s' = sv_attempts s \<and>
    sv_active s' = sv_active s \<and> sv_metrics s' = sv_metrics s"
  using assms by (cases r) (auto dest!: verify_commit_Ok(5) verify_commit_error chargeSuccess_frame)

lemma verify_claim_Ok:
  "verify_claim a s = (Ok (), s') \<Longrightarrow>
    \<not> at_closed (sv_attempts s ! a) \<and> \<not> at_verified (sv_attempts s ! a) \<and>
    s' = set_attempt a (at_verified_update (\<lambda>_. True)) s"
  by (auto simp: verify_claim_def Let_def observeError_def split: if_splits)

lemma verify_claim_error: "verify_claim a s = (Inl e, s') \<Longrightarrow> s' = s"
  by (auto simp: verify_claim_def Let_def observeError_def split: if_splits)

lemma close_mark_cases:
  "close_mark a s = (m, s') \<Longrightarrow>
    (at_closed (sv_attempts s ! a) \<and> \<not> m \<and> s' = s) \<or>
    (\<not> at_closed (sv_attempts s ! a) \<and> m \<and> s' = set_attempt a (at_closed_update (\<lambda>_. True)) s)"
  by (auto simp: close_mark_def split: if_splits)

lemma close_remove_frame:
  "sv_config (close_remove a s) = sv_config s \<and> sv_nodes (close_remove a s) = sv_nodes s \<and>
   sv_attempts (close_remove a s) = sv_attempts s \<and> sv_recent (close_remove a s) = sv_recent s"
  by (simp add: close_remove_def Let_def)

lemma flag_updates [simp]:
  "at_core (at\<lparr>at_verified := v\<rparr>) = at_core at" "at_core (at\<lparr>at_closed := v\<rparr>) = at_core at"
  by (simp_all add: at_core_def)

lemma step_extends: "sys_step J y y' \<Longrightarrow> extends (sy_server y) (sy_server y')"
proof (induction rule: sys_step.induct)
  case (sys_begin y ctx_err payload rand1 rand2 now r s')
  then show ?case by (simp add: extends_begin)
next
  case (sys_claim a y s' response)
  then show ?case by (auto dest!: verify_claim_Ok intro!: extends_set_attempt)
next
  case (sys_close a y goes_on s')
  then show ?case by (auto dest!: close_mark_cases intro!: extends_set_attempt)
qed (auto dest!: verify_claim_error verify_commit_frame simp: close_remove_frame intro: extends_same)

section \<open>The invariant\<close>

definition attempt_ok :: "ServerConfig \<Rightarrow> ServerAttempt \<Rightarrow> bool" where
  "attempt_ok config at =
     (let c = at_challenge at in
      gm_get (sv_nodes (initial_server config)) (rq_fqdn (at_request at)) = Some (at_node at) \<and>
      is_ok (jwk_key (rq_jwk (at_request at))) \<and> at_raw at = json_print (challenge_json c) \<and>
      ch_version c = 1 \<and> validRandom (ch_id c) \<and> validRandom (ch_nonce c) \<and>
      ch_fqdn c = rq_fqdn (at_request at) \<and> ch_trust_domain c = sc_trust_domain config \<and>
      ch_server_id c = serverID (sc_trust_domain config) \<and>
      ch_thumbprint c = thumbprint (rq_jwk (at_request at)))"

definition server_ok :: "ServerConfig \<Rightarrow> Server \<Rightarrow> bool" where
  "server_ok config s =
     (sv_config s = config \<and> sv_nodes s = sv_nodes (initial_server config) \<and>
      gm_ok (sv_active s) \<and> gm_len (sv_active s) \<le> 32 \<and>
      (\<forall>cid a. gm_get (sv_active s) cid = Some a \<longrightarrow>
         a < length (sv_attempts s) \<and> ch_id (at_challenge (sv_attempts s ! a)) = cid) \<and>
      (\<forall>a < length (sv_attempts s). attempt_ok config (sv_attempts s ! a)))"

definition grant_ok :: "('sg, 'ob, 'z) jose_lib_scheme \<Rightarrow> Server \<Rightarrow> grant \<Rightarrow> bool" where
  "grant_ok J s g =
     (let at = sv_attempts s ! gr_attempt g in
      gr_attempt g < length (sv_attempts s) \<and> gr_name g = nd_name (at_node at) \<and>
      gr_result g = verify_result s at \<and>
      verifyProof J (gr_proof g) (rq_jwk (at_request at)) = Ok (at_raw at) \<and>
      unix_of (gr_checked g) < ch_expires (at_challenge at) \<and> gr_checked g \<le> gr_time g)"

definition sys_ok :: "('sg, 'ob, 'z) jose_lib_scheme \<Rightarrow> ServerConfig \<Rightarrow> system \<Rightarrow> bool" where
  "sys_ok J config y =
     (let s = sy_server y; used = map fst (sy_verifying y) @ map gr_attempt (sy_grants y) in
      server_ok config s \<and>
      (\<forall>a \<in> set used. a < length (sv_attempts s) \<and> at_verified (sv_attempts s ! a)) \<and>
      distinct used \<and>
      (\<forall>a pf. (a, Checked pf) \<in> set (sy_verifying y) \<longrightarrow>
         verifyProof J pf (rq_jwk (at_request (sv_attempts s ! a))) = Ok (at_raw (sv_attempts s ! a))) \<and>
      (\<forall>a \<in> set (sy_closing y). a < length (sv_attempts s)) \<and>
      (\<forall>g \<in> set (sy_grants y). grant_ok J s g))"

lemma attempt_ok_core: "at_core at = at_core at' \<Longrightarrow> attempt_ok config at = attempt_ok config at'"
  by (simp add: attempt_ok_def at_core_def)

lemma extends_attempt:
  assumes "extends s s'" "a < length (sv_attempts s)"
  shows "a < length (sv_attempts s')" "at_node (sv_attempts s' ! a) = at_node (sv_attempts s ! a)"
    "at_request (sv_attempts s' ! a) = at_request (sv_attempts s ! a)"
    "at_challenge (sv_attempts s' ! a) = at_challenge (sv_attempts s ! a)"
    "at_raw (sv_attempts s' ! a) = at_raw (sv_attempts s ! a)"
    "at_verified (sv_attempts s ! a) \<Longrightarrow> at_verified (sv_attempts s' ! a)"
    "attempt_ok config (sv_attempts s' ! a) = attempt_ok config (sv_attempts s ! a)"
  using assms attempt_ok_core [of "sv_attempts s' ! a" "sv_attempts s ! a" config]
  by (auto simp: extends_def at_core_def)

lemma grant_ok_extends: "extends s s' \<Longrightarrow> grant_ok J s g \<Longrightarrow> grant_ok J s' g"
  using extends_attempt [of s s' "gr_attempt g"]
  by (auto simp: grant_ok_def Let_def verify_result_def extends_def)

text \<open>Steps that add no attempt keep the server's invariant.\<close>

lemma server_ok_extends:
  assumes "server_ok config s" "extends s s'" "length (sv_attempts s') = length (sv_attempts s)"
    and "gm_ok (sv_active s')" "gm_len (sv_active s') \<le> gm_len (sv_active s)"
    and "\<And>cid a. gm_get (sv_active s') cid = Some a \<Longrightarrow> gm_get (sv_active s) cid = Some a"
  shows "server_ok config s'"
proof -
  have "sv_config s' = config" "sv_nodes s' = sv_nodes (initial_server config)"
    using assms(1,2) by (simp_all add: server_ok_def extends_def)
  moreover have "a < length (sv_attempts s') \<and> ch_id (at_challenge (sv_attempts s' ! a)) = cid"
    if "gm_get (sv_active s') cid = Some a" for cid a
    using assms(1) assms(6) [OF that] extends_attempt [OF assms(2), of a]
    by (auto simp: server_ok_def)
  moreover have "attempt_ok config (sv_attempts s' ! a)" if "a < length (sv_attempts s')" for a
    using assms(1,3) that extends_attempt(7) [OF assms(2), of a config] by (simp add: server_ok_def)
  ultimately show ?thesis using assms(1,4,5) by (simp add: server_ok_def)
qed

lemma begun_ok:
  assumes "gm_get (sv_nodes (initial_server config)) (rq_fqdn request) = Some n"
    "is_ok (jwk_key (rq_jwk request))" "length b1 = 32" "length b2 = 32" "sv_config s = config"
  shows "attempt_ok config (begun s request n (b64_encode b1) (b64_encode b2) now)"
  using assms by (simp add: attempt_ok_def begun_def Let_def)

lemma server_ok_begin:
  assumes ok: "server_ok config s" and b: "Begin s ctx_err payload rand1 rand2 now = (r, s')"
    and r1: "\<And>v. rand1 = Ok v \<Longrightarrow> length v = 32 \<and> gm_get (sv_active s) (b64_encode v) = None"
    and r2: "\<And>v. rand2 = Ok v \<Longrightarrow> length v = 32"
  shows "server_ok config s'"
proof (cases r)
  case (Inl e)
  with b ok show ?thesis by (auto dest: Begin_error)
next
  case (Inr a)
  from b [unfolded Inr] show ?thesis
  proof (rule Begin_Ok)
    fix request n b1 b2
    assume g: "gm_get (sv_nodes s) (rq_fqdn request) = Some n" "is_ok (jwk_key (rq_jwk request))"
      "rand1 = Ok b1" "rand2 = Ok b2" "gm_len (sv_active s) < 32" "a = length (sv_attempts s)"
      and s': "s' = s\<lparr>sv_active := gm_put (b64_encode b1) a (sv_active s),
            sv_metrics := map_option (pendingAdd (nd_name n) 1) (sv_metrics s),
            sv_attempts := sv_attempts s @ [begun s request n (b64_encode b1) (b64_encode b2) now]\<rparr>"
    have "attempt_ok config (begun s request n (b64_encode b1) (b64_encode b2) now)"
      using ok g r1 [OF g(3)] r2 [OF g(4)] by (intro begun_ok) (simp_all add: server_ok_def)
    moreover have "gm_len (gm_put (b64_encode b1) a (sv_active s)) \<le> 32"
      using g(5) r1 [OF g(3)] by (simp add: gm.count_put_new)
    moreover have "ch_id (at_challenge (begun s request n (b64_encode b1) (b64_encode b2) now)) = b64_encode b1"
      by (simp add: begun_def Let_def)
    ultimately show ?thesis
      using ok g(6) unfolding server_ok_def s'
      by (auto simp: nth_append less_Suc_eq split: if_splits)
  qed
qed

lemma verify_check_Ok:
  assumes "verify_check J env a response now s = Ok pf"
  shows "fetch env s (sv_attempts s ! a) = Ok pf"
    "verifyProof J pf (rq_jwk (at_request (sv_attempts s ! a))) = Ok (at_raw (sv_attempts s ! a))"
    "unix_of now < ch_expires (at_challenge (sv_attempts s ! a))"
    "decodeJSON dec_ready zero_ready response = Ok \<lparr>rd_version = 1, rd_id = ch_id (at_challenge (sv_attempts s ! a))\<rparr>"
  using assms
  by (auto simp: verify_check_def Let_def observeError_def split: sum.splits if_splits)

lemma close_remove_active:
  assumes "gm_ok (sv_active s)"
  shows "gm_ok (sv_active (close_remove a s))" "gm_len (sv_active (close_remove a s)) \<le> gm_len (sv_active s)"
    "gm_get (sv_active (close_remove a s)) cid = Some b \<Longrightarrow> gm_get (sv_active s) cid = Some b"
  using assms gm.count_del_le [OF assms]
  by (auto simp: close_remove_def Let_def split: if_splits)

lemma sys_okD:
  assumes "sys_ok J config y"
  shows "server_ok config (sy_server y)"
    "a \<in> set (map fst (sy_verifying y) @ map gr_attempt (sy_grants y)) \<Longrightarrow> a < length (sv_attempts (sy_server y))"
    "a \<in> set (map fst (sy_verifying y) @ map gr_attempt (sy_grants y)) \<Longrightarrow> at_verified (sv_attempts (sy_server y) ! a)"
    "distinct (map fst (sy_verifying y) @ map gr_attempt (sy_grants y))"
    "(a, Checked pf) \<in> set (sy_verifying y) \<Longrightarrow>
      verifyProof J pf (rq_jwk (at_request (sv_attempts (sy_server y) ! a))) = Ok (at_raw (sv_attempts (sy_server y) ! a))"
    "a \<in> set (sy_closing y) \<Longrightarrow> a < length (sv_attempts (sy_server y))"
    "g \<in> set (sy_grants y) \<Longrightarrow> grant_ok J (sy_server y) g"
  using assms unfolding sys_ok_def Let_def by (simp_all only:)

lemma sys_ok_frame:
  assumes "sys_ok J config y" "extends (sy_server y) (sy_server y')" "server_ok config (sy_server y')"
    and "\<And>a. a \<in> set (sy_closing y') \<Longrightarrow> a \<in> set (sy_closing y) \<or> a < length (sv_attempts (sy_server y'))"
    and "distinct (map fst (sy_verifying y') @ map gr_attempt (sy_grants y'))"
    and "\<And>a. a \<in> set (map fst (sy_verifying y') @ map gr_attempt (sy_grants y')) \<Longrightarrow>
      a \<in> set (map fst (sy_verifying y) @ map gr_attempt (sy_grants y)) \<or>
      a < length (sv_attempts (sy_server y')) \<and> at_verified (sv_attempts (sy_server y') ! a)"
    and "\<And>a pf. (a, Checked pf) \<in> set (sy_verifying y') \<Longrightarrow> (a, Checked pf) \<in> set (sy_verifying y) \<or>
      verifyProof J pf (rq_jwk (at_request (sv_attempts (sy_server y') ! a))) = Ok (at_raw (sv_attempts (sy_server y') ! a))"
    and "\<And>g. g \<in> set (sy_grants y') \<Longrightarrow> g \<in> set (sy_grants y) \<or> grant_ok J (sy_server y') g"
  shows "sys_ok J config y'"
proof -
  let ?s = "sy_server y" and ?s' = "sy_server y'"
  note ext = extends_attempt [OF assms(2)]
  note old = sys_okD [OF assms(1)]
  have "a < length (sv_attempts ?s') \<and> at_verified (sv_attempts ?s' ! a)"
    if "a \<in> set (map fst (sy_verifying y') @ map gr_attempt (sy_grants y'))" for a
    using assms(6) [OF that] old(2,3) [of a] ext(1,6) [of a] by metis
  moreover have "verifyProof J pf (rq_jwk (at_request (sv_attempts ?s' ! a))) = Ok (at_raw (sv_attempts ?s' ! a))"
    if v: "(a, Checked pf) \<in> set (sy_verifying y')" for a pf
    using assms(7) [OF v]
  proof
    assume "(a, Checked pf) \<in> set (sy_verifying y)"
    moreover from this have "a < length (sv_attempts ?s)" by (intro old(2)) force
    ultimately show ?thesis using old(5) [of a pf] ext(3,5) [of a] by simp
  qed
  moreover have "a < length (sv_attempts ?s')" if "a \<in> set (sy_closing y')" for a
    using assms(4) [OF that] old(6) [of a] ext(1) [of a] by blast
  moreover have "grant_ok J ?s' g" if "g \<in> set (sy_grants y')" for g
    using assms(8) [OF that] old(7) [of g] grant_ok_extends [OF assms(2)] by blast
  ultimately show ?thesis using assms(3,5) unfolding sys_ok_def Let_def by simp
qed

lemma sys_ok_server: "sys_ok J config y \<Longrightarrow> server_ok config (sy_server y)"
  by (simp add: sys_ok_def Let_def)

lemma sys_ok_step:
  assumes "sys_step J y y'" "sys_ok J config y" shows "sys_ok J config y'"
proof -
  note ext = step_extends [OF assms(1)] and ok = sys_ok_server [OF assms(2)]
  note d = sys_okD [OF assms(2)]
  from assms(1) show ?thesis
  proof cases
    case (sys_begin ctx_err payload rand1 rand2 now r s')
    then show ?thesis using ok d(4)
      by (intro sys_ok_frame [OF assms(2) ext]) (auto intro: server_ok_begin)
  next
    case (sys_claim a s' response)
    note c = verify_claim_Ok [OF sys_claim(3)]
    have new: "a \<notin> set (map fst (sy_verifying y) @ map gr_attempt (sy_grants y))" using d(3) [of a] c by blast
    have "server_ok config s'"
      using ok ext sys_claim c by (intro server_ok_extends [OF ok]) (auto simp: server_ok_def)
    with sys_claim new d(4) c show ?thesis
      by (intro sys_ok_frame [OF assms(2) ext]) (auto simp: set_attempt_nth)
  next
    case (sys_refused a e s')
    then show ?thesis using assms(2) by (auto dest!: verify_claim_error)
  next
    case (sys_check us a response vs now env pf)
    with d(4) ok verify_check_Ok(2) [OF sys_check(4)] show ?thesis
      by (intro sys_ok_frame [OF assms(2) ext]) auto
  next
    case (sys_reject us a response vs now env e)
    with d(4) ok show ?thesis by (intro sys_ok_frame [OF assms(2) ext]) auto
  next
    case (sys_grant us a pf vs now1 now2 ctx_err res s')
    note f = verify_commit_frame [OF sys_grant(5)] and g = verify_commit_Ok [OF sys_grant(5)]
    have a: "a < length (sv_attempts (sy_server y))" using d(2) [of a] sys_grant(2) by simp
    have "server_ok config s'" using ok ext sys_grant f by (intro server_ok_extends [OF ok]) (auto simp: server_ok_def)
    moreover have "grant_ok J s' \<lparr>gr_attempt = a, gr_name = nd_name (at_node (sv_attempts (sy_server y) ! a)),
        gr_checked = now1, gr_time = now2, gr_result = res, gr_proof = pf\<rparr>"
      using a f g sys_grant(2,3) d(5) [of a pf] by (simp add: grant_ok_def Let_def verify_result_def)
    ultimately show ?thesis using sys_grant d(4) by (intro sys_ok_frame [OF assms(2) ext]) auto
  next
    case (sys_deny us a pf vs now1 now2 ctx_err e s')
    note f = verify_commit_frame [OF sys_deny(5)]
    have "server_ok config s'" using ok ext sys_deny f by (intro server_ok_extends [OF ok]) (auto simp: server_ok_def)
    with sys_deny d(4) show ?thesis by (intro sys_ok_frame [OF assms(2) ext]) auto
  next
    case (sys_close a goes_on s')
    note c = close_mark_cases [OF sys_close(3)]
    have "server_ok config s'" using ok ext sys_close c
      by (intro server_ok_extends [OF ok]) (auto simp: server_ok_def)
    with sys_close d(4) ext show ?thesis
      by (intro sys_ok_frame [OF assms(2) ext]) (auto simp: extends_def split: if_splits)
  next
    case (sys_remove us a vs)
    have "server_ok config (close_remove a (sy_server y))"
    proof (rule server_ok_extends [OF ok])
      show "extends (sy_server y) (close_remove a (sy_server y))"
        by (rule extends_same) (simp_all add: close_remove_frame)
      have "gm_ok (sv_active (sy_server y))" using ok by (simp add: server_ok_def)
      note r = close_remove_active [OF this]
      show "gm_ok (sv_active (close_remove a (sy_server y)))" by (rule r(1))
      show "gm_len (sv_active (close_remove a (sy_server y))) \<le> gm_len (sv_active (sy_server y))" by (rule r(2))
      show "gm_get (sv_active (close_remove a (sy_server y))) cid = Some b \<Longrightarrow>
        gm_get (sv_active (sy_server y)) cid = Some b" for cid b by (rule r(3))
    qed (simp add: close_remove_frame)
    with sys_remove d(4) show ?thesis by (intro sys_ok_frame [OF assms(2) ext]) auto
  qed
qed

lemma sys_ok_start: "config_ok config \<Longrightarrow> sys_ok J config (sys_start config m now)"
  by (simp add: sys_ok_def sys_start_def server_ok_def initial_server_def Let_def gm.count_empty)

lemma reachable_ok: "sys_reachable J config m y \<Longrightarrow> sys_ok J config y"
  by (rule reachable_invariant [where I = "sys_ok J config"]) (auto intro: sys_ok_start sys_ok_step)

section \<open>The quota\<close>

definition grant_times :: "system \<Rightarrow> string \<Rightarrow> time list" where
  "grant_times y name = map gr_time (filter (\<lambda>g. gr_name g = name) (sy_grants y))"

definition since :: "time \<Rightarrow> time list \<Rightarrow> time list" where
  "since now ts = filter (\<lambda>t. t > now - seconds 60) ts"

definition window :: "time \<Rightarrow> time list \<Rightarrow> time list" where
  "window t ts = filter (\<lambda>x. t - seconds 60 < x \<and> x \<le> t) ts"

text \<open>What relates the times granted to a node (\<open>xs\<close>) and the times the server remembers (\<open>rs\<close>).\<close>

definition quota_ok :: "time \<Rightarrow> time list \<Rightarrow> time list \<Rightarrow> bool" where
  "quota_ok now xs rs =
     ((\<forall>t \<in> set xs. t \<le> now) \<and> since now xs = since now rs \<and> (\<forall>t. length (window t xs) \<le> 6))"

lemma since_since: "now \<le> now' \<Longrightarrow> since now' (since now xs) = since now' xs"
  unfolding since_def filter_filter by (rule filter_cong) auto

lemma quota_later:
  assumes "quota_ok now xs rs" "now \<le> now'" shows "quota_ok now' xs rs"
proof -
  have "since now' xs = since now' rs"
    using assms since_since [OF assms(2), of xs] since_since [OF assms(2), of rs] by (simp add: quota_ok_def)
  with assms show ?thesis by (force simp: quota_ok_def)
qed

lemma quota_prune: "quota_ok now xs rs \<Longrightarrow> quota_ok now xs (since now rs)"
  by (simp add: quota_ok_def since_since)

lemma quota_charge:
  assumes q: "quota_ok now xs rs" and l: "length (since now rs) < 6"
  shows "quota_ok now (xs @ [now]) (since now rs @ [now])"
proof -
  have "length (window t (xs @ [now])) \<le> 6" for t
  proof (cases "now \<le> t")
    case False
    with q show ?thesis by (simp add: quota_ok_def window_def)
  next
    case True
    have "window t xs = window t (since now xs)"
      unfolding window_def since_def filter_filter by (rule filter_cong) (use True in auto)
    then have "length (window t xs) = length (window t (since now xs))" by simp
    also have "\<dots> \<le> length (since now xs)" by (simp add: window_def)
    also have "\<dots> < 6" using q l by (simp add: quota_ok_def)
    finally show ?thesis by (simp add: window_def)
  qed
  moreover have "since now (since now rs) = since now rs" by (rule since_since) simp
  ultimately show ?thesis using q by (auto simp: quota_ok_def since_def)
qed

definition sys_quota :: "system \<Rightarrow> bool" where
  "sys_quota y = (\<forall>name. quota_ok (sy_now y) (grant_times y name) (gm_get_or [] (sv_recent (sy_server y)) name))"

lemma sys_quota_same:
  assumes "sys_quota y" "sy_now y \<le> sy_now y'" "sy_grants y' = sy_grants y"
    "sv_recent (sy_server y') = sv_recent (sy_server y)"
  shows "sys_quota y'"
  using assms by (auto simp: sys_quota_def grant_times_def intro: quota_later)

lemma Begin_recent: "Begin s ctx_err payload rand1 rand2 now = (r, s') \<Longrightarrow> sv_recent s' = sv_recent s"
  by (cases r) (auto dest!: Begin_error elim!: Begin_Ok)

lemma sys_quota_step:
  assumes "sys_step J y y'" "sys_quota y" shows "sys_quota y'"
  using assms(1)
proof cases
  case (sys_begin ctx_err payload rand1 rand2 now r s')
  then show ?thesis using assms(2) by (intro sys_quota_same [OF assms(2)]) (simp_all add: Begin_recent)
next
  case (sys_grant us a pf vs now1 now2 ctx_err res s')
  let ?name = "nd_name (at_node (sv_attempts (sy_server y) ! a))"
  let ?rs = "\<lambda>name. gm_get_or [] (sv_recent (sy_server y)) name"
  have q: "quota_ok now2 (grant_times y name) (?rs name)" for name
    using assms(2) sys_grant(3,4) by (auto simp: sys_quota_def intro: quota_later)
  from chargeSuccess_cases [OF verify_commit_Ok(5) [OF sys_grant(5)]]
  have l: "length (since now2 (?rs ?name)) < 6"
    and s': "s' = (sy_server y)\<lparr>sv_recent := gm_put ?name (since now2 (?rs ?name) @ [now2])
       (gm_put ?name (since now2 (?rs ?name)) (sv_recent (sy_server y)))\<rparr>"
    by (simp_all add: since_def)
  have "quota_ok now2 (grant_times y' name) (gm_get_or [] (sv_recent s') name)" for name
    using q [of name] quota_charge [OF q l] by (simp add: sys_grant(1) s' grant_times_def)
  then show ?thesis by (simp add: sys_quota_def sys_grant(1))
next
  case (sys_deny us a pf vs now1 now2 ctx_err e s')
  let ?name = "nd_name (at_node (sv_attempts (sy_server y) ! a))"
  let ?rs = "\<lambda>name. gm_get_or [] (sv_recent (sy_server y)) name"
  have q: "quota_ok now2 (grant_times y name) (?rs name)" for name
    using assms(2) sys_deny(3,4) by (auto simp: sys_quota_def intro: quota_later)
  have "s' = sy_server y \<or>
      s' = (sy_server y)\<lparr>sv_recent := gm_put ?name (since now2 (?rs ?name)) (sv_recent (sy_server y))\<rparr>"
    using verify_commit_error [OF sys_deny(5)] by (auto dest!: chargeSuccess_cases simp: since_def)
  then have "quota_ok now2 (grant_times y' name) (gm_get_or [] (sv_recent s') name)" for name
    using q [of name] quota_prune [OF q] by (auto simp: sys_deny(1) grant_times_def)
  then show ?thesis by (simp add: sys_quota_def sys_deny(1))
qed (auto intro!: sys_quota_same [OF assms(2)] dest!: verify_claim_Ok verify_claim_error close_mark_cases
    simp: close_remove_frame)

lemma sys_quota_start: "sys_quota (sys_start config m now)"
  by (simp add: sys_quota_def sys_start_def initial_server_def grant_times_def quota_ok_def since_def window_def)

lemma reachable_quota: "sys_reachable J config m y \<Longrightarrow> sys_quota y"
  by (rule reachable_invariant [where I = sys_quota]) (auto intro: sys_quota_start sys_quota_step)

section \<open>The gauge of pending attempts\<close>

definition active_for :: "Server \<Rightarrow> string \<Rightarrow> nat" where
  "active_for s name = gm_count (\<lambda>a. nd_name (at_node (sv_attempts s ! a)) = name) (sv_active s)"

definition names_known :: "ServerConfig \<Rightarrow> metricsRegistry \<Rightarrow> bool" where
  "names_known config r = (\<forall>(name, policy) \<in> set (sc_nodes config). gm_get_or False (mr_nodes r) name)"

definition gauge_ok :: "metricsRegistry \<Rightarrow> Server \<Rightarrow> bool" where
  "gauge_ok r0 s =
     (\<exists>r. sv_metrics s = Some r \<and> mr_nodes r = mr_nodes r0 \<and>
        (\<forall>name. gm_get_or False (mr_nodes r0) name \<longrightarrow> pending_of r name = pending_of r0 name + int (active_for s name)))"

lemma gm_count_cong: "(\<And>k v. (k, v) \<in> set m \<Longrightarrow> P v = Q v) \<Longrightarrow> gm_count P m = gm_count Q m"
  by (auto simp: gm_count_def intro!: arg_cong [where f = length] filter_cong)

lemma active_for_extends:
  assumes "server_ok config s" "extends s s'" "sv_active s' = sv_active s"
  shows "active_for s' name = active_for s name"
  unfolding active_for_def assms(3)
proof (rule gm_count_cong)
  fix cid a assume "(cid, a) \<in> set (sv_active s)"
  then have "gm_get (sv_active s) cid = Some a" using assms(1) by (auto simp: server_ok_def intro: gm_mem_get)
  then have "a < length (sv_attempts s)" using assms(1) by (simp add: server_ok_def)
  then show "(nd_name (at_node (sv_attempts s' ! a)) = name) = (nd_name (at_node (sv_attempts s ! a)) = name)"
    using extends_attempt(2) [OF assms(2)] by simp
qed

lemma gauge_same:
  assumes "gauge_ok r0 s" "server_ok config s" "extends s s'" "sv_active s' = sv_active s"
    "sv_metrics s' = sv_metrics s"
  shows "gauge_ok r0 s'"
  using assms active_for_extends [OF assms(2,3,4)] by (simp add: gauge_ok_def)

lemma attempt_name_known:
  assumes "config_ok config" "names_known config r" "attempt_ok config at"
  shows "gm_get_or False (mr_nodes r) (nd_name (at_node at))"
proof -
  from assms(3) have "gm_get (sv_nodes (initial_server config)) (rq_fqdn (at_request at)) = Some (at_node at)"
    by (simp add: attempt_ok_def Let_def)
  from initial_nodes [OF assms(1) this] obtain name policy where
    "(name, policy) \<in> set (sc_nodes config)" "at_node at = node_of name policy" by blast
  with assms(2) show ?thesis by (auto simp: names_known_def node_of_def)
qed

lemma gauge_begin:
  assumes g: "gauge_ok r0 s" and ok: "server_ok config s" and c: "config_ok config" "names_known config r0"
    and b: "Begin s ctx_err payload rand1 rand2 now = (r, s')"
    and r1: "\<And>v. rand1 = Ok v \<Longrightarrow> length v = 32 \<and> gm_get (sv_active s) (b64_encode v) = None"
    and r2: "\<And>v. rand2 = Ok v \<Longrightarrow> length v = 32"
  shows "gauge_ok r0 s'"
proof (cases r)
  case (Inl e)
  with b g show ?thesis by (auto dest: Begin_error)
next
  case (Inr a)
  from b [unfolded Inr] obtain request n b1 b2 where
    n: "gm_get (sv_nodes s) (rq_fqdn request) = Some n" "is_ok (jwk_key (rq_jwk request))"
    and rd: "rand1 = Ok b1" "rand2 = Ok b2" and a: "a = length (sv_attempts s)"
    and s': "s' = s\<lparr>sv_active := gm_put (b64_encode b1) a (sv_active s),
            sv_metrics := map_option (pendingAdd (nd_name n) 1) (sv_metrics s),
            sv_attempts := sv_attempts s @ [begun s request n (b64_encode b1) (b64_encode b2) now]\<rparr>"
    by (rule Begin_Ok) simp
  let ?at = "begun s request n (b64_encode b1) (b64_encode b2) now"
  have node: "at_node ?at = n" by (simp add: begun_def Let_def)
  have "attempt_ok config ?at"
    using ok n r1 [OF rd(1)] r2 [OF rd(2)] by (intro begun_ok) (simp_all add: server_ok_def)
  then have known: "gm_get_or False (mr_nodes r0) (nd_name n)"
    using attempt_name_known [OF c] node by metis
  have "active_for s' name = active_for (s\<lparr>sv_attempts := sv_attempts s @ [?at]\<rparr>) name + (if name = nd_name n then 1 else 0)" for name
    using r1 [OF rd(1)] node by (simp add: active_for_def s' a gm.count_put_new nth_append)
  also have "active_for (s\<lparr>sv_attempts := sv_attempts s @ [?at]\<rparr>) name = active_for s name" for name
    by (rule active_for_extends [OF ok]) (simp_all add: extends_def nth_append)
  finally have act: "active_for s' name = active_for s name + (if name = nd_name n then 1 else 0)" for name .
  from g obtain r' where r': "sv_metrics s = Some r'" "mr_nodes r' = mr_nodes r0"
    "\<And>name. gm_get_or False (mr_nodes r0) name \<Longrightarrow> pending_of r' name = pending_of r0 name + int (active_for s name)"
    by (auto simp: gauge_ok_def)
  have "sv_metrics s' = Some (pendingAdd (nd_name n) 1 r')" by (simp add: s' r'(1))
  then show ?thesis
    using pendingAdd_known [of r' "nd_name n" 1] known r'(2,3) act by (simp add: gauge_ok_def)
qed

lemma gauge_remove:
  assumes g: "gauge_ok r0 s" and ok: "server_ok config s" and c: "config_ok config" "names_known config r0"
  shows "gauge_ok r0 (close_remove a s)"
proof (cases "gm_get (sv_active s) (ch_id (at_challenge (sv_attempts s ! a))) = Some a")
  case False
  with g show ?thesis by (simp add: close_remove_def)
next
  case True
  let ?cid = "ch_id (at_challenge (sv_attempts s ! a))" and ?name = "nd_name (at_node (sv_attempts s ! a))"
  have "a < length (sv_attempts s)" "gm_ok (sv_active s)" using ok True by (auto simp: server_ok_def)
  then have known: "gm_get_or False (mr_nodes r0) ?name"
    using ok attempt_name_known [OF c] by (simp add: server_ok_def)
  have act: "active_for s name = active_for (close_remove a s) name + (if name = ?name then 1 else 0)" for name
    using gm.count_del_old [OF \<open>gm_ok (sv_active s)\<close> True, of "\<lambda>a. nd_name (at_node (sv_attempts s ! a)) = name"] True
    by (auto simp: active_for_def close_remove_def Let_def)
  from g obtain r' where r': "sv_metrics s = Some r'" "mr_nodes r' = mr_nodes r0"
    "\<And>name. gm_get_or False (mr_nodes r0) name \<Longrightarrow> pending_of r' name = pending_of r0 name + int (active_for s name)"
    by (auto simp: gauge_ok_def)
  have "sv_metrics (close_remove a s) = Some (pendingAdd ?name (- 1) r')"
    using True by (simp add: close_remove_def Let_def r'(1))
  then show ?thesis
    using pendingAdd_known [of r' ?name "- 1"] known r'(2,3) act by (simp add: gauge_ok_def)
qed

lemma reachable_gauge:
  assumes "sys_reachable J config (Some r0) y" "names_known config r0"
  shows "gauge_ok r0 (sy_server y)"
proof -
  have c: "config_ok config" using assms(1) by (simp add: sys_reachable_def)
  have "sys_ok J config y \<and> gauge_ok r0 (sy_server y)"
    using assms(1)
  proof (rule reachable_invariant [where I = "\<lambda>y. sys_ok J config y \<and> gauge_ok r0 (sy_server y)"])
    show "sys_ok J config (sys_start config (Some r0) now) \<and> gauge_ok r0 (sy_server (sys_start config (Some r0) now))" for now
      using sys_ok_start [OF c] by (simp add: gauge_ok_def sys_start_def active_for_def initial_server_def gm.count_empty)
  next
    fix y y' assume i: "sys_ok J config y \<and> gauge_ok r0 (sy_server y)" and st: "sys_step J y y'"
    note ok = sys_ok_server [OF conjunct1 [OF i]] and ext = step_extends [OF st]
    from st have "gauge_ok r0 (sy_server y')"
    proof cases
      case (sys_begin ctx_err payload rand1 rand2 now r s')
      then show ?thesis using i ok c assms(2) by (auto intro: gauge_begin)
    next
      case (sys_remove us a vs)
      then show ?thesis using i ok c assms(2) by (auto intro: gauge_remove)
    qed (use i ext in \<open>auto intro!: gauge_same [OF _ ok] dest!: verify_claim_Ok verify_claim_error
        close_mark_cases verify_commit_frame\<close>)
    then show "sys_ok J config y' \<and> gauge_ok r0 (sy_server y')" using sys_ok_step [OF st] i by blast
  qed
  then show ?thesis ..
qed

section \<open>An honest session\<close>

definition request_for :: "string \<Rightarrow> string \<Rightarrow> request" where
  "request_for f key = \<lparr>rq_version = 1, rq_fqdn = f, rq_jwk = jwkFor (public_of key)\<rparr>"

definition ready_for :: "challenge \<Rightarrow> string" where
  "ready_for c = json_print (ready_json \<lparr>rd_version = 1, rd_id = ch_id c\<rparr>)"

lemma int_literal_1: "int_literal (itoa 1)"
  by (rule int_literal_int64) simp

lemma itoa_1_length: "length (itoa 1) \<le> 20"
  by (rule itoa_length) simp

lemma request_decodes:
  assumes "validFQDN f" "length key = 64"
  shows "decodeJSON dec_request zero_request (json_print (request_json (request_for f key))) = Ok (request_for f key)"
proof (rule decodeJSON_print)
  note f = validFQDN_plain [OF assms(1)]
  have "json_safe (jwk_json (jwkFor (public_of key)))" by (rule jwk_json_safe) simp
  with f int_literal_1 show "json_safe (request_json (request_for f key))"
    by (simp add: request_json_def request_for_def json_plain_def)
  show "length (json_print (request_json (request_for f key))) \<le> MaxDocumentSize"
    using f assms(2) itoa_1_length
    by (simp add: request_json_def request_for_def jwk_json_def jwkFor_def MaxDocumentSize_def
        print_string_length json_plain_def b64_encode_length)
  show "dec_request (request_json (request_for f key)) zero_request = Some (request_for f key)"
    by (rule dec_request_json) (simp add: request_for_def)
qed

lemma ready_decodes:
  assumes "validRandom (ch_id c)"
  shows "decodeJSON dec_ready zero_ready (ready_for c) = Ok \<lparr>rd_version = 1, rd_id = ch_id c\<rparr>"
  unfolding ready_for_def
proof (rule decodeJSON_print)
  note f = validRandom_plain [OF assms(1)]
  with int_literal_1 show "json_safe (ready_json \<lparr>rd_version = 1, rd_id = ch_id c\<rparr>)"
    by (simp add: ready_json_def json_plain_def)
  show "length (json_print (ready_json \<lparr>rd_version = 1, rd_id = ch_id c\<rparr>)) \<le> MaxDocumentSize"
    using f itoa_1_length
    by (simp add: ready_json_def MaxDocumentSize_def print_string_length json_plain_def)
qed (rule dec_ready_json, simp)

lemma honest_begin:
  assumes "validFQDN f" "length key = 64" "gm_get (sv_nodes s) f = Some n" "gm_len (sv_active s) < 32"
  shows "Begin s None (json_print (request_json (request_for f key))) (Ok b1) (Ok b2) now =
    (Ok (length (sv_attempts s)),
     s\<lparr>sv_active := gm_put (b64_encode b1) (length (sv_attempts s)) (sv_active s),
       sv_metrics := map_option (pendingAdd (nd_name n) 1) (sv_metrics s),
       sv_attempts := sv_attempts s @ [begun s (request_for f key) n (b64_encode b1) (b64_encode b2) now]\<rparr>)"
  using assms(3,4) jwk_key_for [OF public_of_length [OF assms(2)]]
  by (simp add: Begin_def request_decodes [OF assms(1,2)])
    (simp add: request_for_def randomValue_def begun_def unix_of_ttl Let_def)

text \<open>The challenge of a fresh attempt is valid until it expires, and binds the requester's key.\<close>

lemma begun_valid:
  assumes "attempt_ok config at" "config_ok config"
    and "unix_of now < ch_expires (at_challenge at)" "ch_expires (at_challenge at) \<le> unix_of now + 120"
  shows "validateChallenge (at_challenge at) now = Ok ()"
proof -
  from assms(1) have "gm_get (sv_nodes (initial_server config)) (ch_fqdn (at_challenge at)) = Some (at_node at)"
    by (simp add: attempt_ok_def Let_def)
  from initial_nodes [OF assms(2) this] have "validFQDN (ch_fqdn (at_challenge at))" by (auto simp: policy_ok_def)
  with assms show ?thesis unfolding validateChallenge_iff by (simp add: attempt_ok_def config_ok_def Let_def)
qed

lemma honest_check:
  assumes "attempt_ok config (sv_attempts s ! a)" "unix_of now < ch_expires (at_challenge (sv_attempts s ! a))"
    and "fetch env s (sv_attempts s ! a) = Ok doc"
    and "verifyProof J doc (rq_jwk (at_request (sv_attempts s ! a))) = Ok (at_raw (sv_attempts s ! a))"
  shows "verify_check J env a (ready_for (at_challenge (sv_attempts s ! a))) now s = Ok doc"
  using assms ready_decodes [of "at_challenge (sv_attempts s ! a)"]
  by (simp add: verify_check_def Let_def attempt_ok_def)

lemma honest_commit:
  assumes "\<not> at_closed (sv_attempts s ! a)" "unix_of now1 < ch_expires (at_challenge (sv_attempts s ! a))"
    and "length (since now2 (gm_get_or [] (sv_recent s) (nd_name (at_node (sv_attempts s ! a))))) < 6"
  obtains s' where "verify_commit a None now1 now2 s = (Ok (verify_result s (sv_attempts s ! a)), s')"
  using assms
  by (auto simp: verify_commit_def Let_def chargeSuccess_def filter_in_place_inv since_def)

lemma three_steps: "r w x \<Longrightarrow> r x y \<Longrightarrow> r y z \<Longrightarrow> r\<^sup>*\<^sup>* w z"
  by (rule converse_rtranclp_into_rtranclp, assumption)+ (rule rtranclp.rtrancl_refl)

lemma honest_reach:
  fixes key b1 b2 :: string
  assumes c: "config_ok config" and J: "jose_correct J" and key: "length key = 64"
    and n: "gm_get (sv_nodes (initial_server config)) f = Some n"
    and b: "length b1 = 32" "length b2 = 32" and t: "int64 (unix_of now + 120)"
    and env: "\<And>s at doc. sv_config s = config \<Longrightarrow> at_node at = n \<Longrightarrow> length doc \<le> MaxDocumentSize \<Longrightarrow>
      fetch (env doc) s at = Ok doc"
  shows "\<exists>y. sys_reachable J config m y \<and> sy_grants y \<noteq> []"
proof -
  define y0 where "y0 = sys_start config m now"
  define at where "at = begun (sy_server y0) (request_for f key) n (b64_encode b1) (b64_encode b2) now"
  define s1 where "s1 = (sy_server y0)\<lparr>sv_active := gm_put (b64_encode b1) 0 [],
       sv_metrics := map_option (pendingAdd (nd_name n) 1) m, sv_attempts := [at]\<rparr>"
  define y1 where "y1 = y0\<lparr>sy_server := s1, sy_now := now\<rparr>"
  have s0: "sv_config (sy_server y0) = config" "sv_nodes (sy_server y0) = sv_nodes (initial_server config)"
    "sv_active (sy_server y0) = []" "sv_attempts (sy_server y0) = []" "sv_recent (sy_server y0) = []"
    "sv_metrics (sy_server y0) = m"
    by (simp_all add: y0_def sys_start_def initial_server_def)
  have f: "validFQDN f" using initial_nodes [OF c n] by (auto simp: policy_ok_def)
  have "Begin (sy_server y0) None (json_print (request_json (request_for f key))) (Ok b1) (Ok b2) now = (Ok 0, s1)"
    using honest_begin [OF f key, of "sy_server y0" n b1 b2 now] n
    by (simp add: s0 s1_def at_def gm.count_empty)
  then have st1: "sys_step J y0 y1"
    unfolding y1_def by (rule sys_begin) (use b s0 in \<open>simp_all add: y0_def sys_start_def\<close>)
  have ok: "attempt_ok config at"
    unfolding at_def using n b jwk_key_for [OF public_of_length [OF key]] s0
    by (intro begun_ok) (simp_all add: request_for_def)
  define s2 where "s2 = set_attempt 0 (at_verified_update (\<lambda>_. True)) s1"
  define resp where "resp = ready_for (at_challenge at)"
  define y2 where "y2 = y1\<lparr>sy_server := s2, sy_verifying := [(0, Claimed resp)]\<rparr>"
  have at_open: "\<not> at_closed at" "\<not> at_verified at" by (simp_all add: at_def begun_def Let_def)
  have a2: "sv_attempts s2 = [at\<lparr>at_verified := True\<rparr>]" by (simp add: s2_def set_attempt_def s1_def)
  have st2: "sys_step J y1 y2"
  proof -
    have "verify_claim 0 (sy_server y1) = (Ok (), s2)"
      using at_open by (simp add: y1_def s1_def s2_def verify_claim_def Let_def)
    from sys_claim [OF _ this, of J resp] show ?thesis
      by (simp add: y1_def y2_def s1_def y0_def sys_start_def)
  qed
  have ex: "ch_expires (at_challenge at) = unix_of now + 120" by (simp add: at_def begun_def Let_def)
  have v: "validateChallenge (at_challenge at) now = Ok ()"
    by (rule begun_valid [OF ok c]) (simp_all add: ex)
  have th: "ch_thumbprint (at_challenge at) = thumbprint (jwkFor (public_of key))"
    "rq_jwk (at_request at) = jwkFor (public_of key)" "at_raw at = json_print (challenge_json (at_challenge at))"
    "at_node at = n"
    by (simp_all add: at_def begun_def Let_def request_for_def)
  obtain doc where doc: "length doc \<le> MaxDocumentSize"
    "verifyProof J doc (jwkFor (public_of key)) = Ok (json_print (challenge_json (at_challenge at)))"
    by (rule sign_parse [OF J key v _ th(1)]) (use t ex in simp_all)
  define y3 where "y3 = y2\<lparr>sy_verifying := [(0, Checked doc)], sy_now := now\<rparr>"
  have c2: "sv_config s2 = config" by (simp add: s2_def s1_def s0)
  have "verify_check J (env doc) 0 resp now s2 = Ok doc"
    using honest_check [of config s2 0 now "env doc" doc J] env [OF c2 _ doc(1)] ok doc(2) th ex
      attempt_ok_core [of "at\<lparr>at_verified := True\<rparr>" at config]
    by (simp add: a2 resp_def)
  then have st3: "sys_step J y2 y3"
    using sys_step.sys_check [of y2 "[]" 0 resp "[]" now J "env doc" doc]
    by (simp add: y3_def y2_def y1_def)
  have "sv_recent s2 = []" by (simp add: s2_def s1_def s0)
  then obtain s4 where s4: "verify_commit 0 None now now s2 = (Ok (verify_result s2 (sv_attempts s2 ! 0)), s4)"
    using honest_commit [of s2 0 now now] at_open ex by (auto simp: a2 since_def)
  have y3: "sy_server y3 = s2" "sy_verifying y3 = [] @ (0, Checked doc) # []" "sy_now y3 \<le> now"
    by (simp_all add: y3_def y2_def)
  note st4 = sys_step.sys_grant [OF y3(2) order_refl y3(3), of None _ s4, unfolded y3(1), OF s4, of J]
  have "(sys_step J)\<^sup>*\<^sup>* y0 y3"
    using st1 st2 st3 by (rule three_steps)
  then have "(sys_step J)\<^sup>*\<^sup>* (sys_start config m now) (y3\<lparr>sy_server := s4, sy_verifying := [] @ [], sy_now := now,
      sy_grants := sy_grants y3 @ [\<lparr>gr_attempt = 0, gr_name = nd_name (at_node (sv_attempts s2 ! 0)), gr_checked = now,
        gr_time = now, gr_result = verify_result s2 (sv_attempts s2 ! 0), gr_proof = doc\<rparr>]\<rparr>)"
    unfolding y0_def by (rule rtranclp.rtrancl_into_rtrancl) (rule st4)
  with c show ?thesis unfolding sys_reachable_def by force
qed

section \<open>Properties of every run\<close>

definition ex_registry :: metricsRegistry where
  "ex_registry = register [''alpha''] ex_metrics"

lemma ex_node_lookup: "gm_get (sv_nodes (initial_server ex_config)) ''node.example'' = Some ex_node"
  by code_simp

lemma ex_reach: "\<exists>y. sys_reachable ex_jose ex_config (Some ex_registry) y \<and> sy_grants y \<noteq> []"
  by (rule honest_reach [OF ex_config_ok ex_jose_correct, of ex_key "''node.example''" ex_node
        "replicate 32 CHR ''i''" "replicate 32 CHR ''n''" "seconds 1000" ex_env])
    (simp_all add: ex_key_def ex_node_lookup unix_of_def ex_fetch)

text \<open>C1. Soundness of attestation: whatever the interleaving, a result the server grants belongs to an attempt, names
  the configured node with the FQDN that this attempt's request asked for, and rests on a proof whose
  signature was verified with the key of that request over exactly the challenge of that attempt, before it expired.
  The challenge is for that FQDN, this trust domain, this server and that key's thumbprint; a proof of another session,
  which signs another challenge, grants nothing.\<close>

theorem grant_sound:
  assumes "sys_reachable J config m y" "g \<in> set (sy_grants y)"
  shows "gr_attempt g < length (sv_attempts (sy_server y)) \<and>
    (let at = sv_attempts (sy_server y) ! gr_attempt g; c = at_challenge at in
     \<exists>name policy k. (name, policy) \<in> set (sc_nodes config) \<and>
       gr_result g = \<lparr>AgentID = ''spiffe://'' @ sc_trust_domain config @ ''/spire/agent/'' @ PluginName @ ''/'' @ name,
                      SelectorValues = [''fqdn:'' @ np_fqdn policy]\<rparr> \<and>
       rq_fqdn (at_request at) = np_fqdn policy \<and> length k = 32 \<and> rq_jwk (at_request at) = jwkFor k \<and>
       ch_fqdn c = np_fqdn policy \<and> ch_trust_domain c = sc_trust_domain config \<and> ch_server_id c = serverID (sc_trust_domain config) \<and>
       ch_thumbprint c = thumbprint (jwkFor k) \<and>
       verifyProof J (gr_proof g) (rq_jwk (at_request at)) = Ok (json_print (challenge_json c)) \<and>
       unix_of (gr_checked g) < ch_expires c)"
proof -
  let ?s = "sy_server y" let ?at = "sv_attempts ?s ! gr_attempt g"
  note ok = reachable_ok [OF assms(1)]
  have c: "config_ok config" using assms(1) by (simp add: sys_reachable_def)
  from sys_okD(7) [OF ok assms(2)] have g: "gr_attempt g < length (sv_attempts ?s)"
    "gr_result g = verify_result ?s ?at"
    "verifyProof J (gr_proof g) (rq_jwk (at_request ?at)) = Ok (at_raw ?at)"
    "unix_of (gr_checked g) < ch_expires (at_challenge ?at)"
    by (simp_all add: grant_ok_def Let_def)
  from sys_ok_server [OF ok] g(1) have s: "sv_config ?s = config" "attempt_ok config ?at"
    by (simp_all add: server_ok_def)
  then have a: "gm_get (sv_nodes (initial_server config)) (rq_fqdn (at_request ?at)) = Some (at_node ?at)"
    "is_ok (jwk_key (rq_jwk (at_request ?at)))" by (simp_all add: attempt_ok_def Let_def)
  from initial_nodes [OF c a(1)] obtain name policy where
    p: "(name, policy) \<in> set (sc_nodes config)" "np_fqdn policy = rq_fqdn (at_request ?at)"
      "at_node ?at = node_of name policy" by blast
  from a(2) obtain k where k: "length k = 32" "rq_jwk (at_request ?at) = jwkFor k"
    using jwk_key_OkD by (auto simp: is_ok_iff)
  show ?thesis
    using p k g s unfolding Let_def
    by (intro conjI exI [of _ name] exI [of _ policy] exI [of _ k])
      (simp_all add: attempt_ok_def Let_def verify_result_def node_of_def)
qed

theorem grant_sound_witness:
  "\<exists>y g. sys_reachable ex_jose ex_config (Some ex_registry) y \<and> g \<in> set (sy_grants y) \<and>
    SelectorValues (gr_result g) = [''fqdn:node.example'']"
proof -
  obtain y where y: "sys_reachable ex_jose ex_config (Some ex_registry) y" "sy_grants y \<noteq> []"
    using ex_reach by blast
  then obtain g where g: "g \<in> set (sy_grants y)" by (cases "sy_grants y") auto
  from grant_sound [OF y(1) g] have "SelectorValues (gr_result g) = [''fqdn:node.example'']"
    by (auto simp: ex_config_def Let_def)
  with y g show ?thesis by blast
qed

text \<open>C4. An attempt grants at most once, however many \<^verbatim>\<open>Verify\<close> calls race on it.\<close>

theorem grant_once:
  assumes "sys_reachable J config m y" shows "distinct (map gr_attempt (sy_grants y))"
  using sys_okD(4) [OF reachable_ok [OF assms]] by simp

theorem grant_once_witness:
  "\<exists>y. sys_reachable ex_jose ex_config (Some ex_registry) y \<and> sy_grants y \<noteq> [] \<and> distinct (map gr_attempt (sy_grants y))"
  using ex_reach grant_once by blast

text \<open>C6. The quota: with a clock that does not run backwards, no node is granted more than six results
  in any window of sixty seconds, over all attempts and interleavings.\<close>

theorem grant_quota:
  assumes "sys_reachable J config m y"
  shows "length (filter (\<lambda>g. gr_name g = name \<and> t - seconds 60 < gr_time g \<and> gr_time g \<le> t) (sy_grants y)) \<le> 6"
proof -
  have "length (window t (grant_times y name)) \<le> 6"
    using reachable_quota [OF assms] by (simp add: sys_quota_def quota_ok_def)
  then show ?thesis by (simp add: window_def grant_times_def filter_map o_def conj_commute)
qed

theorem grant_quota_witness:
  "\<exists>y. sys_reachable ex_jose ex_config (Some ex_registry) y \<and> sy_grants y \<noteq> [] \<and>
    length (filter (\<lambda>g. gr_name g = ''alpha'' \<and> seconds 940 < gr_time g \<and> gr_time g \<le> seconds 1000) (sy_grants y)) \<le> 6"
proof -
  obtain y where y: "sys_reachable ex_jose ex_config (Some ex_registry) y" "sy_grants y \<noteq> []"
    using ex_reach by blast
  with grant_quota [OF y(1), of "''alpha''" "seconds 1000"] show ?thesis by auto
qed

text \<open>C13. The table of active attempts: never more than 32 entries, each under its own challenge's
  identifier; and for a registry that knows the configured nodes, the pending gauge of a node has
  moved by exactly the number of its active attempts.\<close>

theorem active_bounded:
  assumes "sys_reachable J config (Some r0) y" "names_known config r0" "gm_get_or False (mr_nodes r0) name"
  shows "gm_len (sv_active (sy_server y)) \<le> 32 \<and>
    (\<forall>cid a. gm_get (sv_active (sy_server y)) cid = Some a \<longrightarrow> ch_id (at_challenge (sv_attempts (sy_server y) ! a)) = cid) \<and>
    (\<exists>r. sv_metrics (sy_server y) = Some r \<and>
       pending_of r name = pending_of r0 name + int (active_for (sy_server y) name))"
  using sys_ok_server [OF reachable_ok [OF assms(1)]] reachable_gauge [OF assms(1,2)] assms(3)
  by (auto simp: server_ok_def gauge_ok_def)

theorem active_bounded_witness:
  "\<exists>y. sys_reachable ex_jose ex_config (Some ex_registry) y \<and> gm_len (sv_active (sy_server y)) \<le> 32"
proof -
  have "names_known ex_config ex_registry" "gm_get_or False (mr_nodes ex_registry) ''alpha''"
    by (simp_all add: names_known_def ex_config_def ex_registry_def register_def register1_def Let_def)
  with ex_reach active_bounded show ?thesis by metis
qed

end
