(* ===== verification/Attest_Plugin.thy ===== *)
theory Attest_Plugin
  imports Attest_Agent Attest_Server_Runs
begin

text \<open>
  \<^verbatim>\<open>realm-node-attest/adapters.go\<close>: the two SPIRE plugins. A stream handler is a function of the
  plugin, and of a record with what each call on the stream, each reading of a context and each
  reading of a clock gives, in the order of the code; it returns the error, the messages it sent
  and the new state. The gRPC library is the record \<open>grpc_lib\<close>, HCL decoding and opening a file the
  record \<open>plugin_files\<close>. A handler runs its attempt alone here; how attempts of one server interleave is
  the subject of \<^verbatim>\<open>Attest_Server_Runs\<close>.
\<close>

section \<open>Libraries\<close>

record grpc_lib =
  gl_code :: "go_error \<Rightarrow> grpc_code"
  gl_from_context :: "go_error \<Rightarrow> go_error"

record plugin_files =
  pf_hcl :: "string \<Rightarrow> string option"
  pf_open :: "string \<Rightarrow> string option"

section \<open>Configuration\<close>

record ConfigureRequest =
  cq_hcl :: string
  cq_trust_domain :: string

definition dec_agent_config :: "AgentConfig jdec" where
  "dec_agent_config = dec_struct True
     [(''fqdn'', dec_field ac_fqdn ac_fqdn_update dec_string),
      (''trust_domain'', dec_field ac_trust_domain ac_trust_domain_update dec_string),
      (''control_socket'', dec_field ac_control_socket ac_control_socket_update dec_string),
      (''metrics_address'', dec_field ac_metrics_address ac_metrics_address_update dec_string)]"

definition zero_policy :: NodePolicy where
  "zero_policy = \<lparr>np_fqdn = [], np_addresses = []\<rparr>"

definition dec_policy :: "NodePolicy jdec" where
  "dec_policy = dec_struct True
     [(''fqdn'', dec_field np_fqdn np_fqdn_update dec_string),
      (''addresses'', dec_field np_addresses np_addresses_update (dec_slice [] dec_string))]"

definition dec_server_config :: "ServerConfig jdec" where
  "dec_server_config = dec_struct True
     [(''trust_domain'', dec_field sc_trust_domain sc_trust_domain_update dec_string),
      (''nodes'', dec_field sc_nodes sc_nodes_update (dec_map zero_policy dec_policy)),
      (''port'', dec_field sc_port sc_port_update dec_int64),
      (''trust_http_transport'', dec_field sc_trust_http sc_trust_http_update dec_bool),
      (''metrics_address'', dec_field sc_metrics_address sc_metrics_address_update dec_string)]"

definition zero_agent_config :: AgentConfig where
  "zero_agent_config = \<lparr>ac_fqdn = [], ac_trust_domain = [], ac_control_socket = [], ac_metrics_address = []\<rparr>"

definition zero_server_config :: ServerConfig where
  "zero_server_config = \<lparr>sc_trust_domain = [], sc_nodes = [], sc_port = 0, sc_trust_http = False, sc_metrics_address = []\<rparr>"

abbreviation invalid_argument :: "string \<Rightarrow> 'a result" where
  "invalid_argument msg \<equiv> Inl (ErrStatus CodeInvalidArgument msg)"

definition readPluginConfig ::
  "plugin_files \<Rightarrow> 'a jdec \<Rightarrow> 'a \<Rightarrow> ConfigureRequest option \<Rightarrow> 'a result" where
  "readPluginConfig F dec target req =
     (case req of
        None \<Rightarrow> invalid_argument ''configuration is required''
      | Some rq \<Rightarrow>
          (case pf_hcl F (cq_hcl rq) of
             None \<Rightarrow> invalid_argument ''invalid plugin_data HCL''
           | Some config_file \<Rightarrow>
               if config_file = [] then invalid_argument ''config_file is required''
               else case pf_open F config_file of
                 None \<Rightarrow> invalid_argument ''cannot open config_file''
               | Some data \<Rightarrow>
                   (case json_next data of
                      None \<Rightarrow> invalid_argument ''invalid config_file JSON''
                    | Some (j, rest) \<Rightarrow>
                        (case dec j target of
                           None \<Rightarrow> invalid_argument ''invalid config_file JSON''
                         | Some cfg \<Rightarrow>
                             if \<not> json_at_eof rest then invalid_argument ''config_file must contain one JSON object''
                             else Ok cfg))))"

definition checkTrustDomain :: "ConfigureRequest option \<Rightarrow> string \<Rightarrow> unit result" where
  "checkTrustDomain req trustDomain =
     (if trustDomain = [] \<or> (case req of None \<Rightarrow> [] | Some rq \<Rightarrow> cq_trust_domain rq) \<noteq> trustDomain
      then invalid_argument ''JSON trust_domain must match the SPIRE trust domain'' else Ok ())"

definition metrics_or_new :: "string \<Rightarrow> metricsRegistry option \<Rightarrow> metricsRegistry option" where
  "metrics_or_new component m = (case m of None \<Rightarrow> newMetrics component | Some r \<Rightarrow> Some r)"

record AgentPlugin =
  ap_config :: "AgentConfig option"
  ap_metrics :: "metricsRegistry option"
  ap_listener :: metricsListener

text \<open>\<open>listen\<close> is what listening on the new metrics address gives, \<open>close_res\<close> what closing the old does.\<close>

definition Configure_agent ::
  "plugin_files \<Rightarrow> nat result \<Rightarrow> unit result \<Rightarrow> ConfigureRequest option \<Rightarrow> AgentPlugin \<Rightarrow>
    unit result \<times> AgentPlugin \<times> nat list" where
  "Configure_agent F listen close_res req p =
     (case readPluginConfig F dec_agent_config zero_agent_config req of
        Inl e \<Rightarrow> (Inl e, p, [])
      | Inr cfg \<Rightarrow>
      (case checkTrustDomain req (ac_trust_domain cfg) of
        Inl e \<Rightarrow> (Inl e, p, [])
      | Inr _ \<Rightarrow>
      (case validateAgentConfig cfg of
        Inl e \<Rightarrow> (invalid_argument ''invalid agent configuration'', p, [])
      | Inr _ \<Rightarrow>
        let p1 = p\<lparr>ap_metrics := metrics_or_new ''agent'' (ap_metrics p)\<rparr> in
        case listener_configure listen close_res (ac_metrics_address cfg) (ap_listener p1) of
          (Inl e, l, closed) \<Rightarrow> (invalid_argument ''cannot configure metrics listener'', p1\<lparr>ap_listener := l\<rparr>, closed)
        | (Inr _, l, closed) \<Rightarrow>
            (Ok (), p1\<lparr>ap_listener := l, ap_metrics := map_option (register [ac_fqdn cfg]) (ap_metrics p1),
                       ap_config := Some cfg\<rparr>, closed))))"

text \<open>
  The closure \<^verbatim>\<open>begin\<close> holds the configured server; the registry is shared by the plugin and its
  server, and kept in \<open>sp_metrics\<close>.
\<close>

record ServerPlugin =
  sp_begin :: "Server option"
  sp_nodes :: "(string, node) gmap"
  sp_metrics :: "metricsRegistry option"
  sp_listener :: metricsListener

definition Configure_server ::
  "plugin_files \<Rightarrow> nat result \<Rightarrow> unit result \<Rightarrow> ConfigureRequest option \<Rightarrow> ServerPlugin \<Rightarrow>
    unit result \<times> ServerPlugin \<times> nat list" where
  "Configure_server F listen close_res req p =
     (case readPluginConfig F dec_server_config zero_server_config req of
        Inl e \<Rightarrow> (Inl e, p, [])
      | Inr cfg \<Rightarrow>
      (case checkTrustDomain req (sc_trust_domain cfg) of
        Inl e \<Rightarrow> (Inl e, p, [])
      | Inr _ \<Rightarrow>
      (case NewServer cfg of
        Inl e \<Rightarrow> (invalid_argument ''invalid server configuration'', p, [])
      | Inr server \<Rightarrow>
        let p1 = p\<lparr>sp_metrics := metrics_or_new ''server'' (sp_metrics p)\<rparr> in
        case listener_configure listen close_res (sc_metrics_address cfg) (sp_listener p1) of
          (Inl e, l, closed) \<Rightarrow> (invalid_argument ''cannot configure metrics listener'', p1\<lparr>sp_listener := l\<rparr>, closed)
        | (Inr _, l, closed) \<Rightarrow>
            let m = map_option (\<lambda>m. (foldl (\<lambda>m n. register [nd_name (snd n)] m) m (sv_nodes server))\<lparr>mr_capacity := 32\<rparr>)
                      (sp_metrics p1)
            in (Ok (), p1\<lparr>sp_listener := l, sp_metrics := m, sp_nodes := sv_nodes server,
                          sp_begin := Some (server\<lparr>sv_metrics := m\<rparr>)\<rparr>, closed))))"

definition Close_agent_plugin :: "unit result \<Rightarrow> AgentPlugin \<Rightarrow> unit result \<times> AgentPlugin \<times> nat list" where
  "Close_agent_plugin close_res p =
     (case listener_close close_res (ap_listener p) of (r, l, closed) \<Rightarrow> (r, p\<lparr>ap_listener := l\<rparr>, closed))"

definition Close_server_plugin :: "unit result \<Rightarrow> ServerPlugin \<Rightarrow> unit result \<times> ServerPlugin \<times> nat list" where
  "Close_server_plugin close_res p =
     (case listener_close close_res (sp_listener p) of (r, l, closed) \<Rightarrow> (r, p\<lparr>sp_listener := l\<rparr>, closed))"

section \<open>Receiving\<close>

text \<open>
  Which case of the \<^verbatim>\<open>select\<close> is taken: one of the contexts is done, or \<^verbatim>\<open>Recv\<close> has completed, after
  which both contexts are read again.
\<close>

datatype 'm select_case =
    CtxDone go_error | StreamDone go_error
  | Completed "'m result" "go_error option" "go_error option"

record 'm recv_run =
  rv_ctx :: "go_error option"
  rv_stream :: "go_error option"
  rv_select :: "'m select_case"

definition receivePluginMessage :: "grpc_lib \<Rightarrow> 'm recv_run \<Rightarrow> 'm result" where
  "receivePluginMessage G run =
     (case rv_ctx run of
        Some e \<Rightarrow> Inl (gl_from_context G e)
      | None \<Rightarrow>
          (case rv_stream run of
             Some e \<Rightarrow> Inl (gl_from_context G e)
           | None \<Rightarrow>
               (case rv_select run of
                  CtxDone e \<Rightarrow> Inl (gl_from_context G e)
                | StreamDone e \<Rightarrow> Inl (gl_from_context G e)
                | Completed r ctx stream \<Rightarrow>
                    (case ctx of
                       Some e \<Rightarrow> Inl (gl_from_context G e)
                     | None \<Rightarrow> (case stream of Some e \<Rightarrow> Inl (gl_from_context G e) | None \<Rightarrow> r)))))"

definition attestationError :: "grpc_lib \<Rightarrow> go_error option \<Rightarrow> grpc_code \<Rightarrow> string \<Rightarrow> go_error" where
  "attestationError G ctx_err code message =
     (case ctx_err of Some e \<Rightarrow> gl_from_context G e | None \<Rightarrow> ErrStatus code message)"

section \<open>The agent's stream\<close>

text \<open>How a handler leaves: its error, and the labels of the deferred record.\<close>

record stream_exit =
  sx_err :: "unit result"
  sx_outcome :: string
  sx_stage :: string
  sx_reason :: string

datatype agent_message = SentPayload string | SentResponse string

record 'w agent_stream =
  as_begin_ctx :: "go_error option"
  as_send_payload :: "unit result"
  as_recv :: "string option recv_run"
  as_now :: time
  as_dial :: "'w dial"
  as_fail_ctx1 :: "go_error option"
  as_fail_ctx2 :: "go_error option"
  as_send_ctx :: "go_error option"
  as_send_response :: "unit result"
  as_submit :: timing
  as_recv_end :: "string option recv_run"
  as_close_dial :: "'w dial"
  as_end_ctx :: "go_error option"
  as_end :: timing

text \<open>\<open>submitted\<close> is whether the success was recorded, and the deferred call must not record again.\<close>

definition aid_finish ::
  "grpc_lib \<Rightarrow> 'w agent_stream \<Rightarrow> AgentConfig \<Rightarrow> stream_exit \<Rightarrow> bool \<Rightarrow> metricsRegistry option \<Rightarrow> metricsRegistry option" where
  "aid_finish G st cfg x submitted m =
     (let m1 = map_option (pendingAdd (ac_fqdn cfg) (- 1)) m in
      if submitted then m1
      else
        let (stage, reason) =
              (case sx_err x of
                 Inl e \<Rightarrow> classifyError (gl_code G) (as_end_ctx st) e (sx_stage x) (sx_reason x)
               | Inr _ \<Rightarrow> (sx_stage x, sx_reason x))
        in map_option (record_metric (tm_end (as_end st)) (ac_fqdn cfg) (sx_outcome x) stage reason (tm_duration (as_end st))) m1)"

text \<open>From the payload on, with the attempt begun.\<close>

definition aid_session ::
  "grpc_lib \<Rightarrow> ('sg, 'ob, 'z) jose_lib_scheme \<Rightarrow> 'w agent_stream \<Rightarrow> AgentConfig \<Rightarrow> AgentAttempt \<Rightarrow>
    metricsRegistry option \<Rightarrow> 'w \<Rightarrow>
    stream_exit \<times> bool \<times> metricsRegistry option \<times> AgentAttempt \<times> 'w \<times> agent_message list" where
  "aid_session G J st cfg a m w =
     (let exit = (\<lambda>err outcome stage reason. \<lparr>sx_err = err, sx_outcome = outcome, sx_stage = stage, sx_reason = reason\<rparr>);
          sent = [SentPayload (Payload a)] in
      case as_send_payload st of
        Inl e \<Rightarrow> (exit (Inl e) ''failure'' ''payload'' ''stream_error'', False, m, a, w, [])
      | Inr _ \<Rightarrow>
      (case receivePluginMessage G (as_recv st) of
        Inl e \<Rightarrow>
          if error_is e ErrEOF then (exit (Ok ()) ''skipped'' ''challenge'' ''no_challenge'', False, m, a, w, sent)
          else (exit (Inl e) ''failure'' ''challenge'' ''stream_error'', False, m, a, w, sent)
      | Inr challenge \<Rightarrow>
      if challenge = None \<or> challenge = Some []
      then (exit (invalid_argument ''challenge is required'') ''failure'' ''challenge'' ''invalid_challenge'', False, m, a, w, sent)
      else (case Respond J (as_dial st) (as_now st) (the challenge) a w of
        (Inl e, a', w') \<Rightarrow>
          (case classifyError (gl_code G) (as_fail_ctx1 st) e ''challenge'' ''invalid_challenge'' of
             (stage, reason) \<Rightarrow>
               (exit (Inl (attestationError G (as_fail_ctx2 st) CodeUnauthenticated ''cannot answer attestation challenge''))
                  ''failure'' stage reason, False, m, a', w', sent))
      | (Inr response, a', w') \<Rightarrow>
      (case as_send_response st of
        Inl e \<Rightarrow> (exit (Inl e) ''failure'' ''response'' ''stream_error'', False, m, a', w', sent)
      | Inr _ \<Rightarrow>
          let sent2 = sent @ [SentResponse response];
              submitted = (as_send_ctx st = None);
              m2 = (if submitted
                    then map_option (record_metric (tm_end (as_submit st)) (ac_fqdn cfg) ''success'' ''response''
                           ''proof_submitted'' (tm_duration (as_submit st))) m
                    else m) in
          case receivePluginMessage G (as_recv_end st) of
            Inl e \<Rightarrow>
              (exit (if error_is e ErrEOF then Ok () else Inl e) ''failure'' ''response'' ''stream_error'',
               submitted, m2, a', w', sent2)
          | Inr _ \<Rightarrow>
              (exit (invalid_argument ''unexpected additional challenge'') ''failure'' ''response'' ''stream_error'',
               submitted, m2, a', w', sent2)))))"

definition aidAttestation ::
  "grpc_lib \<Rightarrow> ('sg, 'ob, 'z) jose_lib_scheme \<Rightarrow> string result \<Rightarrow> 'w agent_stream \<Rightarrow> AgentConfig \<Rightarrow>
    metricsRegistry option \<Rightarrow> 'w \<Rightarrow>
    unit result \<times> metricsRegistry option \<times> AgentAttempt option \<times> 'w \<times> agent_message list" where
  "aidAttestation G J generated st cfg metrics w =
     (let m = map_option (pendingAdd (ac_fqdn cfg) 1) metrics in
      case BeginAgent generated cfg of
        Inl _ \<Rightarrow>
          (let err = Inl (attestationError G (as_begin_ctx st) CodeInternal ''cannot start agent attestation'') in
           (err, aid_finish G st cfg \<lparr>sx_err = err, sx_outcome = ''failure'', sx_stage = ''start'', sx_reason = ''internal''\<rparr> False m,
            None, w, []))
      | Inr a \<Rightarrow>
          (case aid_session G J st cfg a m w of
             (x, submitted, m', a', w', sent) \<Rightarrow>
               (case Close_agent (as_close_dial st) a' w' of
                  (a'', w'') \<Rightarrow> (sx_err x, aid_finish G st cfg x submitted m', Some a'', w'', sent))))"

definition AidAttestation ::
  "grpc_lib \<Rightarrow> ('sg, 'ob, 'z) jose_lib_scheme \<Rightarrow> string result \<Rightarrow> 'w agent_stream \<Rightarrow> AgentPlugin \<Rightarrow> 'w \<Rightarrow>
    unit result \<times> AgentPlugin \<times> AgentAttempt option \<times> 'w \<times> agent_message list" where
  "AidAttestation G J generated st p w =
     (let m = metrics_or_new ''agent'' (ap_metrics p) in
      case ap_config p of
        None \<Rightarrow>
          (Inl (ErrStatus CodeFailedPrecondition ''plugin is not configured''),
           p\<lparr>ap_metrics := map_option (record_metric (tm_end (as_end st)) ''unknown'' ''failure'' ''start'' ''not_configured'' 0) m\<rparr>,
           None, w, [])
      | Some cfg \<Rightarrow>
          (case aidAttestation G J generated st cfg m w of
             (err, m', a, w', sent) \<Rightarrow> (err, p\<lparr>ap_metrics := m'\<rparr>, a, w', sent)))"

section \<open>The server's stream\<close>

datatype attest_request = ReqPayload string | ReqChallengeResponse string | ReqOther

datatype attest_response = SentChallenge string | SentAttributes string "string list" bool

text \<open>\<open>ss_ended\<close> is whether the attempt's context ended, and closed it, before \<^verbatim>\<open>Verify\<close> was called.\<close>

record server_stream =
  ss_recv :: "attest_request result"
  ss_begin_ctx :: "go_error option"
  ss_rand1 :: "string result"
  ss_rand2 :: "string result"
  ss_begin_now :: time
  ss_begin_fail1 :: "go_error option"
  ss_begin_fail2 :: "go_error option"
  ss_send_challenge :: "unit result"
  ss_recv_response :: "attest_request recv_run"
  ss_recv_fail :: "go_error option"
  ss_ended :: bool
  ss_env :: fetch_env
  ss_now0 :: time
  ss_fetch_ctx :: "go_error option"
  ss_now1 :: time
  ss_now2 :: time
  ss_verify_fail1 :: "go_error option"
  ss_verify_fail2 :: "go_error option"
  ss_send_attributes :: "unit result"
  ss_end_ctx :: "go_error option"
  ss_end :: timing

definition attest_finish ::
  "grpc_lib \<Rightarrow> server_stream \<Rightarrow> string \<Rightarrow> stream_exit \<Rightarrow> metricsRegistry option \<Rightarrow> metricsRegistry option" where
  "attest_finish G st metricNode x m =
     (let (stage, reason) =
            (case sx_err x of
               Inl e \<Rightarrow> classifyError (gl_code G) (ss_end_ctx st) e (sx_stage x) (sx_reason x)
             | Inr _ \<Rightarrow> (sx_stage x, sx_reason x))
      in map_option (record_metric (tm_end (ss_end st)) metricNode (sx_outcome x) stage reason (tm_duration (ss_end st))) m)"

definition metric_node :: "(string, node) gmap \<Rightarrow> string \<Rightarrow> string" where
  "metric_node nodes payload =
     (case decodeJSON dec_request zero_request payload of
        Inl _ \<Rightarrow> ''unknown''
      | Inr claim \<Rightarrow> (case gm_get nodes (rq_fqdn claim) of None \<Rightarrow> ''unknown'' | Some n \<Rightarrow> nd_name n))"

text \<open>From the challenge on, with the attempt \<open>a\<close> begun.\<close>

definition attest_session ::
  "grpc_lib \<Rightarrow> ('sg, 'ob, 'z) jose_lib_scheme \<Rightarrow> server_stream \<Rightarrow> nat \<Rightarrow> Server \<Rightarrow>
    stream_exit \<times> Server \<times> attest_response list" where
  "attest_session G J st a s =
     (let exit = (\<lambda>err outcome stage reason. \<lparr>sx_err = err, sx_outcome = outcome, sx_stage = stage, sx_reason = reason\<rparr>);
          sent = [SentChallenge (at_raw (sv_attempts s ! a))] in
      case ss_send_challenge st of
        Inl e \<Rightarrow> (exit (Inl e) ''failure'' ''challenge'' ''stream_error'', s, [])
      | Inr _ \<Rightarrow>
      (case receivePluginMessage G (ss_recv_response st) of
        Inl e \<Rightarrow>
          (case classifyError (gl_code G) (ss_recv_fail st) e ''response'' ''stream_error'' of
             (stage, reason) \<Rightarrow> (exit (Inl e) ''failure'' stage reason, s, sent))
      | Inr message \<Rightarrow>
      (case message of
        ReqChallengeResponse response \<Rightarrow>
          if response = []
          then (exit (invalid_argument ''challenge response is required'') ''failure'' ''response'' ''invalid_response'', s, sent)
          else (case Verify J (ss_env st) a response (ss_now0 st) (ss_fetch_ctx st) (ss_now1 st) (ss_now2 st)
                       (if ss_ended st then Close a s else s) of
            (Inl e, s') \<Rightarrow>
              (case classifyError (gl_code G) (ss_verify_fail1 st) e ''verify'' ''invalid_proof'' of
                 (stage, reason) \<Rightarrow>
                   (exit (Inl (attestationError G (ss_verify_fail2 st) CodeUnauthenticated ''attestation verification failed''))
                      ''failure'' stage reason, s', sent))
          | (Inr result, s') \<Rightarrow>
              if AgentID result = []
              then (exit (Inl (ErrStatus CodeInternal ''attestation result has no agent ID'')) ''failure'' ''attributes'' ''invalid_result'', s', sent)
              else (case ss_send_attributes st of
                Inl e \<Rightarrow> (exit (Inl e) ''failure'' ''attributes'' ''stream_error'', s', sent)
              | Inr _ \<Rightarrow>
                  (exit (Ok ()) ''success'' ''attributes'' ''attributes_sent'', s',
                   sent @ [SentAttributes (AgentID result) (SelectorValues result) True])))
      | _ \<Rightarrow> (exit (invalid_argument ''challenge response is required'') ''failure'' ''response'' ''invalid_response'', s, sent))))"

definition attest_stream ::
  "grpc_lib \<Rightarrow> ('sg, 'ob, 'z) jose_lib_scheme \<Rightarrow> server_stream \<Rightarrow> (string, node) gmap \<Rightarrow> Server \<Rightarrow>
    stream_exit \<times> string \<times> Server \<times> attest_response list" where
  "attest_stream G J st nodes s =
     (let exit = (\<lambda>err stage reason. \<lparr>sx_err = err, sx_outcome = ''failure'', sx_stage = stage, sx_reason = reason\<rparr>);
          missing = (exit (invalid_argument ''attestation payload is required'') ''payload'' ''invalid_payload'', ''unknown'', s, []) in
      case ss_recv st of
        Inl e \<Rightarrow> (exit (Inl e) ''payload'' ''stream_error'', ''unknown'', s, [])
      | Inr message \<Rightarrow>
      (case message of
        ReqPayload payload \<Rightarrow>
          if payload = [] then missing
          else (case Begin s (ss_begin_ctx st) payload (ss_rand1 st) (ss_rand2 st) (ss_begin_now st) of
            (Inl e, s') \<Rightarrow>
              (case classifyError (gl_code G) (ss_begin_fail1 st) e ''payload'' ''invalid_payload'' of
                 (stage, reason) \<Rightarrow>
                   (exit (Inl (attestationError G (ss_begin_fail2 st) CodeUnauthenticated ''cannot start server attestation''))
                      stage reason, metric_node nodes payload, s', []))
          | (Inr a, s') \<Rightarrow>
              (case attest_session G J st a s' of
                 (x, s'', sent) \<Rightarrow> (x, metric_node nodes payload, Close a s'', sent)))
      | _ \<Rightarrow> missing))"

definition Attest ::
  "grpc_lib \<Rightarrow> ('sg, 'ob, 'z) jose_lib_scheme \<Rightarrow> server_stream \<Rightarrow> ServerPlugin \<Rightarrow>
    unit result \<times> ServerPlugin \<times> attest_response list" where
  "Attest G J st p =
     (let m = metrics_or_new ''server'' (sp_metrics p) in
      case sp_begin p of
        None \<Rightarrow>
          (let err = Inl (ErrStatus CodeFailedPrecondition ''plugin is not configured'') in
           (err, p\<lparr>sp_metrics := attest_finish G st ''unknown''
              \<lparr>sx_err = err, sx_outcome = ''failure'', sx_stage = ''start'', sx_reason = ''not_configured''\<rparr> m\<rparr>, []))
      | Some s \<Rightarrow>
          (case attest_stream G J st (sp_nodes p) (s\<lparr>sv_metrics := m\<rparr>) of
             (x, metricNode, s', sent) \<Rightarrow>
               let m' = attest_finish G st metricNode x (sv_metrics s') in
               (sx_err x, p\<lparr>sp_metrics := m', sp_begin := Some (s'\<lparr>sv_metrics := m'\<rparr>)\<rparr>, sent)))"

section \<open>Every agent stream is accounted for\<close>

lemma pendingAdd_back:
  "pending_of (pendingAdd n d m) k = pending_of m k + (if k = nodeLocked m n then d else 0)"
  "nodeLocked (pendingAdd n d m) k = nodeLocked m k" "mr_events (pendingAdd n d m) = mr_events m"
  by (simp_all add: pendingAdd_def pending_of_def nodeLocked_def Let_def)

lemma record_event [simp]:
  "length (mr_events (record_metric now n out st re d m)) = Suc (length (mr_events m))"
  "nodeLocked (record_metric now n out st re d m) k = nodeLocked m k"
  "ev_outcome (last (mr_events (record_metric now n out st re d m))) = bounded out outcomes ''failure''"
  by (simp_all add: record_metric_def nodeLocked_def Let_def)

lemma Close_agent_closed: "ag_closed (fst (Close_agent dial a w))"
  by (simp add: Close_agent_def Let_def)

lemma aid_session_metrics:
  assumes "aid_session G J st cfg a (Some r) w = (x, submitted, m', a', w', sent)"
  shows "m' = (if submitted
     then Some (record_metric (tm_end (as_submit st)) (ac_fqdn cfg) ''success'' ''response'' ''proof_submitted''
       (tm_duration (as_submit st)) r) else Some r)"
  using assms by (auto simp: aid_session_def Let_def split: sum.splits if_splits prod.splits)

lemma aid_session_attempt:
  assumes "aid_session G J st cfg a m w = (x, submitted, m', a', w', sent)"
  shows "(a', w') = (a, w) \<or> (\<exists>raw res. Respond J (as_dial st) (as_now st) raw a w = (res, a', w'))"
  using assms
  by (auto simp: aid_session_def Let_def split: sum.splits if_splits prod.splits)

lemma aid_finish_accounts:
  assumes "m = (if submitted then Some (record_metric t n o' s' r' d (pendingAdd (ac_fqdn cfg) 1 r)) else Some (pendingAdd (ac_fqdn cfg) 1 r))"
  shows "\<exists>r'. aid_finish G st cfg x submitted m = Some r' \<and> length (mr_events r') = Suc (length (mr_events r)) \<and>
    (\<forall>k. pending_of r' k = pending_of r k)"
  unfolding assms by (auto simp: aid_finish_def Let_def pendingAdd_back split: prod.splits)

lemma Respond_keeps_key:
  assumes "Respond J dial now raw a w = (res, a', w')" shows "ag_closed a' = ag_closed a" "ag_key a' = ag_key a"
  using assms by (cases rule: Respond_cases; simp)+

text \<open>Whatever happens on an agent's stream, the handler records exactly one event, leaves the
  pending gauge of every node as it was, and leaves the attempt closed with its private key erased.\<close>

theorem aid_accounted:
  "case aidAttestation G J generated st cfg (Some r) w of (err, m', attempt, w', sent) \<Rightarrow>
     (\<exists>r'. m' = Some r' \<and> length (mr_events r') = Suc (length (mr_events r)) \<and> (\<forall>n. pending_of r' n = pending_of r n)) \<and>
     (case attempt of None \<Rightarrow> sent = [] | Some a \<Rightarrow> ag_closed a \<and> ag_key a = [])"
proof (cases "BeginAgent generated cfg")
  case (Inl e)
  then show ?thesis
    using aid_finish_accounts [where submitted = False and r = r and cfg = cfg and m = "Some (pendingAdd (ac_fqdn cfg) 1 r)"]
    by (simp add: aidAttestation_def Let_def)
next
  case (Inr a)
  obtain x submitted m' a' w' sent where s: "aid_session G J st cfg a (Some (pendingAdd (ac_fqdn cfg) 1 r)) w = (x, submitted, m', a', w', sent)"
    by (metis surj_pair)
  obtain a'' w'' where c: "Close_agent (as_close_dial st) a' w' = (a'', w'')" by fastforce
  have "\<not> ag_closed a" using Inr by (auto elim: BeginAgent_Ok)
  then have "\<not> ag_closed a'" using aid_session_attempt [OF s] by (auto dest: Respond_keeps_key(1))
  then have "ag_closed a'' \<and> ag_key a'' = []" using c by (auto simp: Close_agent_def Let_def)
  with Inr s c show ?thesis
    using aid_finish_accounts [OF aid_session_metrics [OF s]] by (simp add: aidAttestation_def Let_def)
qed

section \<open>A stream leaves no proof behind\<close>

text \<open>A control socket that may fail: a request reaches the responder and is answered, or reaches it and the reply is lost, or
  does not reach it.\<close>

definition reached :: "'w dial \<Rightarrow> 'w dial \<Rightarrow> bool" where
  "reached d d' = (\<forall>socket meth url body w. d' socket meth url body w \<in> {d socket meth url body w, (None, snd (d socket meth url body w))})"

definition unreliable :: "'w dial \<Rightarrow> 'w dial \<Rightarrow> bool" where
  "unreliable d d' = (\<forall>socket meth url body w. d' socket meth url body w \<in> {d socket meth url body w, (None, snd (d socket meth url body w)), (None, w)})"

lemma reached_snd: "reached d d' \<Longrightarrow> snd (d' socket meth url body w) = snd (d socket meth url body w)"
  unfolding reached_def by (metis empty_iff insert_iff snd_conv)

lemma unreliable_snd:
  "unreliable d d' \<Longrightarrow> snd (d' socket meth url body w) = snd (d socket meth url body w) \<or> snd (d' socket meth url body w) = w"
  unfolding unreliable_def by (metis empty_iff insert_iff snd_conv)

lemma put_new:
  assumes "control_dial J clock now tm socket ''PUT'' (control_url p) body r = (st, r')" "validRandom p"
    and "gm_get (rs_proofs r) pid = None" "gm_get (rs_proofs r') pid = Some pf"
  shows "pid = p \<and> sp_expires pf \<le> unix_of now + 120"
proof -
  from assms(1) obtain req ans where req: "control J clock now tm req r = (ans, r')" "hq_path req = ''/v1/proofs/'' @ p"
    by (rule control_dial_put)
  have id: "proofID (hq_path req) ''/v1/proofs/'' = (p, True)" unfolding req(2) by (rule proofID_append [OF assms(2)])
  have e: "gm_get (rs_proofs (expireLocked clock r)) pid = None" using assms(3) by (rule expireLocked_none)
  from req(1) show ?thesis
  proof (cases rule: control_cases)
    case (put pid' body' c)
    then show ?thesis using assms(4) e id parseProof_valid [OF put(6)]
      by (auto simp: put_proof_def validateChallenge_iff split: if_splits)
  qed (use assms(3,4) e in \<open>auto simp: delete_proof_def split: if_splits\<close>)
qed

text \<open>C17. An agent's stream leaves no proof behind, however it ends and whatever becomes of its requests on the control
  socket, as long as the request to delete reaches the responder: a proof that was published although the reply was lost is
  deleted too. Even if the request to delete is lost, what stays behind expires at most 120 seconds after it was
  published.\<close>

theorem aid_leaves_no_proof:
  assumes "unreliable (control_dial J clock now tm) (as_dial st)" "unreliable (control_dial J clock' now' tm') (as_close_dial st)"
    and "aidAttestation G J generated st cfg m r = (err, m', attempt, r', sent)" "gm_get (rs_proofs r) pid = None"
  shows "(reached (control_dial J clock' now' tm') (as_close_dial st) \<longrightarrow> gm_get (rs_proofs r') pid = None) \<and>
    (\<forall>p. gm_get (rs_proofs r') pid = Some p \<longrightarrow> sp_expires p \<le> unix_of now + 120)"
proof (cases "BeginAgent generated cfg")
  case (Inl e)
  with assms(3,4) show ?thesis by (simp add: aidAttestation_def Let_def)
next
  case (Inr a)
  obtain x submitted m1 a1 r1 sent1 where s:
    "aid_session G J st cfg a (map_option (pendingAdd (ac_fqdn cfg) 1) m) r = (x, submitted, m1, a1, r1, sent1)"
    by (metis surj_pair)
  obtain a2 r2 where c: "Close_agent (as_close_dial st) a1 r1 = (a2, r2)" by fastforce
  have r2: "r2 = r'" using assms(3) Inr s c by (simp add: aidAttestation_def Let_def)
  have fresh: "\<not> ag_closed a" "ag_published a = []" using Inr by (auto elim: BeginAgent_Ok)
  have quiet: ?thesis if "ag_published a1 = []" "r1 = r"
    using c that r2 assms(4) by (auto simp: Close_agent_def Let_def split: if_splits)
  from aid_session_attempt [OF s] show ?thesis
  proof
    assume "(a1, r1) = (a, r)"
    then show ?thesis using quiet fresh by simp
  next
    assume "\<exists>raw res. Respond J (as_dial st) (as_now st) raw a r = (res, a1, r1)"
    then obtain raw res where "Respond J (as_dial st) (as_now st) raw a r = (res, a1, r1)" by blast
    then show ?thesis
    proof (cases rule: Respond_cases)
      case (sent ch pf u)
      let ?socket = "ac_control_socket (ag_config a)" and ?put = "control_dial J clock now tm" and ?del = "control_dial J clock' now' tm'"
      have v: "validRandom (ch_id ch)" using sent(3) by (simp add: answers_def validateChallenge_iff)
      have "r1 = snd (as_dial st ?socket ''PUT'' (control_url (ch_id ch)) pf r)"
        using controlRequest_sends [OF v, of "as_dial st" ?socket "''PUT''" pf r] sent(6) by simp
      with unreliable_snd [OF assms(1)] have "r1 = snd (?put ?socket ''PUT'' (control_url (ch_id ch)) pf r) \<or> r1 = r" by metis
      then have new: "pid = ch_id ch \<and> sp_expires p \<le> unix_of now + 120" if "gm_get (rs_proofs r1) pid = Some p" for p
        using put_new [OF _ v assms(4) that] assms(4) that by (metis option.distinct(1) prod.collapse)
      have r': "r' = snd (as_close_dial st ?socket ''DELETE'' (control_url (ch_id ch)) [] r1)"
        using c r2 sent(1,5) validRandom_nonempty [OF v] controlRequest_sends [OF v, of "as_close_dial st" ?socket "''DELETE''" "[]" r1]
        by (auto simp: Close_agent_def Let_def)
      have del: "snd (?del ?socket ''DELETE'' (control_url (ch_id ch)) [] r1) = snd (control_delete tm' (ch_id ch) r1)"
        by (simp add: control_dial_delete [OF v])
      have gone: "gm_get (rs_proofs (snd (control_delete tm' (ch_id ch) r1))) pid = None"
        using new by (cases "gm_get (rs_proofs r1) pid") (auto simp: control_delete_def Let_def)
      have "r' = snd (control_delete tm' (ch_id ch) r1) \<or> r' = r1" using unreliable_snd [OF assms(2)] r' del by metis
      then have "\<forall>p. gm_get (rs_proofs r') pid = Some p \<longrightarrow> sp_expires p \<le> unix_of now + 120" using new gone by auto
      moreover have "gm_get (rs_proofs r') pid = None" if "reached ?del (as_close_dial st)"
        using reached_snd [OF that] r' del gone by simp
      ultimately show ?thesis by blast
    qed (use fresh quiet in simp_all)
  qed
qed

definition ex_grpc :: grpc_lib where
  "ex_grpc = \<lparr>gl_code = (\<lambda>e. case e of ErrStatus c _ \<Rightarrow> c | _ \<Rightarrow> CodeUnknown),
     gl_from_context = (\<lambda>e. case e of ErrCanceled \<Rightarrow> ErrStatus CodeCanceled ''context canceled''
       | ErrDeadline \<Rightarrow> ErrStatus CodeDeadlineExceeded ''context deadline exceeded'' | _ \<Rightarrow> ErrStatus CodeUnknown [])\<rparr>"

definition ex_agent_stream :: "responder agent_stream" where
  "ex_agent_stream =
     (let dial = control_dial ex_jose ex_clock (seconds 1000) ex_timing;
          got = (\<lambda>r. \<lparr>rv_ctx = None, rv_stream = None, rv_select = Completed r None None\<rparr>) in
      \<lparr>as_begin_ctx = None, as_send_payload = Ok (),
       as_recv = got (Ok (Some (json_print (challenge_json ex_challenge)))),
       as_now = seconds 1000, as_dial = dial, as_fail_ctx1 = None, as_fail_ctx2 = None, as_send_ctx = None,
       as_send_response = Ok (), as_submit = ex_timing, as_recv_end = got (Inl ErrEOF), as_close_dial = dial,
       as_end_ctx = None, as_end = ex_timing\<rparr>)"

text \<open>The same stream when the reply to the publication is lost.\<close>

definition ex_lossy_stream :: "responder agent_stream" where
  "ex_lossy_stream = ex_agent_stream\<lparr>as_dial := \<lambda>socket meth url body w. (None, snd (as_dial ex_agent_stream socket meth url body w))\<rparr>"

theorem aid_leaves_no_proof_witness:
  "\<exists>err m attempt r' sent.
    aidAttestation ex_grpc ex_jose (Ok ex_key) ex_lossy_stream ex_agent_config None ex_responder = (err, m, attempt, r', sent) \<and>
    gm_get (rs_proofs r') (ch_id ex_challenge) = None"
proof -
  obtain err m attempt r' sent where run:
    "aidAttestation ex_grpc ex_jose (Ok ex_key) ex_lossy_stream ex_agent_config None ex_responder = (err, m, attempt, r', sent)"
    by (metis surj_pair)
  let ?dial = "control_dial ex_jose ex_clock (seconds 1000) ex_timing"
  have "unreliable ?dial (as_dial ex_lossy_stream)" "unreliable ?dial (as_close_dial ex_lossy_stream)" "reached ?dial (as_close_dial ex_lossy_stream)"
    by (simp_all add: unreliable_def reached_def ex_lossy_stream_def ex_agent_stream_def Let_def)
  moreover have "gm_get (rs_proofs ex_responder) (ch_id ex_challenge) = None"
    using newResponder_ok(3) [OF ex_responder_new] by simp
  ultimately show ?thesis using aid_leaves_no_proof [OF _ _ run] run by blast
qed

section \<open>The server's operations on one attempt\<close>

text \<open>What \<^verbatim>\<open>Verify\<close> leaves alone, and what it checked when it succeeds.\<close>

lemma Verify_frame:
  assumes "Verify J env a response now0 ctx now1 now2 s = (res, s')"
  shows "sv_active s' = sv_active s" "sv_metrics s' = sv_metrics s" "sv_config s' = sv_config s" "sv_nodes s' = sv_nodes s"
    "length (sv_attempts s') = length (sv_attempts s)"
    "i < length (sv_attempts s) \<Longrightarrow> at_core (sv_attempts s' ! i) = at_core (sv_attempts s ! i)"
    "i < length (sv_attempts s) \<Longrightarrow> at_closed (sv_attempts s' ! i) = at_closed (sv_attempts s ! i)"
proof -
  obtain r1 s1 where c: "verify_claim a s = (r1, s1)" by fastforce
  then have s1: "s1 = s \<or> s1 = set_attempt a (at_verified_update (\<lambda>_. True)) s"
    by (auto simp: verify_claim_def Let_def split: if_splits)
  have "s' = s1 \<or> (\<exists>r. verify_commit a ctx now1 now2 s1 = (r, s'))"
    using assms c by (auto simp: Verify_def split: sum.splits)
  then have f: "sv_active s' = sv_active s1 \<and> sv_metrics s' = sv_metrics s1 \<and> sv_config s' = sv_config s1 \<and>
      sv_nodes s' = sv_nodes s1 \<and> sv_attempts s' = sv_attempts s1"
    by (auto dest: verify_commit_frame)
  with s1 show "sv_active s' = sv_active s" "sv_metrics s' = sv_metrics s" "sv_config s' = sv_config s" "sv_nodes s' = sv_nodes s"
    "length (sv_attempts s') = length (sv_attempts s)" by (auto simp: set_attempt_def)
  assume "i < length (sv_attempts s)"
  then have "at_core (sv_attempts s1 ! i) = at_core (sv_attempts s ! i) \<and> at_closed (sv_attempts s1 ! i) = at_closed (sv_attempts s ! i)"
    using s1 by (cases "a = i") (auto simp: set_attempt_def at_core_def)
  with f show "at_core (sv_attempts s' ! i) = at_core (sv_attempts s ! i)"
    "at_closed (sv_attempts s' ! i) = at_closed (sv_attempts s ! i)" by simp_all
qed

lemma Verify_Ok:
  assumes "Verify J env a response now0 ctx now1 now2 s = (Ok res, s')" "a < length (sv_attempts s)"
  obtains pf where "verifyProof J pf (rq_jwk (at_request (sv_attempts s ! a))) = Ok (at_raw (sv_attempts s ! a))"
    "res = verify_result s (sv_attempts s ! a)" "\<not> at_closed (sv_attempts s ! a)"
    "unix_of now0 < ch_expires (at_challenge (sv_attempts s ! a))" "unix_of now1 < ch_expires (at_challenge (sv_attempts s ! a))"
    "fetch env s (sv_attempts s ! a) = Ok pf"
proof -
  obtain u where c: "verify_claim a s = (Ok u, set_attempt a (at_verified_update (\<lambda>_. True)) s)"
    using assms(1) by (auto simp: Verify_def verify_claim_def Let_def observeError_def split: if_splits)
  let ?s1 = "set_attempt a (at_verified_update (\<lambda>_. True)) s"
  from assms(1) c obtain pf where pf: "verify_check J env a response now0 ?s1 = Ok pf"
    and co: "verify_commit a ctx now1 now2 ?s1 = (Ok res, s')"
    by (auto simp: Verify_def split: sum.splits)
  have at: "sv_attempts ?s1 ! a = (sv_attempts s ! a)\<lparr>at_verified := True\<rparr>" using assms(2) by (simp add: set_attempt_def)
  note ch = verify_check_Ok [OF pf, unfolded at] and cm = verify_commit_Ok [OF co, unfolded at]
  show ?thesis
    by (rule that [of pf]) (use ch cm in \<open>simp_all add: verify_result_def fetch_def fetch_url_def\<close>)
qed

text \<open>
  The state of a server that runs one attempt: \<open>a\<close>, for the node \<open>n\<close>, on top of the state \<open>s0\<close>.
\<close>

definition one_attempt :: "Server \<Rightarrow> nat \<Rightarrow> node \<Rightarrow> string \<Rightarrow> Server \<Rightarrow> bool" where
  "one_attempt s0 a n cid s =
     (let at = sv_attempts s ! a in
      a < length (sv_attempts s) \<and> at_node at = n \<and> ch_id (at_challenge at) = cid \<and>
      sv_active s = (if at_closed at then gm_del cid (gm_put cid a (sv_active s0)) else gm_put cid a (sv_active s0)) \<and>
      sv_metrics s =
        (if at_closed at then map_option (pendingAdd (nd_name n) (- 1) \<circ> pendingAdd (nd_name n) 1) (sv_metrics s0)
         else map_option (pendingAdd (nd_name n) 1) (sv_metrics s0)))"

lemma one_attempt_begin:
  assumes "Begin s ctx_err payload rand1 rand2 now = (Ok a, s')"
  obtains n cid where "one_attempt s a n cid s'"
  using assms by (elim Begin_Ok) (auto simp: one_attempt_def begun_def Let_def nth_append)

lemma one_attempt_verify:
  assumes "one_attempt s0 a n cid s" "Verify J env b response now0 ctx now1 now2 s = (res, s')"
  shows "one_attempt s0 a n cid s'"
  using assms(1) Verify_frame [OF assms(2)] Verify_frame(6,7) [OF assms(2), of a]
  by (simp add: one_attempt_def Let_def at_core_def)

lemma one_attempt_close:
  assumes "one_attempt s0 a n cid s"
  shows "one_attempt s0 a n cid (Close a s)" "at_closed (sv_attempts (Close a s) ! a)"
    "sv_config (Close a s) = sv_config s" "sv_nodes (Close a s) = sv_nodes s"
    "length (sv_attempts (Close a s)) = length (sv_attempts s)"
    "i \<noteq> a \<Longrightarrow> sv_attempts (Close a s) ! i = sv_attempts s ! i"
    "at_core (sv_attempts (Close a s) ! a) = at_core (sv_attempts s ! a)"
  using assms
  by (auto simp: one_attempt_def Close_def close_mark_def close_remove_def set_attempt_def at_core_def Let_def
      option.map_comp)

text \<open>A server that has run its attempts to their end: nothing is active, and every attempt is closed.\<close>

definition idle :: "ServerConfig \<Rightarrow> Server \<Rightarrow> bool" where
  "idle config s = (config_ok config \<and> server_ok config s \<and> sv_active s = [] \<and> list_all at_closed (sv_attempts s))"

text \<open>The states an attempt passes through, up to its close.\<close>

definition running :: "ServerConfig \<Rightarrow> Server \<Rightarrow> nat \<Rightarrow> Server \<Rightarrow> bool" where
  "running config s0 a s =
     ((\<exists>n cid. one_attempt s0 a n cid s) \<and> length (sv_attempts s) = Suc a \<and> sv_config s = config \<and>
      sv_nodes s = sv_nodes (initial_server config) \<and>
      (\<forall>i < a. at_closed (sv_attempts s ! i)) \<and> (\<forall>i < Suc a. attempt_ok config (sv_attempts s ! i)))"

lemma running_begin:
  assumes "idle config s" "Begin s ctx_err payload rand1 rand2 now = (Ok a, s')"
    and "\<And>v. rand1 = Ok v \<Longrightarrow> length v = 32" "\<And>v. rand2 = Ok v \<Longrightarrow> length v = 32"
  shows "running config s a s'" "a = length (sv_attempts s)" "\<not> at_closed (sv_attempts s' ! a)"
proof -
  have "server_ok config s'"
    by (rule server_ok_begin [OF _ assms(2)]) (use assms in \<open>auto simp: idle_def\<close>)
  then have ok: "sv_config s' = config" "sv_nodes s' = sv_nodes (initial_server config)"
    "\<forall>i < length (sv_attempts s'). attempt_ok config (sv_attempts s' ! i)" by (simp_all add: server_ok_def)
  obtain n cid where one: "one_attempt s a n cid s'" by (rule one_attempt_begin [OF assms(2)])
  from assms(2) have b: "a = length (sv_attempts s)" "\<exists>at. sv_attempts s' = sv_attempts s @ [at] \<and> \<not> at_closed at"
    by (auto elim!: Begin_Ok simp: begun_def Let_def)
  then show "a = length (sv_attempts s)" "\<not> at_closed (sv_attempts s' ! a)" by auto
  from b one ok assms(1) show "running config s a s'"
    by (auto simp: running_def idle_def nth_append list_all_length)
qed

lemma running_verify:
  assumes "running config s0 a s" "Verify J env a response now0 ctx now1 now2 s = (res, s')"
  shows "running config s0 a s'"
proof -
  note f = Verify_frame [OF assms(2)]
  have "attempt_ok config (sv_attempts s' ! i) = attempt_ok config (sv_attempts s ! i)" if "i < length (sv_attempts s)" for i
    by (rule attempt_ok_core [OF f(6) [OF that]])
  moreover from assms(1) obtain n cid where "one_attempt s0 a n cid s" by (auto simp: running_def)
  note one_attempt_verify [OF this assms(2)]
  ultimately show ?thesis using assms(1) f(3-5,7) unfolding running_def by auto
qed

lemma running_close:
  assumes "running config s0 a s"
  shows "running config s0 a (Close a s)" "at_closed (sv_attempts (Close a s) ! a)"
    "at_core (sv_attempts (Close a s) ! a) = at_core (sv_attempts s ! a)"
proof -
  from assms obtain n cid where one: "one_attempt s0 a n cid s" by (auto simp: running_def)
  note c = one_attempt_close [OF one]
  show "at_closed (sv_attempts (Close a s) ! a)" "at_core (sv_attempts (Close a s) ! a) = at_core (sv_attempts s ! a)"
    by (rule c)+
  have "attempt_ok config (sv_attempts (Close a s) ! i) = attempt_ok config (sv_attempts s ! i)" for i
    using attempt_ok_core [OF c(7)] c(6) [of i] by (cases "i = a") auto
  with assms c show "running config s0 a (Close a s)" unfolding running_def by auto
qed

lemma running_closed:
  assumes "running config s0 a s" "at_closed (sv_attempts s ! a)" "idle config s0"
  shows "idle config s" "sv_metrics s = sv_metrics s0 \<or>
    (\<exists>name. sv_metrics s = map_option (pendingAdd name (- 1) \<circ> pendingAdd name 1) (sv_metrics s0))"
proof -
  have "sv_active s = []" using assms by (auto simp: running_def one_attempt_def idle_def Let_def gm_put_def gm_del_def)
  moreover have "list_all at_closed (sv_attempts s)"
    using assms by (auto simp: running_def list_all_length less_Suc_eq)
  ultimately show "idle config s"
    using assms by (auto simp: running_def idle_def server_ok_def gm.count_empty gm_ok_def)
  show "sv_metrics s = sv_metrics s0 \<or>
      (\<exists>name. sv_metrics s = map_option (pendingAdd name (- 1) \<circ> pendingAdd name 1) (sv_metrics s0))"
    using assms(1,2) by (auto simp: running_def one_attempt_def Let_def)
qed

section \<open>Server streams\<close>

definition granted_messages :: "('sg, 'ob, 'z) jose_lib_scheme \<Rightarrow> server_stream \<Rightarrow> Server \<Rightarrow> ServerAttempt \<Rightarrow> attest_response list \<Rightarrow> bool" where
  "granted_messages J st s at sent =
     (sent = [SentChallenge (at_raw at), SentAttributes (AgentID (verify_result s at)) (SelectorValues (verify_result s at)) True] \<and>
      (\<exists>pf. verifyProof J pf (rq_jwk (at_request at)) = Ok (at_raw at) \<and> fetch (ss_env st) s at = Ok pf) \<and>
      unix_of (ss_now0 st) < ch_expires (at_challenge at))"

definition failed_exit :: "stream_exit \<Rightarrow> bool" where
  "failed_exit x = (sx_outcome x = ''failure'' \<and> \<not> is_ok (sx_err x))"

lemma AgentID_nonempty: "AgentID (verify_result s at) \<noteq> []"
  by (simp add: verify_result_def)

text \<open>A session either fails, having sent at most the challenge, or sends the attributes.\<close>

lemma attest_session_cases:
  assumes "attest_session G J st a s = (x, s', sent)" "a < length (sv_attempts s)"
  obtains (failed) "failed_exit x" "sent = [] \<or> sent = [SentChallenge (at_raw (sv_attempts s ! a))]"
      "s' = s \<or> (\<exists>resp res. Verify J (ss_env st) a resp (ss_now0 st) (ss_fetch_ctx st) (ss_now1 st) (ss_now2 st)
         (if ss_ended st then Close a s else s) = (res, s'))"
  | (granted) resp res where "sx_outcome x = ''success''" "is_ok (sx_err x)"
      "Verify J (ss_env st) a resp (ss_now0 st) (ss_fetch_ctx st) (ss_now1 st) (ss_now2 st)
         (if ss_ended st then Close a s else s) = (Ok res, s')"
      "sent = [SentChallenge (at_raw (sv_attempts s ! a)), SentAttributes (AgentID res) (SelectorValues res) True]"
proof (cases "\<exists>u resp. ss_send_challenge st = Ok u \<and> receivePluginMessage G (ss_recv_response st) = Ok (ReqChallengeResponse resp) \<and> resp \<noteq> []")
  case False
  have "failed_exit x \<and> (sent = [] \<or> sent = [SentChallenge (at_raw (sv_attempts s ! a))]) \<and> s' = s"
  proof (cases "ss_send_challenge st")
    case (Inl e)
    with assms(1) show ?thesis by (auto simp: attest_session_def failed_exit_def Let_def)
  next
    case send: (Inr u)
    show ?thesis
    proof (cases "receivePluginMessage G (ss_recv_response st)")
      case (Inl e)
      with assms(1) send show ?thesis by (auto simp: attest_session_def failed_exit_def Let_def split: prod.splits)
    next
      case (Inr msg)
      with assms(1) send False show ?thesis
        by (cases msg) (auto simp: attest_session_def failed_exit_def Let_def split: if_splits)
    qed
  qed
  then show ?thesis using failed by blast
next
  case True
  then obtain u resp where r: "ss_send_challenge st = Ok u"
    "receivePluginMessage G (ss_recv_response st) = Ok (ReqChallengeResponse resp)" "resp \<noteq> []" by blast
  obtain res s1 where v: "Verify J (ss_env st) a resp (ss_now0 st) (ss_fetch_ctx st) (ss_now1 st) (ss_now2 st)
      (if ss_ended st then Close a s else s) = (res, s1)" by fastforce
  show ?thesis
  proof (cases "\<exists>g w. res = Ok g \<and> AgentID g \<noteq> [] \<and> ss_send_attributes st = Ok w")
    case True
    with assms(1) r v show ?thesis
      by (intro granted [of resp "projr res"]) (auto simp: attest_session_def Let_def)
  next
    case False
    then have "failed_exit x \<and> sent = [SentChallenge (at_raw (sv_attempts s ! a))] \<and> s' = s1"
    proof (cases res)
      case (Inl e)
      with assms(1) r v show ?thesis by (auto simp: attest_session_def failed_exit_def Let_def split: prod.splits)
    next
      case (Inr g)
      with assms(1) r v False show ?thesis
        by (cases "ss_send_attributes st") (auto simp: attest_session_def failed_exit_def Let_def split: if_splits)
    qed
    then show ?thesis using v failed by blast
  qed
qed

lemma attest_session_run:
  assumes "running config s0 a s" "attest_session G J st a s = (x, s', sent)"
  shows "running config s0 a s'"
    "failed_exit x \<and> (sent = [] \<or> sent = [SentChallenge (at_raw (sv_attempts s ! a))]) \<or>
     sx_outcome x = ''success'' \<and> is_ok (sx_err x) \<and> granted_messages J st s (sv_attempts s ! a) sent"
proof -
  let ?s = "if ss_ended st then Close a s else s"
  have a: "a < length (sv_attempts s)" using assms(1) by (auto simp: running_def)
  have run: "running config s0 a ?s" using assms(1) running_close(1) by auto
  from assms(2) a have "running config s0 a s' \<and>
    (failed_exit x \<and> (sent = [] \<or> sent = [SentChallenge (at_raw (sv_attempts s ! a))]) \<or>
     sx_outcome x = ''success'' \<and> is_ok (sx_err x) \<and> granted_messages J st s (sv_attempts s ! a) sent)"
  proof (cases rule: attest_session_cases)
    case failed
    then show ?thesis using running_verify [OF run] assms(1) by blast
  next
    case (granted resp res)
    have a': "a < length (sv_attempts ?s)" using run by (auto simp: running_def)
    obtain pf where pf: "verifyProof J pf (rq_jwk (at_request (sv_attempts ?s ! a))) = Ok (at_raw (sv_attempts ?s ! a))"
      "res = verify_result ?s (sv_attempts ?s ! a)" "\<not> at_closed (sv_attempts ?s ! a)"
      "unix_of (ss_now0 st) < ch_expires (at_challenge (sv_attempts ?s ! a))"
      "fetch (ss_env st) ?s (sv_attempts ?s ! a) = Ok pf"
      by (rule Verify_Ok [OF granted(3) a'])
    have "\<not> ss_ended st" using pf(3) running_close(2) [OF assms(1)] by (auto split: if_splits)
    with pf granted show ?thesis
      using running_verify [OF run granted(3)] by (auto simp: granted_messages_def)
  qed
  then show "running config s0 a s'"
    "failed_exit x \<and> (sent = [] \<or> sent = [SentChallenge (at_raw (sv_attempts s ! a))]) \<or>
     sx_outcome x = ''success'' \<and> is_ok (sx_err x) \<and> granted_messages J st s (sv_attempts s ! a) sent" by simp_all
qed

definition rands_ok :: "server_stream \<Rightarrow> bool" where
  "rands_ok st = ((\<forall>v. ss_rand1 st = Ok v \<longrightarrow> length v = 32) \<and> (\<forall>v. ss_rand2 st = Ok v \<longrightarrow> length v = 32))"

lemma idle_metrics [simp]: "idle config (s\<lparr>sv_metrics := m\<rparr>) = idle config s"
  by (simp add: idle_def server_ok_def)

lemma attest_stream_run:
  assumes "idle config s" "rands_ok st" "attest_stream G J st nodes s = (x, n, s', sent)"
  shows "idle config s'"
    "sv_metrics s' = sv_metrics s \<or>
     (\<exists>name. sv_metrics s' = map_option (pendingAdd name (- 1) \<circ> pendingAdd name 1) (sv_metrics s))"
    "failed_exit x \<and> (sent = [] \<or> (\<exists>raw. sent = [SentChallenge raw])) \<or>
     sx_outcome x = ''success'' \<and> is_ok (sx_err x) \<and>
     (\<exists>s1 at. sv_config s1 = config \<and> attempt_ok config at \<and> granted_messages J st s1 at sent)"
proof -
  have "idle config s' \<and>
    (sv_metrics s' = sv_metrics s \<or>
     (\<exists>name. sv_metrics s' = map_option (pendingAdd name (- 1) \<circ> pendingAdd name 1) (sv_metrics s))) \<and>
    (failed_exit x \<and> (sent = [] \<or> (\<exists>raw. sent = [SentChallenge raw])) \<or>
     sx_outcome x = ''success'' \<and> is_ok (sx_err x) \<and>
     (\<exists>s1 at. sv_config s1 = config \<and> attempt_ok config at \<and> granted_messages J st s1 at sent))"
  proof (cases "\<exists>payload a s1. ss_recv st = Ok (ReqPayload payload) \<and> payload \<noteq> [] \<and>
      Begin s (ss_begin_ctx st) payload (ss_rand1 st) (ss_rand2 st) (ss_begin_now st) = (Ok a, s1)")
    case False
    have "s' = s \<and> failed_exit x \<and> sent = []"
    proof (cases "ss_recv st")
      case (Inl e)
      with assms(3) show ?thesis by (auto simp: attest_stream_def failed_exit_def Let_def)
    next
      case (Inr msg)
      show ?thesis
      proof (cases "\<exists>payload. msg = ReqPayload payload \<and> payload \<noteq> []")
        case True
        then obtain payload where p: "msg = ReqPayload payload" "payload \<noteq> []" by blast
        with False Inr obtain e s1 where b: "Begin s (ss_begin_ctx st) payload (ss_rand1 st) (ss_rand2 st) (ss_begin_now st) = (Inl e, s1)"
          by (cases "Begin s (ss_begin_ctx st) payload (ss_rand1 st) (ss_rand2 st) (ss_begin_now st)") (metis sum.exhaust)
        from Begin_error [OF b] p Inr b assms(3) show ?thesis
          by (auto simp: attest_stream_def failed_exit_def Let_def split: prod.splits)
      next
        case F: False
        with Inr assms(3) show ?thesis
          by (cases msg) (auto simp: attest_stream_def failed_exit_def Let_def split: if_splits)
      qed
    qed
    then show ?thesis using assms(1) by simp
  next
    case True
    then obtain payload a s1 where b: "ss_recv st = Ok (ReqPayload payload)" "payload \<noteq> []"
      "Begin s (ss_begin_ctx st) payload (ss_rand1 st) (ss_rand2 st) (ss_begin_now st) = (Ok a, s1)" by blast
    have run: "running config s a s1"
      by (rule running_begin [OF assms(1) b(3)]) (use assms(2) in \<open>auto simp: rands_ok_def\<close>)
    obtain s2 where ses: "attest_session G J st a s1 = (x, s2, sent)" and s': "s' = Close a s2"
      using assms(3) b by (auto simp: attest_stream_def Let_def split: prod.splits)
    note r2 = attest_session_run [OF run ses]
    note fin = running_closed [OF running_close(1,2) [OF r2(1)] assms(1)]
    have "sv_config s1 = config" "attempt_ok config (sv_attempts s1 ! a)" using run by (simp_all add: running_def)
    with r2(2) fin show ?thesis unfolding s' by blast
  qed
  then show "idle config s'"
    "sv_metrics s' = sv_metrics s \<or>
     (\<exists>name. sv_metrics s' = map_option (pendingAdd name (- 1) \<circ> pendingAdd name 1) (sv_metrics s))"
    "failed_exit x \<and> (sent = [] \<or> (\<exists>raw. sent = [SentChallenge raw])) \<or>
     sx_outcome x = ''success'' \<and> is_ok (sx_err x) \<and>
     (\<exists>s1 at. sv_config s1 = config \<and> attempt_ok config at \<and> granted_messages J st s1 at sent)"
    by blast+
qed

section \<open>Runs of the server plugin\<close>

datatype server_call =
    SConfigure plugin_files "nat result" "unit result" "ConfigureRequest option"
  | SAttest server_stream | SClose "unit result"

fun plugin_step :: "grpc_lib \<Rightarrow> ('sg, 'ob, 'z) jose_lib_scheme \<Rightarrow> ServerPlugin \<Rightarrow> server_call \<Rightarrow> ServerPlugin" where
  "plugin_step G J p (SConfigure F listen close_res req) = fst (snd (Configure_server F listen close_res req p))"
| "plugin_step G J p (SAttest st) = fst (snd (Attest G J st p))"
| "plugin_step G J p (SClose close_res) = fst (snd (Close_server_plugin close_res p))"

definition new_server_plugin :: ServerPlugin where
  "new_server_plugin = \<lparr>sp_begin = None, sp_nodes = [], sp_metrics = None,
     sp_listener = \<lparr>lst_address = [], lst_handle = None\<rparr>\<rparr>"

text \<open>\<^verbatim>\<open>crypto/rand\<close> fills the 32-byte buffers of every stream of a run.\<close>

definition call_ok :: "server_call \<Rightarrow> bool" where
  "call_ok call = (case call of SAttest st \<Rightarrow> rands_ok st | _ \<Rightarrow> True)"

definition plugin_ok :: "ServerPlugin \<Rightarrow> bool" where
  "plugin_ok p = (\<forall>s. sp_begin p = Some s \<longrightarrow> idle (sv_config s) s \<and> sp_nodes p = sv_nodes s)"

lemma Configure_server_cases:
  assumes "Configure_server F listen close_res req p = (r, p', closed)"
  obtains (refused) e where "r = Inl e" "\<exists>msg. e = ErrStatus CodeInvalidArgument msg" "sp_begin p' = sp_begin p" "sp_nodes p' = sp_nodes p"
  | (configured) cfg m where "r = Ok ()" "readPluginConfig F dec_server_config zero_server_config req = Ok cfg"
      "checkTrustDomain req (sc_trust_domain cfg) = Ok ()" "config_ok cfg"
      "sp_begin p' = Some ((initial_server cfg)\<lparr>sv_metrics := m\<rparr>)" "sp_nodes p' = sv_nodes (initial_server cfg)" "sp_metrics p' = m"
proof (cases "readPluginConfig F dec_server_config zero_server_config req")
  case (Inl e)
  then have "\<exists>msg. e = ErrStatus CodeInvalidArgument msg"
    by (auto simp: readPluginConfig_def split: option.splits prod.splits if_splits)
  with Inl assms show ?thesis by (intro refused) (auto simp: Configure_server_def)
next
  case cfg: (Inr cfg)
  show ?thesis
  proof (cases "checkTrustDomain req (sc_trust_domain cfg)")
    case (Inl e)
    then have "\<exists>msg. e = ErrStatus CodeInvalidArgument msg" by (auto simp: checkTrustDomain_def split: if_splits)
    with Inl cfg assms show ?thesis by (intro refused) (auto simp: Configure_server_def)
  next
    case td: (Inr u)
    show ?thesis
    proof (cases "NewServer cfg")
      case (Inl e)
      with cfg td assms show ?thesis by (intro refused) (auto simp: Configure_server_def)
    next
      case (Inr s)
      then have s: "config_ok cfg" "s = initial_server cfg" by (simp_all add: NewServer_Ok)
      let ?l = "listener_configure listen close_res (sc_metrics_address cfg) (sp_listener p)"
      show ?thesis
      proof (cases "fst ?l")
        case (Inl e)
        with cfg td Inr assms show ?thesis
          by (intro refused) (auto simp: Configure_server_def Let_def split: prod.splits)
      next
        case l: (Inr w)
        with cfg td Inr s assms show ?thesis
          by (intro configured [of cfg "sp_metrics p'"]) (auto simp: Configure_server_def Let_def split: prod.splits)
      qed
    qed
  qed
qed

lemma idle_initial: "config_ok cfg \<Longrightarrow> idle cfg ((initial_server cfg)\<lparr>sv_metrics := m\<rparr>)"
  by (simp add: idle_def server_ok_def initial_server_def gm.count_empty gm_ok_def)

lemma Attest_state:
  assumes "Attest G J st p = (err, p', sent)" "sp_begin p = Some s"
  obtains x n s' where "attest_stream G J st (sp_nodes p) (s\<lparr>sv_metrics := metrics_or_new ''server'' (sp_metrics p)\<rparr>) = (x, n, s', sent)"
    "err = sx_err x" "sp_metrics p' = attest_finish G st n x (sv_metrics s')"
    "sp_begin p' = Some (s'\<lparr>sv_metrics := attest_finish G st n x (sv_metrics s')\<rparr>)" "sp_nodes p' = sp_nodes p"
  using assms that by (auto simp: Attest_def Let_def split: prod.splits)

lemma idle_config: "idle config s \<Longrightarrow> sv_config s = config \<and> sv_nodes s = sv_nodes (initial_server config)"
  by (simp add: idle_def server_ok_def)

lemma plugin_ok_attest:
  assumes "plugin_ok p" "rands_ok st" "Attest G J st p = (err, p', sent)"
  shows "plugin_ok p'"
proof (cases "sp_begin p")
  case None
  with assms(3) show ?thesis by (auto simp: plugin_ok_def Attest_def Let_def)
next
  case (Some s)
  with assms(1) have i: "idle (sv_config s) s" "sp_nodes p = sv_nodes s" by (simp_all add: plugin_ok_def)
  from Attest_state [OF assms(3) Some] obtain x n s' where
    a: "attest_stream G J st (sp_nodes p) (s\<lparr>sv_metrics := metrics_or_new ''server'' (sp_metrics p)\<rparr>) = (x, n, s', sent)"
    "sp_begin p' = Some (s'\<lparr>sv_metrics := attest_finish G st n x (sv_metrics s')\<rparr>)" "sp_nodes p' = sp_nodes p" by metis
  have "idle (sv_config s) s'" using attest_stream_run(1) [OF _ assms(2) a(1)] i by simp
  moreover have "sv_config s' = sv_config s" "sv_nodes s' = sv_nodes s"
    using idle_config [OF calculation] idle_config [OF i(1)] by simp_all
  ultimately show ?thesis using a(2,3) i(2) by (simp add: plugin_ok_def)
qed

lemma plugin_ok_step: "plugin_ok p \<Longrightarrow> call_ok call \<Longrightarrow> plugin_ok (plugin_step G J p call)"
proof (cases call)
  case (SConfigure F listen close_res req)
  assume p: "plugin_ok p"
  obtain r p' closed where c: "Configure_server F listen close_res req p = (r, p', closed)" by (metis surj_pair)
  then have "plugin_ok p'"
    by (cases rule: Configure_server_cases) (use p idle_initial in \<open>auto simp: plugin_ok_def initial_server_def\<close>)
  with c SConfigure show ?thesis by simp
next
  case (SAttest st)
  assume "plugin_ok p" "call_ok call"
  with SAttest show ?thesis
    using plugin_ok_attest [of p st G J "fst (Attest G J st p)" "fst (snd (Attest G J st p))" "snd (snd (Attest G J st p))"]
    by (simp add: call_ok_def)
qed (auto simp: plugin_ok_def Close_server_plugin_def split: prod.splits)

lemma plugin_ok_run: "plugin_ok p \<Longrightarrow> list_all call_ok calls \<Longrightarrow> plugin_ok (foldl (plugin_step G J) p calls)"
  by (induction calls arbitrary: p) (simp_all add: plugin_ok_step)

lemma plugin_ok_reachable: "list_all call_ok calls \<Longrightarrow> plugin_ok (foldl (plugin_step G J) new_server_plugin calls)"
  by (rule plugin_ok_run) (simp_all add: plugin_ok_def new_server_plugin_def)

lemma attempt_names:
  assumes "config_ok config" "attempt_ok config at" "sv_config s = config"
  obtains name policy k where "(name, policy) \<in> set (sc_nodes config)" "length k = 32" "rq_jwk (at_request at) = jwkFor k"
    "AgentID (verify_result s at) = ''spiffe://'' @ sc_trust_domain config @ ''/spire/agent/'' @ PluginName @ ''/'' @ name"
    "SelectorValues (verify_result s at) = [''fqdn:'' @ np_fqdn policy]" "ch_fqdn (at_challenge at) = np_fqdn policy"
    "ch_trust_domain (at_challenge at) = sc_trust_domain config" "ch_thumbprint (at_challenge at) = thumbprint (jwkFor k)"
    "at_raw at = json_print (challenge_json (at_challenge at))"
proof -
  have a: "gm_get (sv_nodes (initial_server config)) (rq_fqdn (at_request at)) = Some (at_node at)"
    "is_ok (jwk_key (rq_jwk (at_request at)))" using assms(2) by (simp_all add: attempt_ok_def Let_def)
  from initial_nodes [OF assms(1) a(1)] obtain name policy where
    p: "(name, policy) \<in> set (sc_nodes config)" "np_fqdn policy = rq_fqdn (at_request at)" "at_node at = node_of name policy" by blast
  from a(2) obtain k where "length k = 32" "rq_jwk (at_request at) = jwkFor k" using jwk_key_OkD by (auto simp: is_ok_iff)
  with p assms(2,3) show ?thesis
    by (intro that [of name policy k]) (simp_all add: attempt_ok_def verify_result_def node_of_def Let_def)
qed

text \<open>C16. Soundness of the server plugin: over any run of configurations and streams, a stream on which
  agent attributes are sent sent exactly a challenge and then the attributes of a node of the
  configuration in force, and it fetched and verified, with the key of the request, a signature
  over exactly the challenge it sent; the challenge names that node, this trust domain and that key.\<close>

theorem plugin_attributes_sound:
  assumes p: "p = foldl (plugin_step G J) new_server_plugin calls" and ok: "list_all call_ok calls" "rands_ok st"
    and "Attest G J st p = (err, p', sent)" "SentAttributes aid selectors reattest \<in> set sent"
  shows "\<exists>s name policy c k pf. sp_begin p = Some s \<and> (name, policy) \<in> set (sc_nodes (sv_config s)) \<and>
    aid = ''spiffe://'' @ sc_trust_domain (sv_config s) @ ''/spire/agent/'' @ PluginName @ ''/'' @ name \<and>
    selectors = [''fqdn:'' @ np_fqdn policy] \<and>
    sent = [SentChallenge (json_print (challenge_json c)), SentAttributes aid selectors True] \<and>
    ch_fqdn c = np_fqdn policy \<and> ch_trust_domain c = sc_trust_domain (sv_config s) \<and>
    length k = 32 \<and> ch_thumbprint c = thumbprint (jwkFor k) \<and>
    verifyProof J pf (jwkFor k) = Ok (json_print (challenge_json c)) \<and> unix_of (ss_now0 st) < ch_expires c"
proof -
  have pok: "plugin_ok p" unfolding p by (rule plugin_ok_reachable [OF ok(1)])
  obtain s where s: "sp_begin p = Some s" using assms(4,5) by (cases "sp_begin p") (auto simp: Attest_def Let_def)
  with pok have i: "idle (sv_config s) s" by (simp add: plugin_ok_def)
  from Attest_state [OF assms(4) s] obtain x n s' where
    a: "attest_stream G J st (sp_nodes p) (s\<lparr>sv_metrics := metrics_or_new ''server'' (sp_metrics p)\<rparr>) = (x, n, s', sent)" by metis
  from i have "idle (sv_config s) (s\<lparr>sv_metrics := metrics_or_new ''server'' (sp_metrics p)\<rparr>)" by simp
  from attest_stream_run(3) [OF this ok(2) a] assms(5) obtain s1 at where
    g: "sv_config s1 = sv_config s" "attempt_ok (sv_config s) at" "granted_messages J st s1 at sent" by auto
  have c: "config_ok (sv_config s)" using i by (simp add: idle_def)
  obtain name policy k where n: "(name, policy) \<in> set (sc_nodes (sv_config s))" "length k = 32" "rq_jwk (at_request at) = jwkFor k"
    "AgentID (verify_result s1 at) = ''spiffe://'' @ sc_trust_domain (sv_config s) @ ''/spire/agent/'' @ PluginName @ ''/'' @ name"
    "SelectorValues (verify_result s1 at) = [''fqdn:'' @ np_fqdn policy]" "ch_fqdn (at_challenge at) = np_fqdn policy"
    "ch_trust_domain (at_challenge at) = sc_trust_domain (sv_config s)" "ch_thumbprint (at_challenge at) = thumbprint (jwkFor k)"
    "at_raw at = json_print (challenge_json (at_challenge at))" by (rule attempt_names [OF c g(2,1)])
  from g(3) obtain pf where pf: "sent = [SentChallenge (at_raw at), SentAttributes (AgentID (verify_result s1 at)) (SelectorValues (verify_result s1 at)) True]"
    "verifyProof J pf (rq_jwk (at_request at)) = Ok (at_raw at)" "unix_of (ss_now0 st) < ch_expires (at_challenge at)"
    by (auto simp: granted_messages_def)
  then have m: "aid = AgentID (verify_result s1 at)" "selectors = SelectorValues (verify_result s1 at)" using assms(5) by auto
  show ?thesis
    by (rule exI [of _ s], rule exI [of _ name], rule exI [of _ policy], rule exI [of _ "at_challenge at"], rule exI [of _ k], rule exI [of _ pf])
      (use s n pf m in simp)
qed

text \<open>C38. Accounting of server streams: over any run, a stream records exactly one event, a success
  exactly when it sent attributes and exactly when it returns no error; it leaves every pending gauge
  as it was, no attempt active, and every attempt closed.\<close>

theorem attest_accounted:
  assumes p: "p = foldl (plugin_step G J) new_server_plugin calls" and ok: "list_all call_ok calls" "rands_ok st"
    and "Attest G J st p = (err, p', sent)" "sp_begin p = Some s" "sp_metrics p = Some r"
  shows "\<exists>r' s'. sp_metrics p' = Some r' \<and> length (mr_events r') = Suc (length (mr_events r)) \<and>
    (\<forall>n. pending_of r' n = pending_of r n) \<and>
    (ev_outcome (last (mr_events r')) = ''success'') = is_ok err \<and>
    is_ok err = (\<exists>aid selectors. SentAttributes aid selectors True \<in> set sent) \<and>
    sp_begin p' = Some s' \<and> sv_active s' = [] \<and> list_all at_closed (sv_attempts s')"
proof -
  have "plugin_ok p" unfolding p by (rule plugin_ok_reachable [OF ok(1)])
  then have i: "idle (sv_config s) s" using assms(5) by (simp add: plugin_ok_def)
  from Attest_state [OF assms(4,5), unfolded assms(6) metrics_or_new_def option.case] obtain x n s' where
    a: "attest_stream G J st (sp_nodes p) (s\<lparr>sv_metrics := Some r\<rparr>) = (x, n, s', sent)" "err = sx_err x"
    "sp_metrics p' = attest_finish G st n x (sv_metrics s')"
    "sp_begin p' = Some (s'\<lparr>sv_metrics := attest_finish G st n x (sv_metrics s')\<rparr>)"
    by metis
  from i have i': "idle (sv_config s) (s\<lparr>sv_metrics := Some r\<rparr>)" by simp
  note run = attest_stream_run [OF i' ok(2) a(1)]
  from run(2) obtain r1 where r1: "sv_metrics s' = Some r1" "mr_events r1 = mr_events r" "\<forall>n. pending_of r1 n = pending_of r n"
    by (auto simp: pendingAdd_back)
  obtain stg rsn where f: "attest_finish G st n x (Some r1) =
      Some (record_metric (tm_end (ss_end st)) n (sx_outcome x) stg rsn (tm_duration (ss_end st)) r1)"
    unfolding attest_finish_def Let_def split_beta by simp
  have out: "(bounded (sx_outcome x) outcomes ''failure'' = ''success'') = is_ok err \<and>
      is_ok err = (\<exists>aid selectors. SentAttributes aid selectors True \<in> set sent)"
    using run(3) a(2) by (auto simp: failed_exit_def granted_messages_def bounded_def outcomes_def)
  have "sv_active s' = []" "list_all at_closed (sv_attempts s')" using run(1) by (simp_all add: idle_def)
  with out r1 f a(3,4) show ?thesis by auto
qed

section \<open>Configuration and errors\<close>

text \<open>A configuration replaces the active server only when every check passed: on an error the
  plugin keeps its server and nodes, and the error is an invalid argument; on success the server is
  the fresh server of a valid configuration whose trust domain is the one SPIRE named.\<close>

theorem configure_server_atomic:
  "case Configure_server F listen close_res req p of (r, p', closed) \<Rightarrow>
     (case r of
        Inl e \<Rightarrow> (\<exists>msg. e = ErrStatus CodeInvalidArgument msg) \<and> sp_begin p' = sp_begin p \<and> sp_nodes p' = sp_nodes p
      | Inr _ \<Rightarrow> \<exists>cfg rq. req = Some rq \<and> cq_trust_domain rq = sc_trust_domain cfg \<and> config_ok cfg \<and>
          sp_begin p' = Some ((initial_server cfg)\<lparr>sv_metrics := sp_metrics p'\<rparr>) \<and>
          sp_nodes p' = sv_nodes (initial_server cfg))"
proof -
  obtain r p' closed where c: "Configure_server F listen close_res req p = (r, p', closed)" by (metis surj_pair)
  from c have "(case r of
        Inl e \<Rightarrow> (\<exists>msg. e = ErrStatus CodeInvalidArgument msg) \<and> sp_begin p' = sp_begin p \<and> sp_nodes p' = sp_nodes p
      | Inr _ \<Rightarrow> \<exists>cfg rq. req = Some rq \<and> cq_trust_domain rq = sc_trust_domain cfg \<and> config_ok cfg \<and>
          sp_begin p' = Some ((initial_server cfg)\<lparr>sv_metrics := sp_metrics p'\<rparr>) \<and>
          sp_nodes p' = sv_nodes (initial_server cfg))"
  proof (cases rule: Configure_server_cases)
    case (configured cfg m)
    then have "\<exists>rq. req = Some rq \<and> cq_trust_domain rq = sc_trust_domain cfg"
      by (auto simp: checkTrustDomain_def split: if_splits option.splits)
    with configured show ?thesis by auto
  qed auto
  with c show ?thesis by simp
qed

text \<open>
  The errors a server stream can return: one of the stream itself, a context's, or one of five fixed
  texts.
\<close>

definition plugin_errors :: "grpc_lib \<Rightarrow> server_stream \<Rightarrow> go_error set" where
  "plugin_errors G st =
     {e. ss_recv st = Inl e \<or> ss_send_challenge st = Inl e \<or> ss_send_attributes st = Inl e \<or>
         (\<exists>c d. rv_select (ss_recv_response st) = Completed (Inl e) c d)} \<union>
     range (gl_from_context G) \<union>
     {ErrStatus CodeFailedPrecondition ''plugin is not configured'',
      ErrStatus CodeInvalidArgument ''attestation payload is required'',
      ErrStatus CodeUnauthenticated ''cannot start server attestation'',
      ErrStatus CodeInvalidArgument ''challenge response is required'',
      ErrStatus CodeUnauthenticated ''attestation verification failed''}"

lemma receive_error:
  "receivePluginMessage G run = Inl e \<Longrightarrow> e \<in> range (gl_from_context G) \<or> (\<exists>c d. rv_select run = Completed (Inl e) c d)"
  by (auto simp: receivePluginMessage_def split: option.splits select_case.splits)

lemma attestationError_in: "attestationError G ctx code msg \<in> insert (ErrStatus code msg) (range (gl_from_context G))"
  by (simp add: attestationError_def split: option.split)

lemma Close_length: "length (sv_attempts (Close a s)) = length (sv_attempts s)"
  by (simp add: Close_def close_mark_def close_remove_def set_attempt_def Let_def)

lemma attest_session_error:
  assumes "attest_session G J st a s = (x, s', sent)" "a < length (sv_attempts s)" "sx_err x = Inl e"
  shows "e \<in> plugin_errors G st"
proof (cases "ss_send_challenge st")
  case (Inl e')
  with assms show ?thesis by (auto simp: attest_session_def plugin_errors_def Let_def)
next
  case send: (Inr u)
  show ?thesis
  proof (cases "receivePluginMessage G (ss_recv_response st)")
    case (Inl e')
    with assms send have "e = e'" by (auto simp: attest_session_def Let_def split: prod.splits)
    with receive_error [OF Inl] show ?thesis by (auto simp: plugin_errors_def)
  next
    case recv: (Inr msg)
    show ?thesis
    proof (cases "\<exists>resp. msg = ReqChallengeResponse resp \<and> resp \<noteq> []")
      case False
      with assms send recv have "e = ErrStatus CodeInvalidArgument ''challenge response is required''"
        by (cases msg) (auto simp: attest_session_def Let_def split: if_splits)
      then show ?thesis by (simp add: plugin_errors_def)
    next
      case True
      then obtain resp where resp: "msg = ReqChallengeResponse resp" "resp \<noteq> []" by blast
      obtain res s1 where v: "Verify J (ss_env st) a resp (ss_now0 st) (ss_fetch_ctx st) (ss_now1 st) (ss_now2 st)
          (if ss_ended st then Close a s else s) = (res, s1)" by fastforce
      show ?thesis
      proof (cases res)
        case (Inl e')
        with assms send recv resp v
        have "e = attestationError G (ss_verify_fail2 st) CodeUnauthenticated ''attestation verification failed''"
          by (auto simp: attest_session_def Let_def split: prod.splits)
        then show ?thesis using attestationError_in unfolding plugin_errors_def by blast
      next
        case (Inr g)
        have "AgentID g \<noteq> []"
          by (rule Verify_Ok [OF v [unfolded Inr]]) (use assms(2) in \<open>simp_all add: Close_length AgentID_nonempty\<close>)
        with assms send recv resp v Inr have "ss_send_attributes st = Inl e"
          by (cases "ss_send_attributes st") (auto simp: attest_session_def Let_def)
        then show ?thesis by (simp add: plugin_errors_def)
      qed
    qed
  qed
qed

text \<open>What a server stream reports is never data of the request, the proof or the core: its error is
  one the stream itself returned, a context's, or one of five fixed texts.\<close>

theorem attest_error_fixed:
  "case Attest G J st p of (r, p', sent) \<Rightarrow> (case r of Inl e \<Rightarrow> e \<in> plugin_errors G st | Inr _ \<Rightarrow> True)"
proof (cases "sp_begin p")
  case None
  then show ?thesis by (simp add: Attest_def plugin_errors_def Let_def)
next
  case (Some s)
  obtain r p' sent where at: "Attest G J st p = (r, p', sent)" by (metis surj_pair)
  let ?s = "s\<lparr>sv_metrics := metrics_or_new ''server'' (sp_metrics p)\<rparr>"
  from Attest_state [OF at Some] obtain x n s' where
    a: "attest_stream G J st (sp_nodes p) ?s = (x, n, s', sent)" "r = sx_err x" by metis
  have "e \<in> plugin_errors G st" if e: "sx_err x = Inl e" for e
  proof (cases "ss_recv st")
    case (Inl e')
    with a e show ?thesis by (auto simp: attest_stream_def plugin_errors_def Let_def)
  next
    case recv: (Inr msg)
    show ?thesis
    proof (cases "\<exists>payload. msg = ReqPayload payload \<and> payload \<noteq> []")
      case False
      with a e recv have "e = ErrStatus CodeInvalidArgument ''attestation payload is required''"
        by (cases msg) (auto simp: attest_stream_def Let_def split: if_splits)
      then show ?thesis by (simp add: plugin_errors_def)
    next
      case True
      then obtain payload where pl: "msg = ReqPayload payload" "payload \<noteq> []" by blast
      obtain b s1 where b: "Begin ?s (ss_begin_ctx st) payload (ss_rand1 st) (ss_rand2 st) (ss_begin_now st) = (b, s1)" by fastforce
      show ?thesis
      proof (cases b)
        case (Inl e')
        with a e recv pl b
        have "e = attestationError G (ss_begin_fail2 st) CodeUnauthenticated ''cannot start server attestation''"
          by (auto simp: attest_stream_def Let_def split: prod.splits)
        then show ?thesis using attestationError_in unfolding plugin_errors_def by blast
      next
        case (Inr i)
        obtain s2 where "attest_session G J st i s1 = (x, s2, sent)"
          using a recv pl b Inr by (auto simp: attest_stream_def Let_def split: prod.splits)
        moreover have "i < length (sv_attempts s1)" using b Inr by (auto elim!: Begin_Ok)
        ultimately show ?thesis using e by (rule attest_session_error)
      qed
    qed
  qed
  with at a(2) show ?thesis by (simp split: sum.split)
qed

section \<open>An honest stream\<close>

text \<open>A stream on which nothing fails, that carries a payload and a response.\<close>

definition honest_stream ::
  "string \<Rightarrow> string \<Rightarrow> string \<Rightarrow> string \<Rightarrow> time \<Rightarrow> fetch_env \<Rightarrow> time \<Rightarrow> time \<Rightarrow> time \<Rightarrow> timing \<Rightarrow> server_stream" where
  "honest_stream payload response b1 b2 now env now0 now1 now2 tm =
     \<lparr>ss_recv = Ok (ReqPayload payload), ss_begin_ctx = None, ss_rand1 = Ok b1, ss_rand2 = Ok b2, ss_begin_now = now,
      ss_begin_fail1 = None, ss_begin_fail2 = None, ss_send_challenge = Ok (),
      ss_recv_response = \<lparr>rv_ctx = None, rv_stream = None, rv_select = Completed (Ok (ReqChallengeResponse response)) None None\<rparr>,
      ss_recv_fail = None, ss_ended = False, ss_env = env, ss_now0 = now0, ss_fetch_ctx = None, ss_now1 = now1, ss_now2 = now2,
      ss_verify_fail1 = None, ss_verify_fail2 = None, ss_send_attributes = Ok (), ss_end_ctx = None, ss_end = tm\<rparr>"

lemma json_print_nonempty: "json_print (JObj ms) \<noteq> []"
  by simp

lemma attest_honest:
  assumes p: "sp_begin p = Some s" "idle config s" and key: "length key = 64"
    and n: "gm_get (sv_nodes (initial_server config)) f = Some n" and b: "length b1 = 32" "length b2 = 32"
    and at: "at = begun s (request_for f key) n (b64_encode b1) (b64_encode b2) now"
    and t: "unix_of now0 < unix_of now + 120" "unix_of now1 < unix_of now + 120"
    and q: "length (since now2 (gm_get_or [] (sv_recent s) (nd_name n))) < 6"
    and pf: "\<And>s1. sv_config s1 = config \<Longrightarrow> fetch env s1 (at\<lparr>at_verified := True\<rparr>) = Ok pf"
      "verifyProof J pf (jwkFor (public_of key)) = Ok (at_raw at)"
  obtains p' where "Attest G J (honest_stream (json_print (request_json (request_for f key))) (ready_for (at_challenge at))
      b1 b2 now env now0 now1 now2 tm) p =
    (Ok (), p', [SentChallenge (at_raw at), SentAttributes (AgentID (verify_result s at)) (SelectorValues (verify_result s at)) True])"
proof -
  let ?st = "honest_stream (json_print (request_json (request_for f key))) (ready_for (at_challenge at)) b1 b2 now env now0 now1 now2 tm"
  let ?s = "s\<lparr>sv_metrics := metrics_or_new ''server'' (sp_metrics p)\<rparr>" and ?a = "length (sv_attempts s)"
  have c: "config_ok config" "sv_config s = config" "sv_nodes s = sv_nodes (initial_server config)" "sv_active s = []"
    using p(2) by (simp_all add: idle_def server_ok_def)
  have f: "validFQDN f" using initial_nodes [OF c(1) n] by (auto simp: policy_ok_def)
  define s1 where "s1 = ?s\<lparr>sv_active := gm_put (b64_encode b1) ?a (sv_active s),
       sv_metrics := map_option (pendingAdd (nd_name n) 1) (sv_metrics ?s), sv_attempts := sv_attempts s @ [at]\<rparr>"
  have "at = begun ?s (request_for f key) n (b64_encode b1) (b64_encode b2) now" by (simp add: at begun_def)
  then have b1: "Begin ?s None (json_print (request_json (request_for f key))) (Ok b1) (Ok b2) now = (Ok ?a, s1)"
    using honest_begin [OF f key, of ?s n b1 b2 now] n c by (simp add: s1_def gm.count_empty)
  have ok: "attempt_ok config at"
    unfolding at using n b jwk_key_for [OF public_of_length [OF key]] c(2)
    by (intro begun_ok) (simp_all add: request_for_def)
  have at': "\<not> at_closed at" "\<not> at_verified at" "ch_expires (at_challenge at) = unix_of now + 120" "at_node at = n"
    "rq_jwk (at_request at) = jwkFor (public_of key)" by (simp_all add: at begun_def request_for_def Let_def)
  define s2 where "s2 = set_attempt ?a (at_verified_update (\<lambda>_. True)) s1"
  have a1: "sv_attempts s1 ! ?a = at" by (simp add: s1_def)
  have a2: "sv_attempts s2 ! ?a = at\<lparr>at_verified := True\<rparr>" by (simp add: s2_def s1_def set_attempt_def)
  have c2: "sv_config s2 = config" "sv_recent s2 = sv_recent s" by (simp_all add: s2_def s1_def c)
  have ok2: "attempt_ok config (sv_attempts s2 ! ?a)" using ok attempt_ok_core [of "at\<lparr>at_verified := True\<rparr>" at config]
    unfolding a2 by simp
  have "verify_claim ?a s1 = (Ok (), s2)" using at' by (simp add: verify_claim_def s2_def a1 Let_def)
  moreover have "verify_check J env ?a (ready_for (at_challenge at)) now0 s2 = Ok pf"
    using honest_check [OF ok2, of now0 env pf J] t(1) pf(1) [OF c2(1)] pf(2) at' by (simp add: a2)
  moreover obtain s3 where "verify_commit ?a None now1 now2 s2 = (Ok (verify_result s2 (sv_attempts s2 ! ?a)), s3)"
    using honest_commit [of s2 ?a now1 now2] t(2) q at' by (auto simp: a2 c2)
  moreover have "verify_result s2 (sv_attempts s2 ! ?a) = verify_result s at" by (simp add: a2 verify_result_def c2 c)
  ultimately have v: "Verify J env ?a (ready_for (at_challenge at)) now0 None now1 now2 s1 = (Ok (verify_result s at), s3)"
    by (simp add: Verify_def)
  have "ready_for (at_challenge at) \<noteq> []" by (simp add: ready_for_def ready_json_def)
  then have ses: "\<exists>x. attest_session G J ?st ?a s1 = (x, s3, [SentChallenge (at_raw at),
      SentAttributes (AgentID (verify_result s at)) (SelectorValues (verify_result s at)) True]) \<and> sx_err x = Ok ()"
    using v AgentID_nonempty [of s at]
    by (simp add: attest_session_def honest_stream_def receivePluginMessage_def a1 Let_def)
  have "json_print (request_json (request_for f key)) \<noteq> []" by (simp add: request_json_def)
  then have "attest_stream G J ?st (sp_nodes p) ?s = (case attest_session G J ?st ?a s1 of
      (x, s'', sent) \<Rightarrow> (x, metric_node (sp_nodes p) (json_print (request_json (request_for f key))), Close ?a s'', sent))"
    using b1 by (simp add: attest_stream_def honest_stream_def)
  with ses have "\<exists>p'. Attest G J ?st p = (Ok (), p', [SentChallenge (at_raw at),
      SentAttributes (AgentID (verify_result s at)) (SelectorValues (verify_result s at)) True])"
    by (auto simp: Attest_def p(1) Let_def)
  then show ?thesis using that by blast
qed

section \<open>A concrete run\<close>

definition ex_server_json :: json where
  "ex_server_json = JObj [(''trust_domain'', JStr ''realm.example''),
     (''nodes'', JObj [(''alpha'', JObj [(''fqdn'', JStr ''node.example''),
        (''addresses'', JArr [JStr ''10.0.0.1'', JStr ''10.0.0.2''])])]),
     (''port'', JNum ''18091''), (''trust_http_transport'', JBool True)]"

definition ex_files :: plugin_files where
  "ex_files = \<lparr>pf_hcl = (\<lambda>_. Some ''/etc/server.json''), pf_open = (\<lambda>_. Some (json_print ex_server_json))\<rparr>"

definition ex_configure :: server_call where
  "ex_configure = SConfigure ex_files (Ok 0) (Ok ()) (Some \<lparr>cq_hcl = [], cq_trust_domain = ''realm.example''\<rparr>)"

lemma ex_port: "atoi ''18091'' = Some 18091" "int_literal ''18091''"
proof -
  have "itoa 18091 = ''18091''" by (rule ex_targets(3))
  then show "atoi ''18091'' = Some 18091" using atoi_itoa [of 18091] by simp
  then show "int_literal ''18091''" by (simp add: int_literal_def ex_targets(3))
qed

lemma ex_server_json_safe: "json_safe ex_server_json"
  by (simp add: ex_server_json_def json_plain_def ex_port)

lemma ex_server_decodes: "dec_server_config ex_server_json zero_server_config = Some ex_config"
  by (simp add: ex_server_json_def dec_server_config_def zero_server_config_def ex_config_def dec_struct_def
      dec_field_def field_for_def dec_string_def dec_map_def dec_policy_def zero_policy_def dec_slice_def dec_int_def
      dec_bool_def ex_port gm_put_def gm_get_def)

lemma ex_configured:
  assumes "p = plugin_step G J new_server_plugin ex_configure"
  shows "\<exists>r. sp_metrics p = Some r \<and> sp_begin p = Some ((initial_server ex_config)\<lparr>sv_metrics := Some r\<rparr>)"
proof -
  have "json_next (json_print ex_server_json @ []) = Some (ex_server_json, [])"
    by (rule json_next_print [OF ex_server_json_safe]) (simp add: json_follow_def)
  then have "readPluginConfig ex_files dec_server_config zero_server_config (Some \<lparr>cq_hcl = [], cq_trust_domain = ''realm.example''\<rparr>) = Ok ex_config"
    by (simp add: readPluginConfig_def ex_files_def ex_server_decodes json_at_eof_def skip_ws_def)
  moreover have "NewServer ex_config = Ok (initial_server ex_config)" using ex_config_ok by (simp add: NewServer_Ok)
  moreover have "sc_trust_domain ex_config = ''realm.example''" "sc_metrics_address ex_config = []" by (simp_all add: ex_config_def)
  ultimately show ?thesis
    unfolding assms
    by (simp add: ex_configure_def Configure_server_def checkTrustDomain_def new_server_plugin_def metrics_or_new_def
        listener_configure_def validateMetricsAddress_def newMetrics_def Let_def)
qed

definition ex_server_plugin :: ServerPlugin where
  "ex_server_plugin = foldl (plugin_step ex_grpc ex_jose) new_server_plugin [ex_configure]"

lemma ex_plugin_server:
  obtains r where "sp_metrics ex_server_plugin = Some r"
    "sp_begin ex_server_plugin = Some ((initial_server ex_config)\<lparr>sv_metrics := Some r\<rparr>)"
  using ex_configured [of ex_server_plugin ex_grpc ex_jose] by (auto simp: ex_server_plugin_def)

lemma ex_attest:
  obtains st p' raw where "rands_ok st"
    "Attest ex_grpc ex_jose st ex_server_plugin = (Ok (), p', [SentChallenge raw,
       SentAttributes ''spiffe://realm.example/spire/agent/http_fqdn/alpha'' [''fqdn:node.example''] True])"
proof -
  let ?b1 = "replicate 32 CHR ''i''" and ?b2 = "replicate 32 CHR ''n''" and ?now = "seconds 1000"
  obtain r where sp: "sp_begin ex_server_plugin = Some ((initial_server ex_config)\<lparr>sv_metrics := Some r\<rparr>)"
    by (rule ex_plugin_server)
  let ?s = "(initial_server ex_config)\<lparr>sv_metrics := Some r\<rparr>"
  define at where "at = begun ?s (request_for ''node.example'' ex_key) ex_node (b64_encode ?b1) (b64_encode ?b2) ?now"
  have s: "sv_config ?s = ex_config" "sv_recent ?s = []" by (simp_all add: initial_server_def)
  have key: "length ex_key = 64" by (simp add: ex_key_def)
  have ok: "attempt_ok ex_config at"
    unfolding at_def using ex_node_lookup jwk_key_for [OF public_of_length [OF key]] s(1)
    by (intro begun_ok) (simp_all add: request_for_def)
  have at: "ch_expires (at_challenge at) = 1120" "at_raw at = json_print (challenge_json (at_challenge at))" "at_node at = ex_node"
    "ch_thumbprint (at_challenge at) = thumbprint (jwkFor (public_of ex_key))"
    by (simp_all add: at_def begun_def request_for_def Let_def unix_of_def)
  have v: "validateChallenge (at_challenge at) ?now = Ok ()"
    by (rule begun_valid [OF ok ex_config_ok]) (simp_all add: at unix_of_def)
  obtain pf where pf: "length pf \<le> MaxDocumentSize" "verifyProof ex_jose pf (jwkFor (public_of ex_key)) = Ok (json_print (challenge_json (at_challenge at)))"
    by (rule sign_parse [OF ex_jose_correct key v _ at(4)]) (simp_all add: at)
  have "idle ex_config ?s" by (rule idle_initial [OF ex_config_ok])
  from attest_honest [OF sp this key ex_node_lookup _ _ at_def, of ?now ?now ?now "ex_env pf" pf ex_jose ex_grpc ex_timing]
  obtain p' where "Attest ex_grpc ex_jose (honest_stream (json_print (request_json (request_for ''node.example'' ex_key)))
      (ready_for (at_challenge at)) ?b1 ?b2 ?now (ex_env pf) ?now ?now ?now ex_timing) ex_server_plugin =
      (Ok (), p', [SentChallenge (at_raw at), SentAttributes (AgentID (verify_result ?s at)) (SelectorValues (verify_result ?s at)) True])"
    using pf at ex_fetch [OF pf(1)] by (auto simp: s since_def unix_of_def)
  moreover have "AgentID (verify_result ?s at) = ''spiffe://realm.example/spire/agent/http_fqdn/alpha''"
    "SelectorValues (verify_result ?s at) = [''fqdn:node.example'']"
    unfolding verify_result_def s at(3) by (simp_all add: ex_config_def ex_node_def PluginName_def)
  moreover have "rands_ok (honest_stream pl rs ?b1 ?b2 n e t0 t1 t2 tm)" for pl rs n e t0 t1 t2 tm
    by (simp add: rands_ok_def honest_stream_def)
  ultimately show ?thesis using that by metis
qed

lemma ex_calls_ok: "list_all call_ok [ex_configure]"
  by (simp add: call_ok_def ex_configure_def)

theorem plugin_attributes_sound_witness:
  "\<exists>st p' sent. Attest ex_grpc ex_jose st ex_server_plugin = (Ok (), p', sent) \<and>
    (\<exists>c k pf. sent = [SentChallenge (json_print (challenge_json c)),
        SentAttributes ''spiffe://realm.example/spire/agent/http_fqdn/alpha'' [''fqdn:node.example''] True] \<and>
      verifyProof ex_jose pf (jwkFor k) = Ok (json_print (challenge_json c)))"
proof -
  obtain st p' raw where st: "rands_ok st" and a: "Attest ex_grpc ex_jose st ex_server_plugin = (Ok (), p', [SentChallenge raw,
       SentAttributes ''spiffe://realm.example/spire/agent/http_fqdn/alpha'' [''fqdn:node.example''] True])" by (rule ex_attest)
  from plugin_attributes_sound [OF ex_server_plugin_def ex_calls_ok st a,
      of "''spiffe://realm.example/spire/agent/http_fqdn/alpha''" "[''fqdn:node.example'']" True]
  obtain c k pf where "raw = json_print (challenge_json c)" "verifyProof ex_jose pf (jwkFor k) = Ok (json_print (challenge_json c))" by auto
  with a show ?thesis by blast
qed

theorem attest_accounted_witness:
  "\<exists>st p' sent r r'. Attest ex_grpc ex_jose st ex_server_plugin = (Ok (), p', sent) \<and> sp_metrics ex_server_plugin = Some r \<and>
    sp_metrics p' = Some r' \<and> length (mr_events r') = Suc (length (mr_events r))"
proof -
  obtain st p' raw where st: "rands_ok st" and a: "Attest ex_grpc ex_jose st ex_server_plugin = (Ok (), p', [SentChallenge raw,
       SentAttributes ''spiffe://realm.example/spire/agent/http_fqdn/alpha'' [''fqdn:node.example''] True])" by (rule ex_attest)
  obtain r where r: "sp_metrics ex_server_plugin = Some r"
    "sp_begin ex_server_plugin = Some ((initial_server ex_config)\<lparr>sv_metrics := Some r\<rparr>)" by (rule ex_plugin_server)
  from attest_accounted [OF ex_server_plugin_def ex_calls_ok st a r(2,1)] a r(1) show ?thesis by blast
qed

end
