(* ===== verification/Attest_Listeners.thy ===== *)
theory Attest_Listeners
  imports Attest_Responder "HOL-Library.Multiset"
begin

text \<open>
  The sockets of \<^verbatim>\<open>responder_linux.go\<close>: inherited or opened listeners, the limit on connections,
  and the life of the responder process. System calls are the fields of \<open>os_env\<close>. Functions that
  open sockets also return the listeners they opened and the ones they closed, in order.
\<close>

section \<open>Listeners\<close>

datatype laddr = UnixLA string | TcpLA int bool | OtherLA

record lsn =
  ls_handle :: nat
  ls_addr :: laddr

record os_env =
  oe_getenv :: "string \<Rightarrow> string"
  oe_pid :: int
  oe_file_listener :: "nat \<Rightarrow> lsn result"
  oe_mkdir :: "string \<Rightarrow> unit result"
  oe_listen :: "string \<Rightarrow> string \<Rightarrow> lsn result"
  oe_chmod :: "string \<Rightarrow> unit result"
  oe_order :: "(string \<times> string) list"

type_synonym listeners = "(string, lsn) gmap"

abbreviation close_all :: "listeners \<Rightarrow> lsn list" where
  "close_all ls \<equiv> map snd ls"

definition expected_listener :: "ResponderConfig \<Rightarrow> string \<Rightarrow> lsn \<Rightarrow> bool" where
  "expected_listener config name l =
     (if name = ''control'' then ls_addr l = UnixLA (rc_control_socket config)
      else case ls_addr l of
        TcpLA port is4 \<Rightarrow> port = rc_port config \<and> (name = ''http4'') = is4
      | _ \<Rightarrow> False)"

fun activate_loop ::
  "os_env \<Rightarrow> ResponderConfig \<Rightarrow> nat \<Rightarrow> string list \<Rightarrow> listeners \<Rightarrow> listeners result \<times> lsn list \<times> lsn list" where
  "activate_loop os config i [] ls =
     (if gm_get ls ''control'' = None \<or> gm_get ls ''http4'' = None \<and> gm_get ls ''http6'' = None
      then (Fail ''activation requires control and HTTP listeners'', close_all ls, close_all ls)
      else (Ok ls, close_all ls, []))"
| "activate_loop os config i (name # rest) ls =
     (if name \<noteq> ''control'' \<and> name \<noteq> ''http4'' \<and> name \<noteq> ''http6''
      then (Fail ''unknown activation socket'', close_all ls, close_all ls)
      else if gm_get ls name \<noteq> None
      then (Fail ''duplicate activation socket'', close_all ls, close_all ls)
      else case oe_file_listener os (3 + i) of
        Inl e \<Rightarrow> (Inl e, close_all ls, close_all ls)
      | Inr l \<Rightarrow>
          (let ls' = gm_put name l ls in
           if \<not> expected_listener config name l
           then (Fail (if name = ''control'' then ''unexpected control listener'' else ''unexpected HTTP listener''),
                 close_all ls', close_all ls')
           else activate_loop os config (Suc i) rest ls'))"

definition activatedListeners :: "os_env \<Rightarrow> ResponderConfig \<Rightarrow> listeners result \<times> lsn list \<times> lsn list" where
  "activatedListeners os config =
     (case atoi (oe_getenv os ''LISTEN_PID'') of
        None \<Rightarrow> (Fail ''invalid activation PID'', [], [])
      | Some pid \<Rightarrow>
          if pid \<noteq> oe_pid os then (Fail ''invalid activation PID'', [], [])
          else
            let names = split_on CHR '':'' (oe_getenv os ''LISTEN_FDNAMES'') in
            case atoi (oe_getenv os ''LISTEN_FDS'') of
              None \<Rightarrow> (Fail ''expected a control socket and one or two HTTP sockets'', [], [])
            | Some n \<Rightarrow>
                if n < 2 \<or> n > 3 \<or> int (length names) \<noteq> n
                then (Fail ''expected a control socket and one or two HTTP sockets'', [], [])
                else activate_loop os config 0 names [])"

text \<open>The two HTTP listeners are opened in the order the map of networks is visited.\<close>

fun open_http :: "os_env \<Rightarrow> ResponderConfig \<Rightarrow> (string \<times> string) list \<Rightarrow> listeners \<Rightarrow> listeners result \<times> lsn list \<times> lsn list" where
  "open_http os config [] ls = (Ok ls, close_all ls, [])"
| "open_http os config ((name, network) # rest) ls =
     (let address = (if network = ''tcp6'' then ''::'' else ''0.0.0.0'') in
      case oe_listen os network (join_host_port address (itoa (rc_port config))) of
        Inl e \<Rightarrow> (Inl e, close_all ls, close_all ls)
      | Inr l \<Rightarrow> open_http os config rest (gm_put name l ls))"

definition responderListeners :: "os_env \<Rightarrow> ResponderConfig \<Rightarrow> listeners result \<times> lsn list \<times> lsn list" where
  "responderListeners os config =
     (if oe_getenv os ''LISTEN_FDS'' \<noteq> [] then activatedListeners os config
      else case oe_mkdir os (path_dir (rc_control_socket config)) of
        Inl e \<Rightarrow> (Inl e, [], [])
      | Inr _ \<Rightarrow>
          (case oe_listen os ''unix'' (rc_control_socket config) of
             Inl e \<Rightarrow> (Inl e, [], [])
           | Inr ctl \<Rightarrow>
               (let ls = gm_put ''control'' ctl [] in
                case oe_chmod os (rc_control_socket config) of
                  Inl e \<Rightarrow> (Inl e, close_all ls, close_all ls)
                | Inr _ \<Rightarrow> open_http os config (oe_order os) ls)))"

section \<open>The process\<close>

datatype handler = HandlePublic | HandleControl

definition handler_for :: "string \<Rightarrow> handler" where
  "handler_for name = (if name = ''control'' then HandleControl else HandlePublic)"

datatype run_event = CtxDone | Served go_error

definition ErrServerClosed :: go_error where
  "ErrServerClosed = ErrLib ''http: Server closed''"

text \<open>
  \<open>event\<close> is what ends the process: its context, or a server that stops. The result, the handler of
  each listener that is served, and the handles of the listeners opened and of those closed, that of the metrics
  included. The deferred calls close the metrics listener first and the others after it; \<^verbatim>\<open>server.Close\<close> closes
  listeners that are closed again here, which has no further effect and is left out.
\<close>

definition RunResponder ::
  "os_env \<Rightarrow> nat result \<Rightarrow> run_event \<Rightarrow> ResponderConfig \<Rightarrow>
    unit result \<times> (string \<times> handler) list \<times> nat list \<times> nat list" where
  "RunResponder os metrics_listen event config =
     (case newResponder config of
        Inl e \<Rightarrow> (Inl e, [], [], [])
      | Inr r \<Rightarrow>
          (case responderListeners os config of
             (Inl e, opened, closed) \<Rightarrow> (Inl e, [], map ls_handle opened, map ls_handle closed)
           | (Inr ls, opened, closed) \<Rightarrow>
               (case listener_configure metrics_listen (Ok ()) (rc_metrics_address config)
                       \<lparr>lst_address = [], lst_handle = None\<rparr> of
                  (Inl e, _) \<Rightarrow> (Inl e, [], map ls_handle opened, map ls_handle (closed @ close_all ls))
                | (Inr _, metrics, given_up) \<Rightarrow>
                    (case event of
                       CtxDone \<Rightarrow> Ok ()
                     | Served e \<Rightarrow> if error_is e ErrServerClosed then Ok () else Inl e,
                     map (\<lambda>(name, l). (name, handler_for name)) ls,
                     map ls_handle opened @ (case lst_handle metrics of None \<Rightarrow> [] | Some h \<Rightarrow> [h]),
                     map ls_handle closed @ given_up @ snd (snd (listener_close (Ok ()) metrics)) @ map ls_handle (close_all ls)))))"

section \<open>The limit on connections\<close>








section \<open>No listener leaks\<close>

definition listeners_outcome :: "(string \<Rightarrow> lsn \<Rightarrow> bool) \<Rightarrow> listeners result \<times> lsn list \<times> lsn list \<Rightarrow> bool" where
  "listeners_outcome P out =
     (case out of (res, opened, closed) \<Rightarrow>
        (case res of
           Inl _ \<Rightarrow> closed = opened
         | Inr ls \<Rightarrow> closed = [] \<and> opened = close_all ls \<and> gm_ok ls \<and> (\<forall>(name, l) \<in> set ls. P name l)))"

lemma put_entries: "\<forall>(k, v) \<in> set m. P k v \<Longrightarrow> P k v \<Longrightarrow> gm_ok m \<Longrightarrow> \<forall>(k', v') \<in> set (gm_put k v m). P k' v'"
proof -
  assume a: "\<forall>(k, v) \<in> set m. P k v" "P k v" "gm_ok m"
  have "gm_ok (gm_put k v m)" using a(3) by simp
  then have "P k' v'" if "(k', v') \<in> set (gm_put k v m)" for k' v'
    using gm_mem_get [OF _ that] a gm_get_mem [of m k' v'] by (auto split: if_splits)
  then show ?thesis by blast
qed

definition activation_ok :: "ResponderConfig \<Rightarrow> string \<Rightarrow> lsn \<Rightarrow> bool" where
  "activation_ok config name l =
     (name \<in> {''control'', ''http4'', ''http6''} \<and> expected_listener config name l)"

definition has_needed :: "listeners result \<times> lsn list \<times> lsn list \<Rightarrow> bool" where
  "has_needed out =
     (case fst out of
        Inl _ \<Rightarrow> True
      | Inr ls \<Rightarrow> gm_get ls ''control'' \<noteq> None \<and> (gm_get ls ''http4'' \<noteq> None \<or> gm_get ls ''http6'' \<noteq> None))"

lemma activate_loop_ok:
  "gm_ok ls \<Longrightarrow> \<forall>(name, l) \<in> set ls. activation_ok config name l \<Longrightarrow>
    listeners_outcome (activation_ok config) (activate_loop os config i names ls) \<and>
    has_needed (activate_loop os config i names ls)"
proof (induction os config i names ls rule: activate_loop.induct)
  case (1 os config i ls)
  then show ?case by (simp add: listeners_outcome_def has_needed_def)
next
  case (2 os config i name rest ls)
  let ?out = "activate_loop os config i (name # rest) ls"
  let ?good = "\<lambda>l. (name = ''control'' \<or> name = ''http4'' \<or> name = ''http6'') \<and> gm_get ls name = None \<and>
      oe_file_listener os (3 + i) = Inr l \<and> expected_listener config name l"
  have bad: "\<exists>e cs. ?out = (Inl e, cs, cs)" if "\<nexists>l. ?good l"
    by (cases "oe_file_listener os (3 + i)") (use that in \<open>auto simp: Let_def\<close>)
  show ?case
  proof (cases "\<exists>l. ?good l")
    case False
    with bad obtain e cs where "?out = (Inl e, cs, cs)" by blast
    then show ?thesis by (simp only: listeners_outcome_def has_needed_def split: prod.splits sum.splits) simp
  next
    case True
    then obtain l where ok: "name = ''control'' \<or> name = ''http4'' \<or> name = ''http6''" "gm_get ls name = None"
      "oe_file_listener os (3 + i) = Inr l" "expected_listener config name l" by blast
    then have "activation_ok config name l" by (simp add: activation_ok_def)
    with "2.prems" have "gm_ok (gm_put name l ls)" "\<forall>(n, l) \<in> set (gm_put name l ls). activation_ok config n l"
      by (simp, intro put_entries)
    moreover have "?out = activate_loop os config (Suc i) rest (gm_put name l ls)" using ok by auto
    ultimately show ?thesis using "2.IH" ok by auto
  qed
qed

lemma activatedListeners_ok:
  "listeners_outcome (activation_ok config) (activatedListeners os config) \<and> has_needed (activatedListeners os config)"
proof -
  have "listeners_outcome (activation_ok config) (activate_loop os config 0 names [])"
    "has_needed (activate_loop os config 0 names [])" for names
    using activate_loop_ok [of "[]" config os 0 names] by simp_all
  moreover have "listeners_outcome P (Inl e, [], [])" "has_needed (Inl e, [], [])" for P e
    by (simp_all add: listeners_outcome_def has_needed_def)
  ultimately show ?thesis
    by (simp add: activatedListeners_def Let_def split: option.split del: activate_loop.simps)
qed

lemma put_fresh: "gm_get m k = None \<Longrightarrow> gm_put k v m = m @ [(k, v)]"
  by (induction m) (auto simp: gm_put_def gm_get_def split: if_splits)

text \<open>The address that the name of a listener and the configuration call for.\<close>

definition address_for :: "ResponderConfig \<Rightarrow> string \<Rightarrow> laddr" where
  "address_for config name =
     (if name = ''control'' then UnixLA (rc_control_socket config) else TcpLA (rc_port config) (name = ''http4''))"

lemma expected_listener_iff: "expected_listener config name l \<longleftrightarrow> ls_addr l = address_for config name"
  by (cases "ls_addr l") (auto simp: expected_listener_def address_for_def)

text \<open>The descriptors from \<open>n\<close> on are listeners with the addresses of the names.\<close>

fun inherits :: "os_env \<Rightarrow> ResponderConfig \<Rightarrow> nat \<Rightarrow> string list \<Rightarrow> lsn list \<Rightarrow> bool" where
  "inherits os config n [] [] = True"
| "inherits os config n (name # names) (l # ls) =
     (oe_file_listener os n = Ok l \<and> ls_addr l = address_for config name \<and> inherits os config (Suc n) names ls)"
| "inherits os config n names ls = False"

lemma names_step:
  assumes "name \<in> V" "name \<notin> K"
  shows "(distinct (name # rest) \<and> set (name # rest) \<inter> K = {} \<and> set (name # rest) \<subseteq> V \<and> c \<in> set (name # rest) \<union> K \<and>
      (set (name # rest) \<union> K) \<inter> H \<noteq> {} \<and> E) \<longleftrightarrow>
    (distinct rest \<and> set rest \<inter> insert name K = {} \<and> set rest \<subseteq> V \<and> c \<in> set rest \<union> insert name K \<and>
      (set rest \<union> insert name K) \<inter> H \<noteq> {} \<and> E)"
  using assms by auto

lemma activate_loop_iff:
  "gm_ok ls \<Longrightarrow> (\<exists>opened closed. activate_loop os config i names ls = (Ok ls', opened, closed)) \<longleftrightarrow>
    distinct names \<and> set names \<inter> fst ` set ls = {} \<and> set names \<subseteq> {''control'', ''http4'', ''http6''} \<and>
    ''control'' \<in> set names \<union> fst ` set ls \<and> (set names \<union> fst ` set ls) \<inter> {''http4'', ''http6''} \<noteq> {} \<and>
    (\<exists>new. inherits os config (3 + i) names new \<and> ls' = ls @ zip names new)"
proof (induction os config i names ls rule: activate_loop.induct)
  case (1 os config i ls)
  have "(\<exists>new. inherits os config n [] new \<and> ls' = ls @ zip [] new) \<longleftrightarrow> ls' = ls" for n
    by (rule iffI, simp, intro exI [of _ "[]"]) simp
  then show ?case by (auto simp: gm_get_keys [symmetric])
next
  case (2 os config i name rest ls)
  let ?good = "name \<in> {''control'', ''http4'', ''http6''} \<and> gm_get ls name = None"
  have absent: "gm_get ls name = None \<longleftrightarrow> name \<notin> fst ` set ls" using gm_get_keys [of ls name] by auto
  show ?case
  proof (cases "?good \<and> (\<exists>l. oe_file_listener os (3 + i) = Ok l \<and> expected_listener config name l)")
    case False
    then have "\<not> inherits os config (3 + i) (name # rest) new" if ?good for new
      using that by (cases new) (auto simp: expected_listener_iff)
    moreover have "\<exists>e cs. activate_loop os config i (name # rest) ls = (Inl e, cs, cs)"
      by (cases "oe_file_listener os (3 + i)") (use False in \<open>auto simp: Let_def\<close>)
    then have "\<nexists>opened closed. activate_loop os config i (name # rest) ls = (Ok ls', opened, closed)"
      by (simp del: activate_loop.simps) (metis Inl_Inr_False prod.inject)
    ultimately show ?thesis using absent by auto
  next
    case True
    then obtain l where l: ?good "oe_file_listener os (3 + i) = Ok l" "expected_listener config name l" by blast
    have ok: "gm_ok (gm_put name l ls)" using "2.prems" by simp
    have e: "activate_loop os config i (name # rest) ls = activate_loop os config (Suc i) rest (gm_put name l ls)" using l by auto
    have inh: "inherits os config (3 + i) (name # rest) new \<longleftrightarrow> (\<exists>new'. new = l # new' \<and> inherits os config (3 + Suc i) rest new')" for new
      using l by (cases new) (auto simp: expected_listener_iff)
    have IH: "(\<exists>opened closed. activate_loop os config (Suc i) rest (gm_put name l ls) = (Ok ls', opened, closed)) \<longleftrightarrow>
        distinct rest \<and> set rest \<inter> fst ` set (gm_put name l ls) = {} \<and> set rest \<subseteq> {''control'', ''http4'', ''http6''} \<and>
        ''control'' \<in> set rest \<union> fst ` set (gm_put name l ls) \<and> (set rest \<union> fst ` set (gm_put name l ls)) \<inter> {''http4'', ''http6''} \<noteq> {} \<and>
        (\<exists>new. inherits os config (3 + Suc i) rest new \<and> ls' = gm_put name l ls @ zip rest new)"
      by (rule "2.IH") (use l ok in auto)
    have put: "gm_put name l ls = ls @ [(name, l)]" using l by (simp add: put_fresh)
    have ex: "(\<exists>new. inherits os config (3 + i) (name # rest) new \<and> ls' = ls @ zip (name # rest) new) \<longleftrightarrow>
        (\<exists>new. inherits os config (3 + Suc i) rest new \<and> ls' = (ls @ [(name, l)]) @ zip rest new)"
    proof
      assume "\<exists>new. inherits os config (3 + i) (name # rest) new \<and> ls' = ls @ zip (name # rest) new"
      then obtain new where "inherits os config (3 + Suc i) rest new" "ls' = ls @ zip (name # rest) (l # new)" unfolding inh by blast
      then show "\<exists>new. inherits os config (3 + Suc i) rest new \<and> ls' = (ls @ [(name, l)]) @ zip rest new" by (intro exI [of _ new]) simp
    next
      assume "\<exists>new. inherits os config (3 + Suc i) rest new \<and> ls' = (ls @ [(name, l)]) @ zip rest new"
      then obtain new where "inherits os config (3 + Suc i) rest new" "ls' = (ls @ [(name, l)]) @ zip rest new" by blast
      then show "\<exists>new. inherits os config (3 + i) (name # rest) new \<and> ls' = ls @ zip (name # rest) new"
        unfolding inh by (intro exI [of _ "l # new"]) simp
    qed
    have keys: "fst ` set (ls @ [(name, l)]) = insert name (fst ` set ls)" by simp
    show ?thesis unfolding e put ex IH [unfolded put keys]
      by (rule names_step [symmetric]) (use l absent in blast)+
  qed
qed

text \<open>C37. Socket activation accepts exactly what the service manager is documented to pass: the sockets are for this
  process, there are two or three of them, as many as names, the names are distinct, one is the control socket and the
  others are the HTTP sockets, and each descriptor, in order, is a listener with the address its name and the configuration call for.
  The listeners are then those, by name. When the sockets are refused, exactly the listeners that were opened are closed again.\<close>

theorem activated_listeners_exact:
  "((\<exists>opened closed. activatedListeners os config = (Ok ls, opened, closed)) \<longleftrightarrow>
     (let names = split_on CHR '':'' (oe_getenv os ''LISTEN_FDNAMES'') in
      atoi (oe_getenv os ''LISTEN_PID'') = Some (oe_pid os) \<and> atoi (oe_getenv os ''LISTEN_FDS'') = Some (int (length names)) \<and>
      length names \<in> {2, 3} \<and> distinct names \<and> ''control'' \<in> set names \<and> set names \<subseteq> {''control'', ''http4'', ''http6''} \<and>
      (\<exists>new. inherits os config 3 names new \<and> ls = zip names new))) \<and>
   (case activatedListeners os config of
      (Inl e, opened, closed) \<Rightarrow> closed = opened
    | (Inr ls, opened, closed) \<Rightarrow> closed = [] \<and> opened = map snd ls)"
proof (rule conjI)
  let ?names = "split_on CHR '':'' (oe_getenv os ''LISTEN_FDNAMES'')"
  have http: "set names \<inter> {''http4'', ''http6''} \<noteq> {}"
    if "length names \<in> {2, 3}" "distinct names" "set names \<subseteq> {''control'', ''http4'', ''http6''}" for names :: "string list"
  proof
    assume "set names \<inter> {''http4'', ''http6''} = {}"
    then have "card (set names) \<le> card {''control''}" using that(3) by (intro card_mono) auto
    then show False using that(1,2) distinct_card [of names] by auto
  qed
  have loop: "(\<exists>opened closed. activate_loop os config 0 ?names [] = (Ok ls, opened, closed)) \<longleftrightarrow>
      distinct ?names \<and> set ?names \<subseteq> {''control'', ''http4'', ''http6''} \<and> ''control'' \<in> set ?names \<and> set ?names \<inter> {''http4'', ''http6''} \<noteq> {} \<and>
      (\<exists>new. inherits os config 3 ?names new \<and> ls = zip ?names new)"
    using activate_loop_iff [of "[]" os config 0 ?names ls] by simp
  have n: "\<not> (n < 2 \<or> n > 3 \<or> int (length names) \<noteq> n) \<longleftrightarrow> length names \<in> {2, 3} \<and> n = int (length names)"
    for n and names :: "string list" by auto
  show "(\<exists>opened closed. activatedListeners os config = (Ok ls, opened, closed)) \<longleftrightarrow>
     (let names = ?names in
      atoi (oe_getenv os ''LISTEN_PID'') = Some (oe_pid os) \<and> atoi (oe_getenv os ''LISTEN_FDS'') = Some (int (length names)) \<and>
      length names \<in> {2, 3} \<and> distinct names \<and> ''control'' \<in> set names \<and> set names \<subseteq> {''control'', ''http4'', ''http6''} \<and>
      (\<exists>new. inherits os config 3 names new \<and> ls = zip names new))"
  proof (cases "atoi (oe_getenv os ''LISTEN_PID'') = Some (oe_pid os) \<and> atoi (oe_getenv os ''LISTEN_FDS'') = Some (int (length ?names)) \<and> length ?names \<in> {2, 3}")
    case True
    then have "activatedListeners os config = activate_loop os config 0 ?names []" by (auto simp: activatedListeners_def Let_def)
    then show ?thesis unfolding Let_def using True loop http [of ?names] by auto
  next
    case False
    then have "\<nexists>opened closed. activatedListeners os config = (Ok ls, opened, closed)"
      by (auto simp: activatedListeners_def Let_def split: option.splits if_splits simp del: activate_loop.simps)
    then show ?thesis unfolding Let_def using False by blast
  qed
  show "case activatedListeners os config of
      (Inl e, opened, closed) \<Rightarrow> closed = opened
    | (Inr ls, opened, closed) \<Rightarrow> closed = [] \<and> opened = map snd ls"
    using activatedListeners_ok [of config os]
    by (cases "activatedListeners os config") (auto simp: listeners_outcome_def split: sum.splits)
qed

text \<open>An environment in which it accepts: a control socket and one HTTP socket.\<close>

lemma activation_accepts:
  "\<exists>opened closed. activatedListeners
      \<lparr>oe_getenv = (\<lambda>v. if v = ''LISTEN_PID'' then ''7'' else if v = ''LISTEN_FDS'' then ''2'' else ''http4:control''), oe_pid = 7,
       oe_file_listener = (\<lambda>n. Ok (if n = 3 then \<lparr>ls_handle = 3, ls_addr = TcpLA 18091 True\<rparr> else \<lparr>ls_handle = 4, ls_addr = UnixLA ''/run/proofs.sock''\<rparr>)),
       oe_mkdir = (\<lambda>_. Ok ()), oe_listen = (\<lambda>_ _. Inl (ErrLib ''listen'')), oe_chmod = (\<lambda>_. Ok ()), oe_order = []\<rparr> ex_rconfig =
    (Ok [(''http4'', \<lparr>ls_handle = 3, ls_addr = TcpLA 18091 True\<rparr>), (''control'', \<lparr>ls_handle = 4, ls_addr = UnixLA ''/run/proofs.sock''\<rparr>)], opened, closed)"
proof -
  have "split_on CHR '':'' ''http4:control'' = [''http4'', ''control'']" "atoi ''7'' = Some 7" "atoi ''2'' = Some 2" by code_simp+
  then show ?thesis
    by (simp add: activatedListeners_def Let_def expected_listener_def ex_rconfig_def gm_put_def gm_get_def)
qed

lemma open_http_ok:
  "gm_ok ls \<Longrightarrow> listeners_outcome (\<lambda>_ _. True) (open_http os config order ls)"
  by (induction os config order ls rule: open_http.induct)
    (auto simp: listeners_outcome_def Let_def split: sum.splits)

lemma listeners_outcome_weaken: "listeners_outcome P out \<Longrightarrow> listeners_outcome (\<lambda>_ _. True) out"
  by (auto simp: listeners_outcome_def split: prod.splits sum.splits)

lemma responderListeners_ok: "listeners_outcome (\<lambda>_ _. True) (responderListeners os config)"
proof -
  have "listeners_outcome (\<lambda>_ _. True) (activatedListeners os config)"
    using activatedListeners_ok by (blast intro: listeners_outcome_weaken)
  moreover have "listeners_outcome (\<lambda>_ _. True) (open_http os config (oe_order os) (gm_put n l []))" for n l
    by (rule open_http_ok) simp
  moreover have "listeners_outcome (\<lambda>_ _. True) (Inl e, cs, cs)" for e cs by (simp add: listeners_outcome_def)
  ultimately show ?thesis by (simp add: responderListeners_def Let_def split: sum.split)
qed

lemma configure_fresh:
  "listener_configure listen res address \<lparr>lst_address = [], lst_handle = None\<rparr> = (r, m, given_up) \<Longrightarrow>
    given_up = [] \<and> snd (snd (listener_close (Ok ()) m)) = (case lst_handle m of None \<Rightarrow> [] | Some h \<Rightarrow> [h])"
  by (auto simp: listener_configure_def listener_close_def split: sum.splits if_splits option.splits)

text \<open>C36. However the responder process ends, it has closed every listener it opened, those of the two handlers and that of the
  metrics, each as often as it was opened; and the handler that can change the store is served on the control socket
  only.\<close>

theorem responder_closes_listeners:
  assumes "RunResponder os metrics_listen event config = (res, handlers, opened, closed)"
  shows "mset closed = mset opened \<and> (\<forall>(name, h) \<in> set handlers. h = HandleControl \<longleftrightarrow> name = ''control'')"
proof (cases "newResponder config")
  case (Inl e)
  with assms show ?thesis by (simp add: RunResponder_def)
next
  case (Inr r)
  obtain out o' c' where l: "responderListeners os config = (out, o', c')" by (cases "responderListeners os config")
  obtain q m g where c: "listener_configure metrics_listen (Ok ()) (rc_metrics_address config) \<lparr>lst_address = [], lst_handle = None\<rparr> = (q, m, g)"
    by (cases "listener_configure metrics_listen (Ok ()) (rc_metrics_address config) \<lparr>lst_address = [], lst_handle = None\<rparr>") auto
  show ?thesis using l c configure_fresh [OF c] responderListeners_ok [of os config] Inr assms
    by (cases out; cases q) (auto simp: RunResponder_def listeners_outcome_def handler_for_def split: if_splits)
qed

definition ex_os :: os_env where
  "ex_os = \<lparr>oe_getenv = (\<lambda>_. []), oe_pid = 7, oe_file_listener = (\<lambda>_. Inl (ErrLib ''fd'')), oe_mkdir = (\<lambda>_. Ok ()),
     oe_listen = (\<lambda>network _. if network = ''tcp6'' then Inl (ErrLib ''no IPv6'') else Ok \<lparr>ls_handle = (if network = ''unix'' then 1 else 2), ls_addr = OtherLA\<rparr>),
     oe_chmod = (\<lambda>_. Ok ()), oe_order = [(''http4'', ''tcp4''), (''http6'', ''tcp6'')]\<rparr>"

text \<open>With a metrics listener: on a host where both HTTP sockets open, and on one without IPv6.\<close>

theorem responder_closes_listeners_witness:
  "(\<exists>hs closed. RunResponder (ex_os\<lparr>oe_order := [(''http4'', ''tcp4'')]\<rparr>) (Ok 9) CtxDone (ex_rconfig\<lparr>rc_metrics_address := ''127.0.0.1:9090''\<rparr>) =
      (Ok (), hs, [1, 2, 9], closed) \<and> mset closed = {#1, 2, 9#}) \<and>
   (\<exists>e closed. RunResponder ex_os (Ok 9) CtxDone ex_rconfig = (Inl e, [], [1, 2], closed) \<and> mset closed = {#1, 2#})"
proof -
  have v: "validateMetricsAddress ''127.0.0.1:9090'' = Ok ()" by code_simp
  have new: "\<exists>r. newResponder (ex_rconfig\<lparr>rc_metrics_address := ''127.0.0.1:9090''\<rparr>) = Ok r"
    by (simp add: newResponder_def ex_rconfig_def v ex_names path_is_abs_def has_prefix_def newMetrics_def)
  obtain res hs opened closed where
    r: "RunResponder (ex_os\<lparr>oe_order := [(''http4'', ''tcp4'')]\<rparr>) (Ok 9) CtxDone (ex_rconfig\<lparr>rc_metrics_address := ''127.0.0.1:9090''\<rparr>) = (res, hs, opened, closed)"
    by (rule prod_cases4)
  then have "res = Ok ()" "opened = [1, 2, 9]" using new
    by (auto simp: RunResponder_def responderListeners_def ex_os_def Let_def gm_put_def listener_configure_def listener_close_def v)
  with responder_closes_listeners [OF r] r have 1: "\<exists>hs closed. RunResponder (ex_os\<lparr>oe_order := [(''http4'', ''tcp4'')]\<rparr>) (Ok 9) CtxDone
      (ex_rconfig\<lparr>rc_metrics_address := ''127.0.0.1:9090''\<rparr>) = (Ok (), hs, [1, 2, 9], closed) \<and> mset closed = {#1, 2, 9#}" by auto
  obtain res hs opened closed where r: "RunResponder ex_os (Ok 9) CtxDone ex_rconfig = (res, hs, opened, closed)" by (rule prod_cases4)
  then have "res = Inl (ErrLib ''no IPv6'')" "hs = []" "opened = [1, 2]" using ex_responder_new
    by (simp_all add: RunResponder_def responderListeners_def ex_os_def Let_def gm_put_def split: sum.splits)
  with responder_closes_listeners [OF r] r have "\<exists>e closed. RunResponder ex_os (Ok 9) CtxDone ex_rconfig = (Inl e, [], [1, 2], closed) \<and> mset closed = {#1, 2#}" by auto
  with 1 show ?thesis by blast
qed

section \<open>The limit holds\<close>







end
