(* ===== verification/Attest_Session.thy ===== *)
theory Attest_Session
  imports Attest_Plugin Attest_Listeners
begin

text \<open>
  A whole attestation: an agent, the responder on its node, and the server, composed over a network
  that delivers. \<open>node_env\<close> is the network the server fetches through when every pinned address leads
  to the node's responder.
\<close>

section \<open>The network\<close>

definition get_request :: "string \<Rightarrow> http_request" where
  "get_request url =
     (let rest = trim_prefix ''http://'' url;
          host = takeWhile (\<lambda>c. c \<noteq> CHR ''/'') rest;
          path = dropWhile (\<lambda>c. c \<noteq> CHR ''/'') rest in
      \<lparr>hq_method = ''GET'', hq_host = host, hq_path = path, hq_escaped_path = path, hq_raw_query = [],
       hq_content_length = 0, hq_transfer_encoding = [], hq_body = [], hq_body_broken = False, hq_root_peer = False\<rparr>)"

text \<open>The connection takes \<open>n\<close> bytes of a body.\<close>

definition node_env :: "nat \<Rightarrow> (nat \<Rightarrow> time) \<Rightarrow> timing \<Rightarrow> responder \<Rightarrow> fetch_env" where
  "node_env n clock tm r =
     \<lparr>fe_ctx_err = (\<lambda>_. None),
      fe_do = (\<lambda>i target url.
        let ans = fst (public clock (n, False) tm (get_request url) r) in
        Some \<lparr>rp_status = ha_status ans, rp_bytes = ha_body ans, rp_broken = False, rp_encoding = []\<rparr>)\<rparr>"

lemma label_no_slash: "valid_label s \<Longrightarrow> list_all (\<lambda>c. c \<noteq> CHR ''/'' \<and> c \<noteq> CHR '':'') s"
proof -
  assume "valid_label s"
  then have "list_all (\<lambda>c. label_char c \<or> c = CHR ''-'') s" by (simp add: valid_label_def)
  then show ?thesis by (rule list.pred_mono_strong) (auto simp: label_char_def)
qed

lemma fqdn_no_slash: "validFQDN v \<Longrightarrow> list_all (\<lambda>c. c \<noteq> CHR ''/'' \<and> c \<noteq> CHR '':'') v"
proof -
  assume v: "validFQDN v"
  have "list_all (\<lambda>c. c \<noteq> CHR ''/'' \<and> c \<noteq> CHR '':'') (join_with ''.'' (split_on CHR ''.'' v))"
  proof (rule join_with_all)
    show "list_all (list_all (\<lambda>c. c \<noteq> CHR ''/'' \<and> c \<noteq> CHR '':'')) (split_on CHR ''.'' v)"
      using validFQDN_all_labels [OF v] by (rule list.pred_mono_strong) (rule label_no_slash)
  qed simp
  then show ?thesis by simp
qed

lemma itoa_no_slash: "CHR ''/'' \<notin> set (itoa n)"
proof -
  have "list_all (\<lambda>c. c \<noteq> CHR ''/'') (show_nat k)" for k
    using show_nat_digits [of k, THEN conjunct1] by (rule list.pred_mono_strong) (auto simp: is_digit_def)
  then have "CHR ''/'' \<notin> set (show_nat k)" for k by (auto simp: list_all_iff)
  then show ?thesis by (simp add: itoa_def)
qed

lemma get_request_url:
  assumes "validFQDN f"
  shows "hq_host (get_request (''http://'' @ join_host_port f (itoa port) @ PathPrefix @ pid)) = join_host_port f (itoa port)"
    "hq_path (get_request (''http://'' @ join_host_port f (itoa port) @ PathPrefix @ pid)) = PathPrefix @ pid"
proof -
  let ?host = "join_host_port f (itoa port)"
  have "CHR ''/'' \<notin> set ?host"
    using fqdn_no_slash [OF assms] itoa_no_slash [of port] by (auto simp: join_host_port_def list_all_iff)
  then have host: "x \<noteq> CHR ''/''" if "x \<in> set ?host" for x using that by blast
  have "takeWhile (\<lambda>c. c \<noteq> CHR ''/'') (?host @ PathPrefix @ pid) = ?host" "dropWhile (\<lambda>c. c \<noteq> CHR ''/'') (?host @ PathPrefix @ pid) = PathPrefix @ pid"
    using takeWhile_append2 [of ?host "\<lambda>c. c \<noteq> CHR ''/''" "PathPrefix @ pid"] dropWhile_append2 [of ?host "\<lambda>c. c \<noteq> CHR ''/''" "PathPrefix @ pid"] host
    by (simp_all add: PathPrefix_def)
  then show "hq_host (get_request (''http://'' @ ?host @ PathPrefix @ pid)) = ?host"
    "hq_path (get_request (''http://'' @ ?host @ PathPrefix @ pid)) = PathPrefix @ pid"
    by (simp_all add: get_request_def trim_prefix_def has_prefix_def Let_def)
qed

lemma public_found:
  assumes "gm_ok (rs_proofs r)" "gm_get (rs_proofs r) pid = Some pf" "\<And>i. unix_of (clock i) < sp_expires pf" "validRandom pid"
    and "hq_method request = ''GET''" "hq_host request = join_host_port (rc_fqdn (rs_config r)) (itoa (rc_port (rs_config r)))"
    and "hq_path request = PathPrefix @ pid" "hq_escaped_path request = hq_path request" "hq_raw_query request = []"
    and "hq_content_length request = 0" "hq_transfer_encoding request = []"
  shows "ha_status (fst (public clock (length (sp_body pf), False) tm request r)) = 200"
    "ha_body (fst (public clock (length (sp_body pf), False) tm request r)) = sp_body pf"
proof -
  from expireLocked_get [OF assms(1,2), of clock] assms(3)
  have "gm_get (rs_proofs (expireLocked clock r)) pid = Some pf" by (auto simp: not_le [symmetric])
  moreover have "proofID (hq_path request) PathPrefix = (pid, True)" unfolding assms(7) by (rule proofID_append [OF assms(4)])
  ultimately show "ha_status (fst (public clock (length (sp_body pf), False) tm request r)) = 200"
    "ha_body (fst (public clock (length (sp_body pf), False) tm request r)) = sp_body pf"
    using assms(5,6,8-11) by (simp_all add: public_def Let_def)
qed

lemma fetch_from_node:
  assumes "gm_ok (rs_proofs r)" "gm_get (rs_proofs r) (ch_id (at_challenge at)) = Some pf"
    and "\<And>i. unix_of (clock i) < sp_expires pf" "validRandom (ch_id (at_challenge at))" "length (sp_body pf) \<le> MaxDocumentSize"
    and "validFQDN (nd_fqdn (at_node at))" "nd_addresses (at_node at) \<noteq> []"
    and "rc_fqdn (rs_config r) = nd_fqdn (at_node at)" "rc_port (rs_config r) = sc_port (sv_config s)"
  shows "fetch (node_env (length (sp_body pf)) clock tm r) s at = Ok (sp_body pf)"
proof -
  let ?url = "fetch_url s at"
  obtain address rest where ad: "nd_addresses (at_node at) = address # rest" using assms(7) by (cases "nd_addresses (at_node at)") auto
  have url: "hq_host (get_request ?url) = join_host_port (rc_fqdn (rs_config r)) (itoa (rc_port (rs_config r)))"
    "hq_path (get_request ?url) = PathPrefix @ ch_id (at_challenge at)"
    using get_request_url [OF assms(6), of "sc_port (sv_config s)" "ch_id (at_challenge at)"] assms(8,9)
    unfolding fetch_url_def by simp_all
  have rq: "hq_method (get_request u) = ''GET''" "hq_escaped_path (get_request u) = hq_path (get_request u)" "hq_raw_query (get_request u) = []"
    "hq_content_length (get_request u) = 0" "hq_transfer_encoding (get_request u) = []" for u
    by (simp_all add: get_request_def Let_def)
  have "ha_status (fst (public clock (length (sp_body pf), False) tm (get_request ?url) r)) = 200"
    "ha_body (fst (public clock (length (sp_body pf), False) tm (get_request ?url) r)) = sp_body pf"
    by (rule public_found [OF assms(1-4) rq(1) url rq(2-5)])+
  with assms(5) show ?thesis
    by (simp add: fetch_def ad node_env_def accept_reply_def read_limited_def)
qed

section \<open>Completion\<close>

text \<open>The seconds in which a challenge issued at \<open>t0\<close> is valid.\<close>

definition in_window :: "time \<Rightarrow> time \<Rightarrow> bool" where
  "in_window t0 t = (unix_of t0 \<le> unix_of t \<and> unix_of t < unix_of t0 + 120)"

definition issued :: "ServerConfig \<Rightarrow> string \<Rightarrow> string \<Rightarrow> string \<Rightarrow> string \<Rightarrow> time \<Rightarrow> challenge" where
  "issued config f key b1 b2 t0 =
     \<lparr>ch_version = 1, ch_id = b64_encode b1, ch_nonce = b64_encode b2, ch_fqdn = f,
      ch_trust_domain = sc_trust_domain config, ch_server_id = serverID (sc_trust_domain config),
      ch_thumbprint = thumbprint (jwkFor (public_of key)), ch_expires = unix_of t0 + 120\<rparr>"

text \<open>C8. Completion of an honest attestation: an agent of a configured node, a responder of that node
  with room, and a server whose quota for the node is not used up reach the grant. The agent answers
  the challenge the server issues for its payload, publishing the proof; and the server's stream,
  fetching from the responder through any pinned address, ends without error, having sent that
  challenge and the attributes of the node. Every clock is within the challenge's two minutes.\<close>

theorem attestation_completes:
  assumes J: "jose_correct J" and key: "BeginAgent (Ok key) acfg = Ok a" "length key = 64"
    and srv: "sp_begin p = Some s" "idle config s" "gm_get (sv_nodes (initial_server config)) (ac_fqdn acfg) = Some n"
      "ac_trust_domain acfg = sc_trust_domain config"
    and rsp: "rs_ok J r" "rc_fqdn (rs_config r) = ac_fqdn acfg" "rc_port (rs_config r) = sc_port config" "gm_len (rs_proofs r) < 4"
    and b: "length b1 = 32" "length b2 = 32" and c: "c = issued config (ac_fqdn acfg) key b1 b2 t0"
    and t: "int64 (unix_of t0 + 120)" "in_window t0 t1" "in_window t0 t2" "\<And>i. in_window t0 (clock' i)"
      "in_window t0 t3" "in_window t0 t4"
    and q: "length (since t5 (gm_get_or [] (sv_recent s) (nd_name n))) < 6"
  shows "\<exists>resp a' r' p' k.
    Respond J (control_dial J clock t2 tm) t1 (json_print (challenge_json c)) a r = (Ok resp, a', r') \<and>
    Attest G J (honest_stream (Payload a) resp b1 b2 t0 (node_env k clock' tm' r') t3 t4 t5 tm'') p =
      (Ok (), p', [SentChallenge (json_print (challenge_json c)),
        SentAttributes (''spiffe://'' @ sc_trust_domain config @ ''/spire/agent/'' @ PluginName @ ''/'' @ nd_name n)
          [''fqdn:'' @ ac_fqdn acfg] True])"
proof -
  have cfg: "config_ok config" "sv_config s = config" using srv(2) by (simp_all add: idle_def server_ok_def)
  define at where "at = begun s (request_for (ac_fqdn acfg) key) n (b64_encode b1) (b64_encode b2) t0"
  from initial_nodes [OF cfg(1) srv(3)] obtain name policy where
    pol: "np_fqdn policy = ac_fqdn acfg" "n = node_of name policy" "policy_ok name policy" by blast
  then have n: "nd_fqdn n = ac_fqdn acfg" "nd_addresses n \<noteq> []" "validFQDN (ac_fqdn acfg)"
    by (auto simp: node_of_def policy_ok_def)
  have at: "at_challenge at = c" "at_raw at = json_print (challenge_json c)" "at_node at = n"
    by (simp_all add: at_def begun_def c issued_def request_for_def cfg(2) Let_def)
  have ok: "attempt_ok config at"
    unfolding at_def using srv(3) b jwk_key_for [OF public_of_length [OF key(2)]] cfg(2)
    by (intro begun_ok) (simp_all add: request_for_def)
  have ex: "ch_expires c = unix_of t0 + 120" "ch_fqdn c = ac_fqdn acfg" "ch_id c = b64_encode b1"
    "ch_trust_domain c = sc_trust_domain config" "ch_server_id c = serverID (sc_trust_domain config)"
    "ch_thumbprint c = thumbprint (jwkFor (public_of key))" by (simp_all add: c issued_def)
  have v: "validateChallenge c t = Ok ()" if "in_window t0 t" for t
    using begun_valid [OF ok cfg(1), of t] that by (simp add: at ex in_window_def)
  have a: "a = \<lparr>ag_config = acfg, ag_key = key, ag_payload = json_print (request_json (request_for (ac_fqdn acfg) key)),
      ag_published = [], ag_responded = False, ag_closed = False\<rparr>"
    using key(1) by (auto elim!: BeginAgent_Ok simp: request_for_def)
  have "decodeJSON dec_challenge zero_challenge (json_print (challenge_json c)) = Ok c"
    using v [OF t(2)] by (rule decode_valid_challenge) (use t(1) ex in simp)
  with v [OF t(2)] have ans: "answers a t1 (json_print (challenge_json c)) c"
    by (simp add: answers_def a ex srv(4))
  obtain pf r' where pf: "length pf \<le> MaxDocumentSize" "verifyProof J pf (jwkFor (public_of key)) = Ok (json_print (challenge_json c))"
    "Respond J (control_dial J clock t2 tm) t1 (json_print (challenge_json c)) a r =
       (Ok (json_print (ready_json \<lparr>rd_version = 1, rd_id = ch_id c\<rparr>)), a\<lparr>ag_responded := True, ag_published := ch_id c\<rparr>, r')"
    "gm_get (rs_proofs r') (ch_id c) = Some \<lparr>sp_body = pf, sp_expires = ch_expires c\<rparr>" "rs_config r' = rs_config r" "rs_ok J r'"
    by (rule honest_respond [OF J _ _ _ ans _ rsp(1) _ rsp(4) v [OF t(3)], of clock tm])
      (use a key(2) ex t(1) rsp(2) in simp_all)
  have "gm_ok (rs_proofs r')" "validRandom (ch_id c)" using pf(6) b ex by (simp_all add: rs_ok_def)
  then have fetch: "fetch (node_env (length pf) clock' tm' r') s1 (at\<lparr>at_verified := True\<rparr>) = Ok pf" if "sv_config s1 = config" for s1
    using fetch_from_node [of r' "at\<lparr>at_verified := True\<rparr>" "\<lparr>sp_body = pf, sp_expires = ch_expires c\<rparr>" clock' s1 tm']
      pf(1,4,5) that rsp(2,3) n t(4) ex by (simp add: at in_window_def)
  have resp: "json_print (ready_json \<lparr>rd_version = 1, rd_id = ch_id c\<rparr>) = ready_for (at_challenge at)" by (simp add: ready_for_def at)
  have "verifyProof J pf (jwkFor (public_of key)) = Ok (at_raw at)" using pf(2) at by simp
  moreover have "unix_of t3 < unix_of t0 + 120" "unix_of t4 < unix_of t0 + 120" using t(5,6) by (simp_all add: in_window_def)
  note attest_honest [OF srv(1,2) key(2) srv(3) b at_def this q fetch, of J G tm'']
  ultimately obtain p' where "Attest G J (honest_stream (json_print (request_json (request_for (ac_fqdn acfg) key))) (ready_for (at_challenge at))
      b1 b2 t0 (node_env (length pf) clock' tm' r') t3 t4 t5 tm'') p =
    (Ok (), p', [SentChallenge (at_raw at), SentAttributes (AgentID (verify_result s at)) (SelectorValues (verify_result s at)) True])"
    by blast
  moreover have "AgentID (verify_result s at) = ''spiffe://'' @ sc_trust_domain config @ ''/spire/agent/'' @ PluginName @ ''/'' @ nd_name n"
    "SelectorValues (verify_result s at) = [''fqdn:'' @ ac_fqdn acfg]" by (simp_all add: verify_result_def at cfg(2) n)
  moreover have "Payload a = json_print (request_json (request_for (ac_fqdn acfg) key))" by (simp add: Payload_def a)
  ultimately have "Attest G J (honest_stream (Payload a) (ready_for (at_challenge at)) b1 b2 t0
      (node_env (length pf) clock' tm' r') t3 t4 t5 tm'') p =
    (Ok (), p', [SentChallenge (json_print (challenge_json c)),
      SentAttributes (''spiffe://'' @ sc_trust_domain config @ ''/spire/agent/'' @ PluginName @ ''/'' @ nd_name n)
        [''fqdn:'' @ ac_fqdn acfg] True])" by (simp add: at(2))
  with pf(3) [unfolded resp] show ?thesis
    by (intro exI [of _ "ready_for (at_challenge at)"] exI [of _ "a\<lparr>ag_responded := True, ag_published := ch_id c\<rparr>"]
        exI [of _ r'] exI [of _ p'] exI [of _ "length pf"] conjI)
qed

theorem attestation_completes_witness:
  "\<exists>resp a a' r' p' k. BeginAgent (Ok ex_key) ex_agent_config = Ok a \<and>
    Respond ex_jose (control_dial ex_jose ex_clock (seconds 1000) ex_timing) (seconds 1000)
      (json_print (challenge_json (issued ex_config ''node.example'' ex_key (replicate 32 CHR ''i'') (replicate 32 CHR ''n'') (seconds 1000))))
      a ex_responder = (Ok resp, a', r') \<and>
    fst (Attest ex_grpc ex_jose (honest_stream (Payload a) resp (replicate 32 CHR ''i'') (replicate 32 CHR ''n'') (seconds 1000)
      (node_env k ex_clock ex_timing r') (seconds 1000) (seconds 1000) (seconds 1000) ex_timing) ex_server_plugin) = Ok ()"
proof -
  obtain a where a: "BeginAgent (Ok ex_key) ex_agent_config = Ok a" using ex_agent_begin by (auto simp: is_ok_iff)
  have key: "length ex_key = 64" by (simp add: ex_key_def)
  obtain r where sp: "sp_begin ex_server_plugin = Some ((initial_server ex_config)\<lparr>sv_metrics := Some r\<rparr>)"
    by (rule ex_plugin_server)
  have i: "idle ex_config ((initial_server ex_config)\<lparr>sv_metrics := Some r\<rparr>)" by (rule idle_initial [OF ex_config_ok])
  have n: "ac_fqdn ex_agent_config = ''node.example''" "ac_trust_domain ex_agent_config = sc_trust_domain ex_config"
    by (simp_all add: ex_agent_config_def ex_config_def)
  have rs: "rc_fqdn (rs_config ex_responder) = ac_fqdn ex_agent_config" "rc_port (rs_config ex_responder) = sc_port ex_config"
    "gm_len (rs_proofs ex_responder) < 4"
    using newResponder_ok(2,3) [OF ex_responder_new] by (simp_all add: ex_rconfig_def ex_agent_config_def ex_config_def gm.count_empty)
  have w: "in_window (seconds 1000) (seconds 1000)" by (simp add: in_window_def)
  have fq: "gm_get (sv_nodes (initial_server ex_config)) (ac_fqdn ex_agent_config) = Some ex_node"
    unfolding n(1) by (rule ex_node_lookup)
  have q: "length (since (seconds 1000) (gm_get_or [] (sv_recent ((initial_server ex_config)\<lparr>sv_metrics := Some r\<rparr>)) (nd_name ex_node))) < 6"
    by (simp add: initial_server_def since_def)
  have i64: "int64 (unix_of (seconds 1000) + 120)" by (simp add: unix_of_def)
  have b: "length (replicate 32 CHR ''i'') = 32" "length (replicate 32 CHR ''n'') = 32" by simp_all
  note fin = attestation_completes [OF ex_jose_correct a key sp i fq n(2) ex_responder_ok rs b refl i64 w w w w w q,
      where G = ex_grpc and clock = ex_clock and tm = ex_timing and tm' = ex_timing and tm'' = ex_timing, unfolded n(1)]
  from fin obtain resp a' r' p' k where e: "Respond ex_jose (control_dial ex_jose ex_clock (seconds 1000) ex_timing) (seconds 1000)
      (json_print (challenge_json (issued ex_config ''node.example'' ex_key (replicate 32 CHR ''i'') (replicate 32 CHR ''n'') (seconds 1000))))
      a ex_responder = (Ok resp, a', r')"
    "fst (Attest ex_grpc ex_jose (honest_stream (Payload a) resp (replicate 32 CHR ''i'') (replicate 32 CHR ''n'') (seconds 1000)
      (node_env k ex_clock ex_timing r') (seconds 1000) (seconds 1000) (seconds 1000) ex_timing) ex_server_plugin) = Ok ()"
    by (metis fst_conv)
  from a e show ?thesis by blast
qed

end
