(* ===== verification/Go_Os.thy ===== *)
theory Go_Os
  imports Go_Text
begin

text \<open>
  The operating system as the programs see it. A program asks the kernel through \<^emph>\<open>calls\<close>; what the kernel
  answers is a parameter, an arbitrary function of everything asked before and of the call, so that a
  theorem about a program holds against every behaviour of the system. The world a program acts on keeps
  the log of calls with their answers, and the \<^emph>\<open>handles\<close> that are live: open files, pipes, BPF links and
  child processes. A new handle is a number never used before.

  A Go function that fails early is a function from a world to a result and a world. \<open>os_try\<close> is the idiom
  \<^verbatim>\<open>x, e := m(); if e != nil { return e }\<close>, \<open>os_try_else\<close> the same with a cleanup before the return,
  \<open>os_finally\<close> a \<^verbatim>\<open>defer\<close>, and \<open>os_on_error\<close> a \<^verbatim>\<open>defer\<close> guarded by \<^verbatim>\<open>!ok\<close>. The predicate \<open>gains\<close> says which
  handles a function leaves live, and its rules follow the combinators.
\<close>

section \<open>Calls, answers and worlds\<close>

type_synonym handle = nat

datatype open_mode = ReadOnly | WriteOnly | DirectoryNoFollow

record file_stat =
  st_ino :: int
  st_uid :: int
  st_mode :: int

text \<open>Files and directories.\<close>

datatype file_call =
    FOpen string
  | FOpenat handle string open_mode
  | FClose handle
  | FReadAll handle int
  | FWrite handle string
  | FFstat handle
  | FReadlink handle
  | FMkdirat handle string
  | FSeek handle
  | FMemfd
  | FSeal handle
  | FReopen handle
  | FPipe

text \<open>Paths.\<close>

datatype path_call =
    PLstat string
  | PMkdir string
  | PMkdirAll string
  | PChown string int
  | PChmod string int
  | PRemove string
  | PRename string string
  | PCreateTemp string
  | PReadFile string
  | PEvalSymlinks string
  | POpenPath string bool
  | PCreateFile string
  | PListen string

text \<open>Processes, accounts, and the BPF programs attached to a control group.\<close>

datatype proc_call =
    CSpawn string "string list" "string list" "handle list"
  | CRun string handle "string list"
  | CCancel
  | CExited handle
  | CAwait handle
  | CKill handle
  | CWait handle
  | CReadyLine handle
  | CExecutable
  | CGeteuid
  | CGetpid
  | CLookupUser string
  | CLookupGroup string

datatype bpf_call =
    BSpec
  | BRewrite int int
  | BLoad
  | BAttach handle string string
  | BDupMap handle

text \<open>Connections, contexts and time.\<close>

datatype net_call =
    NControl nat
  | NPeerCred nat
  | NPeerPidfd nat
  | NPoll handle
  | NDial string
  | NReadLine handle nat
  | NSleep int
  | NGetenv string
  | NContextDone

text \<open>What the sandbox does to its own process.\<close>

datatype priv_call =
    SUmask int
  | SUnshare
  | SMount string string string "string list" string
  | SSetattr string "string list"
  | SChdir string
  | SPivotRoot string string
  | SUnmount string
  | SSetgroups
  | SSetgid int
  | SSetuid int
  | SCapset
  | SAmbientClear
  | SNoNewPrivs
  | SCloseFd nat
  | SExec string "string list" "string list"

datatype os_call =
    File file_call
  | Path path_call
  | Proc proc_call
  | Bpf bpf_call
  | Net net_call
  | Priv priv_call

datatype os_reply = RErr go_error | ROk | RText string | RNum int | RStat file_stat | RCred int int | RHandle handle

type_synonym os_log = "(os_call \<times> os_reply) list"

type_synonym kernel = "os_log \<Rightarrow> os_call \<Rightarrow> os_reply"

record world =
  w_next :: handle
  w_live :: "handle list"
  w_log :: os_log

type_synonym 'a os = "world \<Rightarrow> 'a result \<times> world"

definition start_world :: world where
  "start_world = \<lparr>w_next = 0, w_live = [], w_log = []\<rparr>"

text \<open>\<^verbatim>\<open>os.IsNotExist\<close> and \<^verbatim>\<open>os.IsExist\<close> (or \<^verbatim>\<open>errors.Is\<close> with \<^verbatim>\<open>unix.EEXIST\<close>) on the errors of a call.\<close>

definition is_not_exist :: "go_error \<Rightarrow> bool" where
  "is_not_exist e = (e = ErrLib ''ENOENT'')"

definition is_exist :: "go_error \<Rightarrow> bool" where
  "is_exist e = (e = ErrLib ''EEXIST'')"

section \<open>Performing a call\<close>

definition sys :: "kernel \<Rightarrow> os_call \<Rightarrow> world \<Rightarrow> os_reply \<times> world" where
  "sys K c w = (let r = K (w_log w) c in (r, w\<lparr>w_log := w_log w @ [(c, r)]\<rparr>))"

text \<open>The call whose value is not used, for its effect and its error.\<close>

definition os_do :: "kernel \<Rightarrow> os_call \<Rightarrow> unit os" where
  "os_do K c w = (case sys K c w of (r, w') \<Rightarrow> (case r of RErr e \<Rightarrow> Inl e | _ \<Rightarrow> Ok (), w'))"

definition os_text :: "kernel \<Rightarrow> os_call \<Rightarrow> string os" where
  "os_text K c w =
     (case sys K c w of (r, w') \<Rightarrow> (case r of RErr e \<Rightarrow> Inl e | RText s \<Rightarrow> Ok s | _ \<Rightarrow> Inl (ErrLib ''reply''), w'))"

definition os_num :: "kernel \<Rightarrow> os_call \<Rightarrow> int os" where
  "os_num K c w =
     (case sys K c w of (r, w') \<Rightarrow> (case r of RErr e \<Rightarrow> Inl e | RNum n \<Rightarrow> Ok n | _ \<Rightarrow> Inl (ErrLib ''reply''), w'))"

definition os_stat :: "kernel \<Rightarrow> os_call \<Rightarrow> file_stat os" where
  "os_stat K c w =
     (case sys K c w of (r, w') \<Rightarrow> (case r of RErr e \<Rightarrow> Inl e | RStat s \<Rightarrow> Ok s | _ \<Rightarrow> Inl (ErrLib ''reply''), w'))"

text \<open>The credentials of a peer: its process number and its user.\<close>

definition os_cred :: "kernel \<Rightarrow> os_call \<Rightarrow> (int \<times> int) os" where
  "os_cred K c w =
     (case sys K c w of (r, w') \<Rightarrow> (case r of RErr e \<Rightarrow> Inl e | RCred p u \<Rightarrow> Ok (p, u) | _ \<Rightarrow> Inl (ErrLib ''reply''), w'))"

text \<open>\<^verbatim>\<open>io.ReadAll(io.LimitReader(f, n))\<close>.\<close>

definition limit_text :: "int \<Rightarrow> string \<Rightarrow> string" where
  "limit_text n s = (if int (length s) \<le> n then s else take (nat n) s)"

definition os_read :: "kernel \<Rightarrow> handle \<Rightarrow> int \<Rightarrow> string os" where
  "os_read K f n w =
     (case os_text K (File (FReadAll f n)) w of (r, w') \<Rightarrow> (case r of Inl e \<Rightarrow> Inl e | Inr s \<Rightarrow> Ok (limit_text n s), w'))"

lemma limit_text_take: "0 \<le> n \<Longrightarrow> limit_text n s = take (nat n) s"
  by (auto simp: limit_text_def)

text \<open>A call that yields a new handle; the log keeps which.\<close>

definition new_handle :: "world \<Rightarrow> handle \<times> world" where
  "new_handle w = (w_next w, w\<lparr>w_next := Suc (w_next w), w_live := w_next w # w_live w\<rparr>)"

definition os_handle :: "kernel \<Rightarrow> os_call \<Rightarrow> handle os" where
  "os_handle K c w =
     (case K (w_log w) c of
        RErr e \<Rightarrow> (Inl e, w\<lparr>w_log := w_log w @ [(c, RErr e)]\<rparr>)
      | _ \<Rightarrow> (case new_handle w of (h, w') \<Rightarrow> (Ok h, w'\<lparr>w_log := w_log w @ [(c, RHandle h)]\<rparr>)))"

text \<open>\<^verbatim>\<open>os.Pipe\<close> yields two handles at once: the call gives the read end, and the write end comes with it.\<close>

definition os_write_end :: "handle os" where
  "os_write_end w = (case new_handle w of (h, w') \<Rightarrow> (Ok h, w'))"

text \<open>\<^verbatim>\<open>os.CreateTemp\<close>: the file and its name.\<close>

definition os_temp :: "kernel \<Rightarrow> string \<Rightarrow> (handle \<times> string) os" where
  "os_temp K dir w =
     (case sys K (Path (PCreateTemp dir)) w of
        (RErr e, w') \<Rightarrow> (Inl e, w')
      | (RText name, w') \<Rightarrow> (case new_handle w' of (h, w'') \<Rightarrow> (Ok (h, name), w''))
      | (_, w') \<Rightarrow> (Inl (ErrLib ''reply''), w'))"

text \<open>A call of which neither value nor error is used; closing a handle; waiting for a child. Closing a
  file that is closed already does nothing.\<close>

definition os_note :: "kernel \<Rightarrow> os_call \<Rightarrow> world \<Rightarrow> world" where
  "os_note K c w = snd (sys K c w)"

definition os_release :: "kernel \<Rightarrow> os_call \<Rightarrow> handle \<Rightarrow> world \<Rightarrow> world" where
  "os_release K c h w = (let w' = os_note K c w in w'\<lparr>w_live := removeAll h (w_live w')\<rparr>)"

definition os_close :: "kernel \<Rightarrow> handle \<Rightarrow> world \<Rightarrow> world" where
  "os_close K h = os_release K (File (FClose h)) h"

text \<open>\<^verbatim>\<open>Close\<close> whose error is used; the handle is gone in either case.\<close>

definition os_close_check :: "kernel \<Rightarrow> handle \<Rightarrow> unit os" where
  "os_close_check K h w =
     (case os_do K (File (FClose h)) w of (r, w') \<Rightarrow> (r, w'\<lparr>w_live := removeAll h (w_live w')\<rparr>))"

definition os_reap :: "kernel \<Rightarrow> handle \<Rightarrow> world \<Rightarrow> world" where
  "os_reap K p = os_release K (Proc (CWait p)) p"

fun os_close_all :: "kernel \<Rightarrow> handle list \<Rightarrow> world \<Rightarrow> world" where
  "os_close_all K [] w = w"
| "os_close_all K (h # hs) w = os_close_all K hs (os_close K h w)"

section \<open>Combinators\<close>

definition os_ret :: "'a \<Rightarrow> 'a os" where
  "os_ret x w = (Ok x, w)"

definition os_fail :: "go_error \<Rightarrow> 'a os" where
  "os_fail e w = (Inl e, w)"

definition os_lift :: "'a result \<Rightarrow> 'a os" where
  "os_lift r w = (r, w)"

definition os_try :: "'a os \<Rightarrow> ('a \<Rightarrow> 'b os) \<Rightarrow> 'b os" where
  "os_try m f w = (case m w of (Inl e, w') \<Rightarrow> (Inl e, w') | (Inr x, w') \<Rightarrow> f x w')"

definition os_try_else :: "'a os \<Rightarrow> (world \<Rightarrow> world) \<Rightarrow> ('a \<Rightarrow> 'b os) \<Rightarrow> 'b os" where
  "os_try_else m c f w = (case m w of (Inl e, w') \<Rightarrow> (Inl e, c w') | (Inr x, w') \<Rightarrow> f x w')"

definition os_finally :: "'a os \<Rightarrow> (world \<Rightarrow> world) \<Rightarrow> 'a os" where
  "os_finally m c w = (case m w of (r, w') \<Rightarrow> (r, c w'))"

definition os_on_error :: "'a os \<Rightarrow> (world \<Rightarrow> world) \<Rightarrow> 'a os" where
  "os_on_error m c w = (case m w of (r, w') \<Rightarrow> (r, if is_ok r then w' else c w'))"

definition os_after :: "(world \<Rightarrow> world) \<Rightarrow> 'a os \<Rightarrow> 'a os" where
  "os_after c m w = m (c w)"

definition os_map_error :: "(go_error \<Rightarrow> go_error) \<Rightarrow> 'a os \<Rightarrow> 'a os" where
  "os_map_error g m w = (case m w of (r, w') \<Rightarrow> (case r of Inl e \<Rightarrow> Inl (g e) | Inr x \<Rightarrow> Ok x, w'))"

text \<open>An error that is no error for the caller, and one replaced by a default.\<close>

definition os_allow :: "(go_error \<Rightarrow> bool) \<Rightarrow> unit os \<Rightarrow> unit os" where
  "os_allow p m w = (case m w of (r, w') \<Rightarrow> (case r of Inl e \<Rightarrow> if p e then Ok () else Inl e | Inr x \<Rightarrow> Ok x, w'))"

definition os_default :: "'a \<Rightarrow> 'a os \<Rightarrow> 'a os" where
  "os_default d m w = (case m w of (r, w') \<Rightarrow> (case r of Inl e \<Rightarrow> Ok d | Inr x \<Rightarrow> Ok x, w'))"

fun os_each :: "('a \<Rightarrow> unit os) \<Rightarrow> 'a list \<Rightarrow> unit os" where
  "os_each f [] = os_ret ()"
| "os_each f (x # xs) = os_try (f x) (\<lambda>_. os_each f xs)"

lemmas os_call_defs = os_do_def os_text_def os_num_def os_stat_def os_cred_def sys_def Let_def
lemmas os_comb_defs = os_ret_def os_fail_def os_lift_def os_try_def os_try_else_def os_finally_def os_on_error_def
  os_after_def os_map_error_def os_allow_def os_default_def

section \<open>Accounting for handles\<close>

abbreviation live :: "world \<Rightarrow> handle set" where
  "live w \<equiv> set (w_live w)"

definition w_ok :: "world \<Rightarrow> bool" where
  "w_ok w = list_all (\<lambda>h. h < w_next w) (w_live w)"

lemma w_ok_iff: "w_ok w \<longleftrightarrow> live w \<subseteq> {..<w_next w}"
  by (auto simp: w_ok_def list_all_iff)

text \<open>A cleanup drops a set of handles and opens none.\<close>

definition drops :: "(world \<Rightarrow> world) \<Rightarrow> handle set \<Rightarrow> bool" where
  "drops c A = (\<forall>w. w_next (c w) = w_next w \<and> live (c w) = live w - A)"

text \<open>
  \<open>gains Z D S m own\<close>: run while the handles \<open>Z\<close> are held and those of \<open>S\<close> belong to an enclosing \<^verbatim>\<open>defer\<close>, \<open>m\<close>
  on success holds the handles \<open>own y\<close> of its result, which are \<open>Z\<close> and new ones, and on an error has
  released \<open>D\<close>; of the handles outside \<open>S\<close> nothing else changes.
\<close>

definition gains :: "handle set \<Rightarrow> handle set \<Rightarrow> handle set \<Rightarrow> 'a os \<Rightarrow> ('a \<Rightarrow> handle set) \<Rightarrow> bool" where
  "gains Z D S m own =
     (\<forall>w r w'. w_ok w \<longrightarrow> Z \<subseteq> live w \<longrightarrow> Z \<inter> S = {} \<longrightarrow> S \<subseteq> {..<w_next w} \<longrightarrow> m w = (r, w') \<longrightarrow>
        w_ok w' \<and> w_next w \<le> w_next w' \<and>
        live w' - S = (case r of Inl _ \<Rightarrow> live w - D - S | Inr y \<Rightarrow> (live w - S) \<union> own y) \<and>
        (case r of Inl _ \<Rightarrow> True | Inr y \<Rightarrow> Z \<subseteq> own y \<and> own y \<subseteq> Z \<union> {w_next w..<w_next w'}))"

text \<open>A function that holds nothing when it is called and releases what it took on an error.\<close>

abbreviation leakless :: "'a os \<Rightarrow> ('a \<Rightarrow> handle set) \<Rightarrow> bool" where
  "leakless m own \<equiv> gains {} {} {} m own"

named_theorems gains_rules "how the combinators account for handles"
named_theorems drops_rules "which handles a cleanup drops"

lemma os_note_simps [simp]: "w_next (os_note K c w) = w_next w" "w_live (os_note K c w) = w_live w"
  by (simp_all add: os_note_def sys_def Let_def)

lemma drops_id [drops_rules]: "drops (\<lambda>w. w) {}"
  by (simp add: drops_def)

lemma drops_note [drops_rules]: "drops (os_note K c) {}"
  by (simp add: drops_def)

lemma drops_release: "drops (os_release K c h) {h}"
  by (simp add: drops_def os_release_def Let_def)

lemma drops_close [drops_rules]: "drops (os_close K h) {h}"
  by (simp add: os_close_def drops_release)

lemma drops_reap [drops_rules]: "drops (os_reap K h) {h}"
  by (simp add: os_reap_def drops_release)

lemma drops_comp [drops_rules]: "drops c A \<Longrightarrow> drops d B \<Longrightarrow> drops (\<lambda>w. d (c w)) (A \<union> B)"
  by (auto simp: drops_def)

lemma drops_close_all [drops_rules]: "drops (os_close_all K hs) (set hs)"
proof (induction hs)
  case (Cons h hs)
  have "drops (\<lambda>w. os_close_all K hs (os_close K h w)) ({h} \<union> set hs)"
    by (rule drops_comp [OF drops_close Cons.IH])
  moreover have "os_close_all K (h # hs) = (\<lambda>w. os_close_all K hs (os_close K h w))" by (rule ext) simp
  ultimately show ?case by (simp only: list.set insert_is_Un [symmetric])
qed (simp add: drops_def)

lemma drops_eq: "drops c A \<Longrightarrow> A = B \<Longrightarrow> drops c B"
  by simp

lemma dropsD: "drops c A \<Longrightarrow> live (c w) = live w - A" "drops c A \<Longrightarrow> w_next (c w) = w_next w"
  by (simp_all add: drops_def)

lemma w_ok_drops: "drops c A \<Longrightarrow> w_ok w \<Longrightarrow> w_ok (c w)"
  by (auto simp: drops_def w_ok_iff)

lemma gainsI:
  assumes "\<And>w r w'. w_ok w \<Longrightarrow> Z \<subseteq> live w \<Longrightarrow> Z \<inter> S = {} \<Longrightarrow> S \<subseteq> {..<w_next w} \<Longrightarrow> m w = (r, w') \<Longrightarrow>
    w_ok w' \<and> w_next w \<le> w_next w' \<and>
    live w' - S = (case r of Inl _ \<Rightarrow> live w - D - S | Inr y \<Rightarrow> (live w - S) \<union> own y) \<and>
    (case r of Inl _ \<Rightarrow> True | Inr y \<Rightarrow> Z \<subseteq> own y \<and> own y \<subseteq> Z \<union> {w_next w..<w_next w'})"
  shows "gains Z D S m own"
  unfolding gains_def using assms by blast

lemma gainsD:
  assumes "gains Z D S m own" "w_ok w" "Z \<subseteq> live w" "Z \<inter> S = {}" "S \<subseteq> {..<w_next w}"
  shows "m w = (Inl e, w') \<Longrightarrow> w_ok w' \<and> w_next w \<le> w_next w' \<and> live w' - S = live w - D - S"
    and "m w = (Inr y, w') \<Longrightarrow> w_ok w' \<and> w_next w \<le> w_next w' \<and> live w' - S = (live w - S) \<union> own y \<and>
      Z \<subseteq> own y \<and> own y \<subseteq> Z \<union> {w_next w..<w_next w'}"
  using assms(1) [unfolded gains_def, rule_format, OF assms(2-5), of "Inl e" w']
    assms(1) [unfolded gains_def, rule_format, OF assms(2-5), of "Inr y" w'] by simp_all

lemma leaklessD:
  assumes "leakless m own" "w_ok w"
  shows "m w = (Inl e, w') \<Longrightarrow> w_ok w' \<and> w_next w \<le> w_next w' \<and> live w' = live w"
    and "m w = (Inr y, w') \<Longrightarrow> w_ok w' \<and> w_next w \<le> w_next w' \<and> live w' = live w \<union> own y \<and>
      own y \<subseteq> {w_next w..<w_next w'}"
  using gainsD [OF assms(1,2)] by auto

section \<open>Rules\<close>

lemma os_do_leakless [gains_rules]: "leakless (os_do K c) (\<lambda>_. {})"
  by (rule gainsI) (auto simp: os_call_defs w_ok_iff split: os_reply.splits)

lemma os_text_leakless [gains_rules]: "leakless (os_text K c) (\<lambda>_. {})"
  by (rule gainsI) (auto simp: os_call_defs w_ok_iff split: os_reply.splits)

lemma os_num_leakless [gains_rules]: "leakless (os_num K c) (\<lambda>_. {})"
  by (rule gainsI) (auto simp: os_call_defs w_ok_iff split: os_reply.splits)

lemma os_stat_leakless [gains_rules]: "leakless (os_stat K c) (\<lambda>_. {})"
  by (rule gainsI) (auto simp: os_call_defs w_ok_iff split: os_reply.splits)

lemma os_cred_leakless [gains_rules]: "leakless (os_cred K c) (\<lambda>_. {})"
  by (rule gainsI) (auto simp: os_call_defs w_ok_iff split: os_reply.splits)

lemma os_read_leakless [gains_rules]: "leakless (os_read K f n) (\<lambda>_. {})"
  by (rule gainsI) (auto simp: os_read_def os_call_defs w_ok_iff split: os_reply.splits)

lemma os_handle_leakless [gains_rules]: "leakless (os_handle K c) (\<lambda>h. {h})"
  by (rule gainsI)
    (auto simp: os_handle_def new_handle_def sys_def Let_def w_ok_iff less_Suc_eq split: os_reply.splits)

lemma os_write_end_leakless [gains_rules]: "leakless os_write_end (\<lambda>h. {h})"
  by (rule gainsI) (auto simp: os_write_end_def new_handle_def w_ok_iff less_Suc_eq)

lemma os_temp_leakless [gains_rules]: "leakless (os_temp K dir) (\<lambda>(h, name). {h})"
  by (rule gainsI)
    (auto simp: os_temp_def new_handle_def sys_def Let_def w_ok_iff less_Suc_eq split: os_reply.splits)

lemma os_fail_gains [gains_rules]: "gains Z {} S (os_fail e) own"
  by (rule gainsI) (auto simp: os_fail_def)

lemma os_ret_gains: "own x = Z \<Longrightarrow> gains Z D S (os_ret x) own"
  by (rule gainsI) (auto simp: os_ret_def)

lemma os_lift_gains: "(\<And>x. r = Inr x \<Longrightarrow> own x = Z) \<Longrightarrow> gains Z {} S (os_lift r) own"
  by (rule gainsI) (auto simp: os_lift_def split: sum.splits)

text \<open>A leakless function inside a scope.\<close>

lemma leakless_gains: "leakless m own \<Longrightarrow> gains {} {} S m own"
proof (rule gainsI)
  fix w r w' assume m: "leakless m own" and w: "w_ok w" and S: "S \<subseteq> {..<w_next w}" and r: "m w = (r, w')"
  show "w_ok w' \<and> w_next w \<le> w_next w' \<and>
    live w' - S = (case r of Inl _ \<Rightarrow> live w - {} - S | Inr y \<Rightarrow> (live w - S) \<union> own y) \<and>
    (case r of Inl _ \<Rightarrow> True | Inr y \<Rightarrow> {} \<subseteq> own y \<and> own y \<subseteq> {} \<union> {w_next w..<w_next w'})"
  proof (cases r)
    case (Inl e)
    then show ?thesis using leaklessD(1) [OF m w] r by auto
  next
    case (Inr y)
    with leaklessD(2) [OF m w] r have "w_ok w' \<and> w_next w \<le> w_next w' \<and> live w' = live w \<union> own y \<and> own y \<subseteq> {w_next w..<w_next w'}"
      by simp
    moreover from this S have "own y \<inter> S = {}" by fastforce
    ultimately show ?thesis using Inr by auto
  qed
qed

lemma os_try_else_gains:
  assumes m: "leakless m own1" and c: "drops c D"
    and f: "\<And>x. gains (Z \<union> own1 x) (D \<union> own1 x) S (f x) own"
  shows "gains Z D S (os_try_else m c f) own"
proof (rule gainsI)
  fix w r w' assume w: "w_ok w" and Z: "Z \<subseteq> live w" "Z \<inter> S = {}" and S: "S \<subseteq> {..<w_next w}" and r: "os_try_else m c f w = (r, w')"
  show "w_ok w' \<and> w_next w \<le> w_next w' \<and>
    live w' - S = (case r of Inl _ \<Rightarrow> live w - D - S | Inr y \<Rightarrow> (live w - S) \<union> own y) \<and>
    (case r of Inl _ \<Rightarrow> True | Inr y \<Rightarrow> Z \<subseteq> own y \<and> own y \<subseteq> Z \<union> {w_next w..<w_next w'})"
  proof (cases "m w")
    case (Pair r1 w1)
    show ?thesis
    proof (cases r1)
      case (Inl e)
      from leaklessD(1) [OF m w] Pair Inl have "w_ok w1 \<and> w_next w \<le> w_next w1 \<and> live w1 = live w" by simp
      moreover have "r = Inl e" "w' = c w1" using r Pair Inl by (simp_all add: os_try_else_def)
      ultimately show ?thesis using w_ok_drops [OF c] dropsD [OF c, of w1] by auto
    next
      case (Inr x)
      from leaklessD(2) [OF m w] Pair Inr
      have w1: "w_ok w1" "w_next w \<le> w_next w1" "live w1 = live w \<union> own1 x" "own1 x \<subseteq> {w_next w..<w_next w1}" by simp_all
      then have pre: "Z \<union> own1 x \<subseteq> live w1" "(Z \<union> own1 x) \<inter> S = {}" "S \<subseteq> {..<w_next w1}" using Z S by fastforce+
      have r: "f x w1 = (r, w')" using r Pair Inr by (simp add: os_try_else_def)
      have fresh: "live w \<inter> own1 x = {}" using w w1(4) by (fastforce simp: w_ok_iff)
      show ?thesis
      proof (cases r)
        case (Inl e)
        from gainsD(1) [OF f w1(1) pre] r Inl w1(2) w1(3) fresh show ?thesis by auto
      next
        case (Inr y)
        have "w_ok w' \<and> w_next w1 \<le> w_next w' \<and> live w' - S = (live w1 - S) \<union> own y \<and>
          Z \<union> own1 x \<subseteq> own y \<and> own y \<subseteq> (Z \<union> own1 x) \<union> {w_next w1..<w_next w'}"
          by (rule gainsD(2) [OF f w1(1) pre]) (simp add: r Inr)
        then show ?thesis using w1 Inr by fastforce
      qed
    qed
  qed
qed

lemma os_try_is: "os_try m f = os_try_else m (\<lambda>w. w) f"
  by (rule ext) (simp add: os_try_def os_try_else_def)

lemma os_try_gains:
  assumes "leakless m own1" and "\<And>x. gains (Z \<union> own1 x) (own1 x) S (f x) own"
  shows "gains Z {} S (os_try m f) own"
  unfolding os_try_is by (rule os_try_else_gains [OF assms(1) drops_id]) (simp add: assms(2))

text \<open>A first step that holds nothing afterwards, the case of every call for its value.\<close>

lemma os_try_plain:
  assumes "leakless m (\<lambda>_. {})" and "\<And>x. gains Z {} S (f x) own"
  shows "gains Z {} S (os_try m f) own"
  by (rule os_try_gains [OF assms(1)]) (simp add: assms(2))

lemma os_try_else_plain:
  assumes "leakless m (\<lambda>_. {})" and "drops c D" and "\<And>x. gains Z D S (f x) own"
  shows "gains Z D S (os_try_else m c f) own"
  by (rule os_try_else_gains [OF assms(1,2)]) (simp add: assms(3))

lemma os_on_error_gains:
  assumes m: "gains Z D S m own" and c: "drops c A"
  shows "gains Z (D \<union> A) S (os_on_error m c) own"
proof (rule gainsI)
  fix w r w' assume pre: "w_ok w" "Z \<subseteq> live w" "Z \<inter> S = {}" "S \<subseteq> {..<w_next w}" and r: "os_on_error m c w = (r, w')"
  obtain w1 where w1: "m w = (r, w1)" "w' = (if is_ok r then w1 else c w1)"
    using r by (auto simp: os_on_error_def split: prod.splits)
  show "w_ok w' \<and> w_next w \<le> w_next w' \<and>
    live w' - S = (case r of Inl _ \<Rightarrow> live w - (D \<union> A) - S | Inr y \<Rightarrow> (live w - S) \<union> own y) \<and>
    (case r of Inl _ \<Rightarrow> True | Inr y \<Rightarrow> Z \<subseteq> own y \<and> own y \<subseteq> Z \<union> {w_next w..<w_next w'})"
  proof (cases r)
    case (Inl e)
    with gainsD(1) [OF m pre] w1 have "w_ok w1" "w_next w \<le> w_next w1" "live w1 - S = live w - D - S" by simp_all
    then show ?thesis using Inl w1 w_ok_drops [OF c] dropsD [OF c, of w1] by auto
  next
    case (Inr y)
    with gainsD(2) [OF m pre] w1 show ?thesis by simp
  qed
qed

text \<open>A handle taken in a step and closed by a \<^verbatim>\<open>defer\<close>, whatever the rest does with it.\<close>

lemma os_scope_gains:
  assumes m: "leakless m own1" and e: "drops e D" and c: "\<And>x. drops (c x) (own1 x)"
    and f: "\<And>x. gains Z D (S \<union> own1 x) (f x) own"
  shows "gains Z D S (os_try_else m e (\<lambda>x. os_finally (f x) (c x))) own"
proof (rule gainsI)
  fix w r w' assume w: "w_ok w" and Z: "Z \<subseteq> live w" "Z \<inter> S = {}" and S: "S \<subseteq> {..<w_next w}"
    and r: "os_try_else m e (\<lambda>x. os_finally (f x) (c x)) w = (r, w')"
  show "w_ok w' \<and> w_next w \<le> w_next w' \<and>
    live w' - S = (case r of Inl _ \<Rightarrow> live w - D - S | Inr y \<Rightarrow> (live w - S) \<union> own y) \<and>
    (case r of Inl _ \<Rightarrow> True | Inr y \<Rightarrow> Z \<subseteq> own y \<and> own y \<subseteq> Z \<union> {w_next w..<w_next w'})"
  proof (cases "m w")
    case (Pair r1 w1)
    show ?thesis
    proof (cases r1)
      case (Inl e1)
      from leaklessD(1) [OF m w] Pair Inl have "w_ok w1 \<and> w_next w \<le> w_next w1 \<and> live w1 = live w" by simp
      moreover have "r = Inl e1" "w' = e w1" using r Pair Inl by (simp_all add: os_try_else_def)
      ultimately show ?thesis using w_ok_drops [OF e] dropsD [OF e, of w1] by auto
    next
      case (Inr x)
      from leaklessD(2) [OF m w] Pair Inr
      have w1: "w_ok w1" "w_next w \<le> w_next w1" "live w1 = live w \<union> own1 x" "own1 x \<subseteq> {w_next w..<w_next w1}" by simp_all
      have fresh: "live w \<inter> own1 x = {}" using w w1(4) by (fastforce simp: w_ok_iff)
      have pre: "Z \<subseteq> live w1" "Z \<inter> (S \<union> own1 x) = {}" "S \<union> own1 x \<subseteq> {..<w_next w1}" using Z S w1 fresh by fastforce+
      obtain w2 where w2: "f x w1 = (r, w2)" "w' = c x w2"
        using r Pair Inr by (auto simp: os_try_else_def os_finally_def split: prod.splits)
      note d = w_ok_drops [OF c [of x], of w2] dropsD [OF c [of x], of w2]
      show ?thesis
      proof (cases r)
        case (Inl e1)
        from gainsD(1) [OF f w1(1) pre] w2 Inl have "w_ok w2 \<and> w_next w1 \<le> w_next w2 \<and> live w2 - (S \<union> own1 x) = live w1 - D - (S \<union> own1 x)" by simp
        then show ?thesis using Inl w1 w2 d fresh by auto
      next
        case (Inr y)
        have y: "w_ok w2 \<and> w_next w1 \<le> w_next w2 \<and> live w2 - (S \<union> own1 x) = (live w1 - (S \<union> own1 x)) \<union> own y \<and>
          Z \<subseteq> own y \<and> own y \<subseteq> Z \<union> {w_next w1..<w_next w2}"
          by (rule gainsD(2) [OF f w1(1) pre]) (simp add: w2 Inr)
        moreover have "own y \<inter> own1 x = {}" using y pre w1(4) by fastforce
        ultimately have "live w' - S = (live w - S) \<union> own y" using w1 w2 d fresh by auto
        then show ?thesis using Inr w1 w2 d y by fastforce
      qed
    qed
  qed
qed

lemma os_scope_try:
  assumes "leakless m own1" and "\<And>x. drops (c x) (own1 x)" and "\<And>x. gains Z {} (S \<union> own1 x) (f x) own"
  shows "gains Z {} S (os_try m (\<lambda>x. os_finally (f x) (c x))) own"
  unfolding os_try_is by (rule os_scope_gains [OF assms(1) drops_id assms(2,3)])

text \<open>A cleanup in the middle, of handles that belong to a scope.\<close>

lemma os_after_gains:
  assumes m: "gains Z D S m own" and c: "drops c A" and A: "A \<subseteq> S"
  shows "gains Z D S (os_after c m) own"
proof (rule gainsI)
  fix w r w' assume pre: "w_ok w" "Z \<subseteq> live w" "Z \<inter> S = {}" "S \<subseteq> {..<w_next w}" and r: "os_after c m w = (r, w')"
  have d: "w_ok (c w)" "live (c w) = live w - A" "w_next (c w) = w_next w" using w_ok_drops [OF c] dropsD [OF c] pre by simp_all
  have pre': "Z \<subseteq> live (c w)" "S \<subseteq> {..<w_next (c w)}" using pre d A by auto
  have r: "m (c w) = (r, w')" using r by (simp add: os_after_def)
  show "w_ok w' \<and> w_next w \<le> w_next w' \<and>
    live w' - S = (case r of Inl _ \<Rightarrow> live w - D - S | Inr y \<Rightarrow> (live w - S) \<union> own y) \<and>
    (case r of Inl _ \<Rightarrow> True | Inr y \<Rightarrow> Z \<subseteq> own y \<and> own y \<subseteq> Z \<union> {w_next w..<w_next w'})"
  proof (cases r)
    case (Inl e)
    with gainsD(1) [OF m d(1) pre'(1) pre(3) pre'(2)] r d A show ?thesis by auto
  next
    case (Inr y)
    with gainsD(2) [OF m d(1) pre'(1) pre(3) pre'(2)] r d A show ?thesis by auto
  qed
qed

text \<open>An error after closing what is held.\<close>

lemma os_fail_after_gains: "drops c D \<Longrightarrow> gains Z D S (os_after c (os_fail e)) own"
  by (rule gainsI) (auto simp: os_after_def os_fail_def dropsD w_ok_drops)

lemma os_map_error_gains: "gains Z D S m own \<Longrightarrow> gains Z D S (os_map_error g m) own"
proof (rule gainsI)
  fix w r w' assume m: "gains Z D S m own" and pre: "w_ok w" "Z \<subseteq> live w" "Z \<inter> S = {}" "S \<subseteq> {..<w_next w}"
    and r: "os_map_error g m w = (r, w')"
  obtain r1 where r1: "m w = (r1, w')" "r = (case r1 of Inl e \<Rightarrow> Inl (g e) | Inr x \<Rightarrow> Ok x)"
    using r by (auto simp: os_map_error_def split: prod.splits)
  show "w_ok w' \<and> w_next w \<le> w_next w' \<and>
    live w' - S = (case r of Inl _ \<Rightarrow> live w - D - S | Inr y \<Rightarrow> (live w - S) \<union> own y) \<and>
    (case r of Inl _ \<Rightarrow> True | Inr y \<Rightarrow> Z \<subseteq> own y \<and> own y \<subseteq> Z \<union> {w_next w..<w_next w'})"
    using gainsD [OF m pre] r1 by (cases r1) auto
qed

lemma os_allow_leakless [gains_rules]: "leakless m (\<lambda>_. {}) \<Longrightarrow> leakless (os_allow p m) (\<lambda>_. {})"
proof (rule gainsI)
  fix w r w' assume m: "leakless m (\<lambda>_. {})" and w: "w_ok w" and r: "os_allow p m w = (r, w')"
  obtain r1 where "m w = (r1, w')" using r by (auto simp: os_allow_def split: prod.splits)
  with leaklessD [OF m w] show "w_ok w' \<and> w_next w \<le> w_next w' \<and>
    live w' - {} = (case r of Inl _ \<Rightarrow> live w - {} - {} | Inr y \<Rightarrow> (live w - {}) \<union> {}) \<and>
    (case r of Inl _ \<Rightarrow> True | Inr y \<Rightarrow> {} \<subseteq> ({} :: handle set) \<and> {} \<subseteq> {} \<union> {w_next w..<w_next w'})"
    by (cases r1) (auto split: sum.splits)
qed

lemma os_default_leakless [gains_rules]: "leakless m (\<lambda>_. {}) \<Longrightarrow> leakless (os_default d m) (\<lambda>_. {})"
proof (rule gainsI)
  fix w r w' assume m: "leakless m (\<lambda>_. {})" and w: "w_ok w" and r: "os_default d m w = (r, w')"
  obtain r1 where "m w = (r1, w')" using r by (auto simp: os_default_def split: prod.splits)
  with leaklessD [OF m w] show "w_ok w' \<and> w_next w \<le> w_next w' \<and>
    live w' - {} = (case r of Inl _ \<Rightarrow> live w - {} - {} | Inr y \<Rightarrow> (live w - {}) \<union> {}) \<and>
    (case r of Inl _ \<Rightarrow> True | Inr y \<Rightarrow> {} \<subseteq> ({} :: handle set) \<and> {} \<subseteq> {} \<union> {w_next w..<w_next w'})"
    by (cases r1) (auto split: sum.splits)
qed

lemma os_each_leakless: "(\<And>x. leakless (f x) (\<lambda>_. {})) \<Longrightarrow> leakless (os_each f xs) (\<lambda>_. {})"
  by (induction xs) (auto intro!: os_try_plain os_ret_gains)

lemma gains_drop_eq: "gains Z D S m own \<Longrightarrow> D = D' \<Longrightarrow> gains Z D' S m own"
  by simp

section \<open>The log only grows\<close>

definition answered :: "world \<Rightarrow> os_call \<Rightarrow> os_reply \<Rightarrow> bool" where
  "answered w c r = ((c, r) \<in> set (w_log w))"

definition appends :: "(world \<Rightarrow> world) \<Rightarrow> bool" where
  "appends c = (\<forall>w. \<exists>es. w_log (c w) = w_log w @ es)"

abbreviation grows :: "'a os \<Rightarrow> bool" where
  "grows m \<equiv> appends (\<lambda>w. snd (m w))"

named_theorems grows_rules "computations append to the log"

lemma appendsI: "(\<And>w. \<exists>es. w_log (c w) = w_log w @ es) \<Longrightarrow> appends c"
  by (simp add: appends_def)

lemma appends_answered: "appends c \<Longrightarrow> answered w q r \<Longrightarrow> answered (c w) q r"
  by (metis UnCI answered_def appends_def set_append)

lemma grows_answered: "grows m \<Longrightarrow> m w = (r, w') \<Longrightarrow> answered w q a \<Longrightarrow> answered w' q a"
  using appends_answered [of "\<lambda>w. snd (m w)" w q a] by simp

lemma appends_comp: "appends c \<Longrightarrow> appends d \<Longrightarrow> appends (\<lambda>w. d (c w))"
  unfolding appends_def by (metis append_assoc)

lemma appends_id [grows_rules]: "appends (\<lambda>w. w)"
  by (simp add: appends_def)

lemma appends_note [grows_rules]: "appends (os_note K c)"
  by (simp add: appends_def os_note_def sys_def Let_def)

lemma appends_release: "appends (os_release K c h)"
  using appends_note [of K c] by (simp add: appends_def os_release_def Let_def)

lemma appends_close [grows_rules]: "appends (os_close K h)"
  by (simp add: os_close_def appends_release)

lemma appends_reap [grows_rules]: "appends (os_reap K h)"
  by (simp add: os_reap_def appends_release)

lemma appends_close_all [grows_rules]: "appends (os_close_all K hs)"
proof (induction hs)
  case (Cons h hs)
  have "os_close_all K (h # hs) = (\<lambda>w. os_close_all K hs (os_close K h w))" by (rule ext) simp
  then show ?case using appends_comp [OF appends_close Cons.IH, of K h] by (simp only:)
qed (simp add: appends_def)

lemma grows_calls [grows_rules]:
  "grows (os_do K c)" "grows (os_text K c)" "grows (os_num K c)" "grows (os_stat K c)" "grows (os_cred K c)"
  by (simp_all add: appends_def os_call_defs)

lemma grows_handles [grows_rules]:
  "grows (os_read K f n)" "grows (os_handle K c)" "grows os_write_end" "grows (os_temp K dir)" "grows (os_close_check K h)"
  by (auto simp: appends_def os_read_def os_handle_def os_write_end_def os_temp_def os_close_check_def new_handle_def os_call_defs
      split: os_reply.splits)

lemma grows_simple [grows_rules]: "grows (os_ret x)" "grows (os_fail e)" "grows (os_lift r)"
  by (simp_all add: appends_def os_ret_def os_fail_def os_lift_def)

lemma grows_try_else [grows_rules]:
  assumes "grows m" "appends c" "\<And>x. grows (f x)"
  shows "grows (os_try_else m c f)"
proof (rule appendsI)
  fix w
  obtain r w1 where m: "m w = (r, w1)" by (rule prod.exhaust)
  then obtain es where es: "w_log w1 = w_log w @ es" using assms(1) unfolding appends_def by (metis snd_conv)
  show "\<exists>es. w_log (snd (os_try_else m c f w)) = w_log w @ es"
  proof (cases r)
    case (Inl e)
    then show ?thesis using m es assms(2) unfolding appends_def by (auto simp: os_try_else_def) (metis append_assoc)
  next
    case (Inr x)
    obtain es' where "w_log (snd (f x w1)) = w_log w1 @ es'" using assms(3) [of x] unfolding appends_def by blast
    then show ?thesis using m es Inr by (simp add: os_try_else_def)
  qed
qed

lemma grows_try [grows_rules]: "grows m \<Longrightarrow> (\<And>x. grows (f x)) \<Longrightarrow> grows (os_try m f)"
  unfolding os_try_is by (rule grows_try_else) (simp_all add: appends_id)

lemma grows_wrap:
  assumes "grows m" "\<And>r. appends (c r)"
  shows "appends (\<lambda>w. case m w of (r, w') \<Rightarrow> c r w')"
proof (rule appendsI)
  fix w
  obtain r w1 where m: "m w = (r, w1)" by (rule prod.exhaust)
  then obtain es where es: "w_log w1 = w_log w @ es" using assms(1) unfolding appends_def by (metis snd_conv)
  moreover obtain es' where "w_log (c r w1) = w_log w1 @ es'" using assms(2) [of r] unfolding appends_def by blast
  ultimately show "\<exists>es. w_log (case m w of (r, w') \<Rightarrow> c r w') = w_log w @ es" using m by simp
qed

lemma grows_finally [grows_rules]: "grows m \<Longrightarrow> appends c \<Longrightarrow> grows (os_finally m c)"
  using grows_wrap [of m "\<lambda>_. c"] by (simp add: os_finally_def case_prod_beta)

lemma grows_on_error [grows_rules]: "grows m \<Longrightarrow> appends c \<Longrightarrow> grows (os_on_error m c)"
  using grows_wrap [of m "\<lambda>r w. if is_ok r then w else c w"]
  by (simp add: os_on_error_def case_prod_beta appends_def)

lemma grows_map [grows_rules]:
  "grows m \<Longrightarrow> grows (os_map_error g m)" "grows u \<Longrightarrow> grows (os_allow p u)" "grows m \<Longrightarrow> grows (os_default d m)"
  by (simp_all add: os_map_error_def os_allow_def os_default_def case_prod_beta)

lemma grows_after [grows_rules]: "appends c \<Longrightarrow> grows m \<Longrightarrow> grows (os_after c m)"
  using appends_comp [of c "\<lambda>w. snd (m w)"] by (simp add: os_after_def)

lemma grows_each [grows_rules]: "(\<And>x. grows (f x)) \<Longrightarrow> grows (os_each f xs)"
  by (induction xs) (auto intro: grows_rules)

lemma grows_if [grows_rules]: "(b \<Longrightarrow> grows m) \<Longrightarrow> (\<not> b \<Longrightarrow> grows n) \<Longrightarrow> grows (if b then m else n)"
  by simp

section \<open>Taking a successful run apart\<close>

lemma os_try_OkE:
  assumes "os_try m f w = (Inr y, w')"
  obtains x w1 where "m w = (Inr x, w1)" "f x w1 = (Inr y, w')"
  using assms by (auto simp: os_try_def split: prod.splits sum.splits)

lemma os_try_else_OkE:
  assumes "os_try_else m c f w = (Inr y, w')"
  obtains x w1 where "m w = (Inr x, w1)" "f x w1 = (Inr y, w')"
  using assms by (auto simp: os_try_else_def split: prod.splits sum.splits)

lemma os_finally_OkE:
  assumes "os_finally m c w = (Inr y, w')"
  obtains w1 where "m w = (Inr y, w1)" "w' = c w1"
  using assms by (auto simp: os_finally_def split: prod.splits)

lemma os_on_error_OkE:
  assumes "os_on_error m c w = (Inr y, w')"
  obtains "m w = (Inr y, w')"
  using assms by (auto simp: os_on_error_def split: prod.splits)

lemma os_map_error_OkE:
  assumes "os_map_error g m w = (Inr y, w')"
  obtains "m w = (Inr y, w')"
  using assms by (auto simp: os_map_error_def split: prod.splits sum.splits)

lemma os_lift_Ok: "os_lift r w = (Inr y, w') \<longleftrightarrow> r = Inr y \<and> w' = w"
  by (auto simp: os_lift_def)

lemma os_ret_Ok: "os_ret x w = (Inr y, w') \<longleftrightarrow> y = x \<and> w' = w"
  by (auto simp: os_ret_def)

lemma os_fail_Ok [simp]: "os_fail e w \<noteq> (Inr y, w')"
  by (simp add: os_fail_def)

lemma os_text_answered: "os_text K c w = (Inr s, w') \<Longrightarrow> answered w' c (RText s)"
  by (auto simp: os_call_defs answered_def split: os_reply.splits)

lemma os_num_answered: "os_num K c w = (Inr n, w') \<Longrightarrow> answered w' c (RNum n)"
  by (auto simp: os_call_defs answered_def split: os_reply.splits)

lemma os_stat_answered: "os_stat K c w = (Inr s, w') \<Longrightarrow> answered w' c (RStat s)"
  by (auto simp: os_call_defs answered_def split: os_reply.splits)

lemma os_cred_answered: "os_cred K c w = (Inr (p, u), w') \<Longrightarrow> answered w' c (RCred p u)"
  by (auto simp: os_call_defs answered_def split: os_reply.splits)

lemma os_do_answered: "os_do K c w = (Inr u, w') \<Longrightarrow> \<exists>r. answered w' c r \<and> (\<forall>e. r \<noteq> RErr e)"
  by (auto simp: os_call_defs answered_def split: os_reply.splits)

lemma os_handle_answered: "os_handle K c w = (Inr h, w') \<Longrightarrow> answered w' c (RHandle h)"
  by (auto simp: os_handle_def new_handle_def answered_def split: os_reply.splits)

lemma os_each_Ok:
  assumes "os_each f xs w = (Inr u, w')" "\<And>x. grows (f x)"
    and "\<And>x w u w'. f x w = (Inr u, w') \<Longrightarrow> P x w'" and "\<And>x w' m r w''. P x w' \<Longrightarrow> grows m \<Longrightarrow> (m :: unit os) w' = (r, w'') \<Longrightarrow> P x w''"
  shows "x \<in> set xs \<Longrightarrow> P x w'"
  using assms(1)
proof (induction xs arbitrary: w)
  case (Cons y ys)
  from Cons.prems(2) obtain u1 w1 where y: "f y w = (Inr u1, w1)" "os_each f ys w1 = (Inr u, w')" by (auto elim: os_try_OkE)
  show ?case
  proof (cases "x = y")
    case True
    with assms(3) [OF y(1)] have "P x w1" by simp
    moreover have "grows (os_each f ys)" using assms(2) by (rule grows_each)
    ultimately show ?thesis using assms(4) y(2) by blast
  next
    case False
    with Cons.prems(1) have "x \<in> set ys" by simp
    then show ?thesis using Cons.IH y(2) by blast
  qed
qed simp

section \<open>What a computation leaves alone\<close>

definition keeps :: "(world \<Rightarrow> 'b) \<Rightarrow> (world \<Rightarrow> world) \<Rightarrow> bool" where
  "keeps F c = (\<forall>w. F (c w) = F w)"

abbreviation leaves :: "(world \<Rightarrow> 'b) \<Rightarrow> 'a os \<Rightarrow> bool" where
  "leaves F m \<equiv> keeps F (\<lambda>w. snd (m w))"

named_theorems leaves_rules "what the combinators leave alone"

lemma leavesD: "leaves F m \<Longrightarrow> m w = (r, w') \<Longrightarrow> F w' = F w"
  unfolding keeps_def by (metis snd_conv)

lemma keeps_comp: "keeps F c \<Longrightarrow> keeps F d \<Longrightarrow> keeps F (\<lambda>w. d (c w))"
  by (simp add: keeps_def)

lemma leaves_try_else [leaves_rules]:
  "leaves F m \<Longrightarrow> keeps F c \<Longrightarrow> (\<And>x. leaves F (f x)) \<Longrightarrow> leaves F (os_try_else m c f)"
  unfolding keeps_def by (auto simp: os_try_else_def split: prod.splits sum.splits) (metis snd_conv)+

lemma leaves_try [leaves_rules]: "leaves F m \<Longrightarrow> (\<And>x. leaves F (f x)) \<Longrightarrow> leaves F (os_try m f)"
  unfolding keeps_def by (auto simp: os_try_def split: prod.splits sum.splits) (metis snd_conv)+

lemma leaves_finally [leaves_rules]: "leaves F m \<Longrightarrow> keeps F c \<Longrightarrow> leaves F (os_finally m c)"
  unfolding keeps_def by (auto simp: os_finally_def split: prod.splits) (metis snd_conv)

lemma leaves_on_error [leaves_rules]: "leaves F m \<Longrightarrow> keeps F c \<Longrightarrow> leaves F (os_on_error m c)"
  unfolding keeps_def by (auto simp: os_on_error_def split: prod.splits) (metis snd_conv)+

lemma leaves_after [leaves_rules]: "keeps F c \<Longrightarrow> leaves F m \<Longrightarrow> leaves F (os_after c m)"
  unfolding keeps_def by (simp add: os_after_def)

lemma leaves_map [leaves_rules]:
  "leaves F m \<Longrightarrow> leaves F (os_map_error g m)" "leaves F u \<Longrightarrow> leaves F (os_allow p u)" "leaves F m \<Longrightarrow> leaves F (os_default d m)"
  by (simp_all add: keeps_def os_map_error_def os_allow_def os_default_def case_prod_beta)

lemma leaves_simple [leaves_rules]: "leaves F (os_ret x)" "leaves F (os_fail e)" "leaves F (os_lift r)"
  by (simp_all add: keeps_def os_ret_def os_fail_def os_lift_def)

lemma leaves_each [leaves_rules]: "(\<And>x. leaves F (f x)) \<Longrightarrow> leaves F (os_each f xs)"
  by (induction xs) (auto intro: leaves_rules)

lemma leaves_if [leaves_rules]: "(b \<Longrightarrow> leaves F m) \<Longrightarrow> (\<not> b \<Longrightarrow> leaves F n) \<Longrightarrow> leaves F (if b then m else n)"
  by simp

text \<open>A function of the log that a call does not enter, and of the log alone.\<close>

definition skips :: "(world \<Rightarrow> 'b) \<Rightarrow> os_call \<Rightarrow> bool" where
  "skips F c = (\<forall>w r. F (w\<lparr>w_log := w_log w @ [(c, r)]\<rparr>) = F w)"

definition of_log :: "(world \<Rightarrow> 'b) \<Rightarrow> bool" where
  "of_log F = (\<forall>w n l. F (w\<lparr>w_next := n, w_live := l\<rparr>) = F w)"

lemma of_logD:
  assumes "of_log F" "w_log v = w_log w"
  shows "F v = F w"
proof -
  have "F (v\<lparr>w_next := w_next w, w_live := w_live w\<rparr>) = F v" using assms(1) by (simp add: of_log_def)
  moreover have "v\<lparr>w_next := w_next w, w_live := w_live w\<rparr> = w" using assms(2) by (cases v; cases w) simp
  ultimately show ?thesis by simp
qed

lemma leaves_call:
  assumes "skips F c"
  shows "leaves F (os_do K c)" "leaves F (os_text K c)" "leaves F (os_num K c)" "leaves F (os_stat K c)" "leaves F (os_cred K c)"
    "keeps F (os_note K c)"
  using assms by (simp_all add: keeps_def skips_def os_call_defs os_note_def)

lemma leaves_handle:
  assumes "skips F c" "of_log F"
  shows "leaves F (os_handle K c)" "keeps F (os_release K c h)"
proof -
  have "F (w\<lparr>w_next := n, w_live := l, w_log := w_log w @ [(c, r)]\<rparr>) = F w" for w n l r
    using of_logD [OF assms(2), of "w\<lparr>w_next := n, w_live := l, w_log := w_log w @ [(c, r)]\<rparr>" "w\<lparr>w_log := w_log w @ [(c, r)]\<rparr>"]
      assms(1) by (simp add: skips_def)
  then show "leaves F (os_handle K c)"
    using assms(1) by (auto simp: keeps_def os_handle_def new_handle_def skips_def split: os_reply.splits)
  have "F (w\<lparr>w_log := w_log w @ [(c, r)], w_live := l\<rparr>) = F w" for w l r
    using of_logD [OF assms(2), of "w\<lparr>w_log := w_log w @ [(c, r)], w_live := l\<rparr>" "w\<lparr>w_log := w_log w @ [(c, r)]\<rparr>"]
      assms(1) by (simp add: skips_def)
  then show "keeps F (os_release K c h)" by (simp add: keeps_def os_release_def os_note_def sys_def Let_def)
qed

lemma leaves_read: "skips F (File (FReadAll f n)) \<Longrightarrow> leaves F (os_read K f n)"
  using leaves_call(2) [of F "File (FReadAll f n)" K] by (simp add: os_read_def keeps_def case_prod_beta)

section \<open>Computations that cannot fail\<close>

definition succeeds :: "'a os \<Rightarrow> bool" where
  "succeeds m = (\<forall>w. \<exists>x w'. m w = (Ok x, w'))"

named_theorems succeeds_rules "combinations of computations that cannot fail"

lemma succeedsE: "succeeds m \<Longrightarrow> (\<And>x w'. m w = (Ok x, w') \<Longrightarrow> thesis) \<Longrightarrow> thesis"
  unfolding succeeds_def by blast

lemma succeeds_try [succeeds_rules]:
  assumes "succeeds m" "\<And>x. succeeds (f x)"
  shows "succeeds (os_try m f)"
  unfolding succeeds_def
proof
  fix w
  obtain x w1 where m: "m w = (Ok x, w1)" using assms(1) by (rule succeedsE)
  obtain y w2 where "f x w1 = (Ok y, w2)" using assms(2) by (rule succeedsE)
  with m show "\<exists>y w'. os_try m f w = (Ok y, w')" by (simp add: os_try_def)
qed

lemma succeeds_one:
  assumes "succeeds m"
  shows "\<exists>x w'. os_finally m c w = (Ok x, w')" "\<exists>x w'. os_map_error g m w = (Ok x, w')" "\<exists>x w'. os_on_error m c w = (Ok x, w')"
    "\<exists>x w'. os_default d m w = (Ok x, w')"
proof -
  obtain x w1 where "m w = (Ok x, w1)" using assms by (rule succeedsE)
  then show "\<exists>x w'. os_finally m c w = (Ok x, w')" "\<exists>x w'. os_map_error g m w = (Ok x, w')" "\<exists>x w'. os_on_error m c w = (Ok x, w')"
    "\<exists>x w'. os_default d m w = (Ok x, w')"
    by (simp_all add: os_comb_defs)
qed

lemma succeeds_comb [succeeds_rules]:
  "succeeds m \<Longrightarrow> succeeds (os_finally m c)" "succeeds m \<Longrightarrow> succeeds (os_map_error g m)" "succeeds m \<Longrightarrow> succeeds (os_on_error m c)"
  "succeeds m \<Longrightarrow> succeeds (os_default d m)" "succeeds (os_ret x)"
  by (simp_all add: succeeds_def [of "os_finally m c"] succeeds_def [of "os_map_error g m"] succeeds_def [of "os_on_error m c"]
      succeeds_def [of "os_default d m"] succeeds_one) (simp add: succeeds_def os_ret_def)

lemma succeeds_after [succeeds_rules]: "succeeds m \<Longrightarrow> succeeds (os_after c m)"
  unfolding succeeds_def os_after_def by blast

lemma succeeds_allow [succeeds_rules]: "succeeds u \<Longrightarrow> succeeds (os_allow p u)"
  unfolding succeeds_def [of "os_allow p u"] by (metis (no_types, lifting) case_prod_conv old.sum.simps(6) os_allow_def succeedsE)

lemma succeeds_each [succeeds_rules]: "(\<And>x. succeeds (f x)) \<Longrightarrow> succeeds (os_each f xs)"
  by (induction xs) (auto intro: succeeds_rules)

lemma succeeds_calls:
  assumes "\<And>log. \<forall>e. K log c \<noteq> RErr e"
  shows "succeeds (os_do K c)" "succeeds (os_handle K c)"
proof -
  show "succeeds (os_do K c)" unfolding succeeds_def
  proof
    fix w show "\<exists>x w'. os_do K c w = (Ok x, w')" using assms [of "w_log w"] by (cases "K (w_log w) c") (auto simp: os_call_defs)
  qed
  show "succeeds (os_handle K c)" unfolding succeeds_def
  proof
    fix w show "\<exists>x w'. os_handle K c w = (Ok x, w')" using assms [of "w_log w"]
      by (cases "K (w_log w) c") (auto simp: os_handle_def new_handle_def)
  qed
qed

end
