(* ===== verification/Go_Url.thy ===== *)
theory Go_Url
  imports Go_Netip
begin

text \<open>
  What the sources use of \<^verbatim>\<open>net/url\<close>: \<^verbatim>\<open>url.Parse\<close> up to the scheme, the user information (only whether
  there is any) and the host, and \<^verbatim>\<open>URL.Hostname\<close>. A host in brackets must be an IPv6 literal.
\<close>

record url =
  url_scheme :: string
  url_user :: bool
  url_host :: string
  url_path :: string

definition is_letter :: "char \<Rightarrow> bool" where
  "is_letter c = (let n = of_char c :: nat in 97 \<le> n \<and> n \<le> 122 \<or> 65 \<le> n \<and> n \<le> 90)"

definition to_lower :: "char \<Rightarrow> char" where
  "to_lower c = (let n = of_char c :: nat in if 65 \<le> n \<and> n \<le> 90 then char_of (n + 32) else c)"

definition ctl_byte :: "char \<Rightarrow> bool" where
  "ctl_byte c = ((of_char c :: nat) < 32 \<or> (of_char c :: nat) = 127)"

text \<open>Escapes that are two hexadecimal digits.\<close>

fun escapes_ok :: "string \<Rightarrow> bool" where
  "escapes_ok [] = True"
| "escapes_ok (c # cs) =
     (if c = CHR ''%'' then (case cs of a # b # rest \<Rightarrow> is_hex a \<and> is_hex b \<and> escapes_ok rest | _ \<Rightarrow> False)
      else escapes_ok cs)"

definition get_scheme :: "string \<Rightarrow> (string \<times> string) option" where
  "get_scheme s =
     (let pre = takeWhile (\<lambda>c. is_letter c \<or> is_digit c \<or> c = CHR ''+'' \<or> c = CHR ''-'' \<or> c = CHR ''.'') s;
          rest = drop (length pre) s in
      if pre = [] then (if has_prefix '':'' rest then None else Some ([], s))
      else if \<not> is_letter (hd pre) then Some ([], s)
      else if has_prefix '':'' rest then Some (pre, drop 1 rest)
      else Some ([], s))"

definition host_char :: "char \<Rightarrow> bool" where
  "host_char c =
     (is_letter c \<or> is_digit c \<or> c \<in> set ''!$&()*+,;=:[]<>-_.~'' \<or> c = CHR 0x27 \<or> c = CHR 0x22 \<or> (of_char c :: nat) \<ge> 128)"

text \<open>\<^verbatim>\<open>unescape\<close> of a host: an escape is \<^verbatim>\<open>%25\<close> or stands for a byte above 127.\<close>

fun unescape_host :: "string \<Rightarrow> string option" where
  "unescape_host [] = Some []"
| "unescape_host (c # cs) =
     (if c = CHR ''%'' then
        (case cs of
           a # b # rest \<Rightarrow>
             if \<not> (is_hex a \<and> is_hex b) \<or> hex_nibble a < 8 \<and> \<not> (a = CHR ''2'' \<and> b = CHR ''5'') then None
             else map_option (\<lambda>s. char_of (nat (16 * hex_nibble a + hex_nibble b)) # s) (unescape_host rest)
         | _ \<Rightarrow> None)
      else if host_char c then map_option (\<lambda>s. c # s) (unescape_host cs)
      else None)"

definition valid_optional_port :: "string \<Rightarrow> bool" where
  "valid_optional_port p = (p = [] \<or> hd p = CHR '':'' \<and> list_all is_digit (tl p))"

definition last_index :: "char \<Rightarrow> string \<Rightarrow> nat option" where
  "last_index c s =
     (if c \<in> set s then Some (length s - length (takeWhile (\<lambda>d. d \<noteq> c) (rev s)) - 1) else None)"

definition parse_host :: "string \<Rightarrow> string option" where
  "parse_host h =
     (if has_prefix ''['' h then
        (case last_index CHR '']'' h of
           None \<Rightarrow> None
         | Some i \<Rightarrow>
             if \<not> valid_optional_port (drop (i + 1) h) then None
             else case unescape_host h of
               None \<Rightarrow> None
             | Some host \<Rightarrow> if parse_v6 (take (i - 1) (drop 1 h)) = None then None else Some host)
      else case last_index CHR '':'' h of
        None \<Rightarrow> unescape_host h
      | Some i \<Rightarrow> if \<not> valid_optional_port (drop i h) then None else unescape_host h)"

definition userinfo_char :: "char \<Rightarrow> bool" where
  "userinfo_char c = (is_letter c \<or> is_digit c \<or> c \<in> set ''-._:~!$&()*+,;=%@'' \<or> c = CHR 0x27)"

definition parse_authority :: "string \<Rightarrow> (bool \<times> string) option" where
  "parse_authority a =
     (case last_index CHR ''@'' a of
        None \<Rightarrow> map_option (\<lambda>h. (False, h)) (parse_host a)
      | Some i \<Rightarrow>
          (case parse_host (drop (i + 1) a) of
             None \<Rightarrow> None
           | Some h \<Rightarrow> if list_all userinfo_char (take i a) \<and> escapes_ok (take i a) then Some (True, h) else None))"

definition url_parse :: "string \<Rightarrow> url option" where
  "url_parse raw =
     (let before = takeWhile (\<lambda>c. c \<noteq> CHR ''#'') raw;
          fragment = drop (length before + 1) raw in
      if list_ex ctl_byte before \<or> \<not> escapes_ok fragment then None
      else if before = ''*'' then Some \<lparr>url_scheme = [], url_user = False, url_host = [], url_path = ''*''\<rparr>
      else case get_scheme before of
        None \<Rightarrow> None
      | Some (scheme0, rest0) \<Rightarrow>
          let scheme = map to_lower scheme0;
              rest = takeWhile (\<lambda>c. c \<noteq> CHR ''?'') rest0 in
          if \<not> has_prefix ''/'' rest \<and> scheme \<noteq> []
          then Some \<lparr>url_scheme = scheme, url_user = False, url_host = [], url_path = []\<rparr>
          else if \<not> has_prefix ''/'' rest \<and> CHR '':'' \<in> set (takeWhile (\<lambda>c. c \<noteq> CHR ''/'') rest) then None
          else if (scheme \<noteq> [] \<or> \<not> has_prefix ''///'' rest) \<and> has_prefix ''//'' rest then
            (let authority = takeWhile (\<lambda>c. c \<noteq> CHR ''/'') (drop 2 rest);
                 path = drop (2 + length authority) rest in
             case parse_authority authority of
               None \<Rightarrow> None
             | Some (user, host) \<Rightarrow>
                 if \<not> escapes_ok path then None
                 else Some \<lparr>url_scheme = scheme, url_user = user, url_host = host, url_path = path\<rparr>)
          else if \<not> escapes_ok rest then None
          else Some \<lparr>url_scheme = scheme, url_user = False, url_host = [], url_path = rest\<rparr>)"

definition url_hostname :: "url \<Rightarrow> string" where
  "url_hostname u =
     (let h = url_host u;
          h1 = (case last_index CHR '':'' h of
                  None \<Rightarrow> h
                | Some i \<Rightarrow> if valid_optional_port (drop i h) then take i h else h) in
      if has_prefix ''['' h1 \<and> has_suffix '']'' h1 then take (length h1 - 2) (drop 1 h1) else h1)"

end
