(* ===== verification/Agent_Config.thy ===== *)
theory Agent_Config
  imports Go_Json Go_Url
begin

text \<open>
  \<^verbatim>\<open>realm-agent/config.go\<close>: the configuration of the agent that confines workloads, its validation, and
  the decision where a connection of a workload may go. Ports are 16-bit words, so that the
  arithmetic of the port checks wraps as in the source. A workload is validated in place: the
  model returns the workload with its defaults filled in.
\<close>

section \<open>Data\<close>

record route =
  rt_prefix :: string
  rt_port :: "16 word"
  rt_socket :: string

record workload =
  wl_name :: string
  wl_unit :: string
  wl_user :: string
  wl_group :: string
  wl_worker_user :: string
  wl_socket :: string
  wl_internet_socket :: string
  wl_internet_ports :: "16 word list"
  wl_dns_upstream :: string
  wl_dns_hosts :: "(string, string list) gmap"
  wl_routes :: "route list"
  wl_tcp_port :: "16 word"
  wl_dns_base :: "16 word"
  wl_max_connections :: int
  wl_memory :: int
  wl_tasks :: int
  wl_cpu_quota :: int

record configuration =
  cf_namespace_tool :: string
  cf_ca_bundle :: string
  cf_network_tool :: string
  cf_workloads :: "workload list"

definition zero_route :: route where
  "zero_route = \<lparr>rt_prefix = [], rt_port = 0, rt_socket = []\<rparr>"

definition zero_workload :: workload where
  "zero_workload = \<lparr>wl_name = [], wl_unit = [], wl_user = [], wl_group = [], wl_worker_user = [], wl_socket = [],
     wl_internet_socket = [], wl_internet_ports = [], wl_dns_upstream = [], wl_dns_hosts = [], wl_routes = [],
     wl_tcp_port = 0, wl_dns_base = 0, wl_max_connections = 0, wl_memory = 0, wl_tasks = 0, wl_cpu_quota = 0\<rparr>"

definition zero_configuration :: configuration where
  "zero_configuration = \<lparr>cf_namespace_tool = [], cf_ca_bundle = [], cf_network_tool = [], cf_workloads = []\<rparr>"

section \<open>JSON forms\<close>

definition dec_u16 :: "16 word jdec" where
  "dec_u16 j v = map_option word_of_int (dec_int 0 65535 j (uint v))"

definition dec_route :: "bool \<Rightarrow> route jdec" where
  "dec_route strict = dec_struct strict
     [(''prefix'', dec_field rt_prefix rt_prefix_update dec_string),
      (''port'', dec_field rt_port rt_port_update dec_u16),
      (''socket'', dec_field rt_socket rt_socket_update dec_string)]"

definition dec_workload :: "bool \<Rightarrow> workload jdec" where
  "dec_workload strict = dec_struct strict
     [(''name'', dec_field wl_name wl_name_update dec_string),
      (''unit'', dec_field wl_unit wl_unit_update dec_string),
      (''user'', dec_field wl_user wl_user_update dec_string),
      (''group'', dec_field wl_group wl_group_update dec_string),
      (''workerUser'', dec_field wl_worker_user wl_worker_user_update dec_string),
      (''socket'', dec_field wl_socket wl_socket_update dec_string),
      (''internetSocket'', dec_field wl_internet_socket wl_internet_socket_update dec_string),
      (''internetPorts'', dec_field wl_internet_ports wl_internet_ports_update (dec_slice 0 dec_u16)),
      (''dnsUpstream'', dec_field wl_dns_upstream wl_dns_upstream_update dec_string),
      (''dnsHosts'', dec_field wl_dns_hosts wl_dns_hosts_update (dec_map [] (dec_slice [] dec_string))),
      (''routes'', dec_field wl_routes wl_routes_update (dec_slice zero_route (dec_route strict))),
      (''tcpPort'', dec_field wl_tcp_port wl_tcp_port_update dec_u16),
      (''dnsBase'', dec_field wl_dns_base wl_dns_base_update dec_u16),
      (''maxConnections'', dec_field wl_max_connections wl_max_connections_update dec_int64),
      (''workerMemoryMiB'', dec_field wl_memory wl_memory_update dec_int64),
      (''workerTasks'', dec_field wl_tasks wl_tasks_update dec_int64),
      (''workerCPUQuota'', dec_field wl_cpu_quota wl_cpu_quota_update dec_int64)]"

definition dec_configuration :: "configuration jdec" where
  "dec_configuration = dec_struct True
     [(''namespaceTool'', dec_field cf_namespace_tool cf_namespace_tool_update dec_string),
      (''caBundle'', dec_field cf_ca_bundle cf_ca_bundle_update dec_string),
      (''networkTool'', dec_field cf_network_tool cf_network_tool_update dec_string),
      (''workloads'', dec_field cf_workloads cf_workloads_update (dec_slice zero_workload (dec_workload True)))]"

section \<open>Validation\<close>

definition name_lower :: "char \<Rightarrow> bool" where
  "name_lower c = (let n = of_char c :: nat in 97 \<le> n \<and> n \<le> 122)"

definition namePattern :: rx where
  "namePattern = RSeq (RCls name_lower) (RUpTo 30 (RCls (\<lambda>c. name_lower c \<or> is_digit c \<or> c = CHR ''-'')))"

definition unit_char :: "char \<Rightarrow> bool" where
  "unit_char c = (is_letter c \<or> is_digit c \<or> c \<in> set ''_:@.-'' \<or> c = CHR 0x5C)"

definition unitPattern :: rx where
  "unitPattern = RSeq (RSeq (RCls unit_char) (RStar (RCls unit_char))) (rx_lit ''.service'')"

definition check_accounts :: "workload \<Rightarrow> bool" where
  "check_accounts w =
     (\<not> (wl_user w = [] \<or> wl_user w = ''root'' \<or> wl_worker_user w = [] \<or> wl_worker_user w = ''root'' \<or>
         wl_user w = wl_worker_user w \<or> wl_group w = [] \<or> wl_group w = ''root''))"

definition check_ports :: "16 word \<Rightarrow> 16 word \<Rightarrow> bool" where
  "check_ports tcp base =
     (\<not> (base > 65528 \<or> (tcp \<ge> base \<and> tcp < base + 8) \<or> tcp = 53 \<or> (base \<le> 53 \<and> base + 7 \<ge> 53)))"

definition check_hosts :: "(string, string list) gmap \<Rightarrow> unit result" where
  "check_hosts hosts =
     (case find (\<lambda>(name, addresses).
              name = [] \<or> contains_any name ([CHR '' '', CHR 0x0A, CHR 0x09] @ ''/'') \<or> addresses = [] \<or>
              list_ex (\<lambda>s. parse_addr s = None) addresses) hosts of
        None \<Rightarrow> Ok ()
      | Some (name, addresses) \<Rightarrow>
          if name = [] \<or> contains_any name ([CHR '' '', CHR 0x0A, CHR 0x09] @ ''/'') \<or> addresses = []
          then Fail ''invalid DNS host'' else Inl (ErrWrap ''DNS address'' (ErrLib ''ParseAddr'')))"

fun check_routes :: "route list \<Rightarrow> unit result" where
  "check_routes [] = Ok ()"
| "check_routes (r # rest) =
     (if parse_prefix (rt_prefix r) = None then Inl (ErrLib ''ParsePrefix'')
      else if rt_port r = 0 \<or> \<not> path_is_abs (rt_socket r) then Fail ''routes need a port and absolute socket''
      else check_routes rest)"

definition validate :: "workload \<Rightarrow> workload result" where
  "validate w =
     (if \<not> rx_match namePattern (wl_name w) then Fail ''invalid name''
      else if wl_unit w \<noteq> [] \<and> \<not> rx_match unitPattern (wl_unit w)
      then Fail ''unit must be a concrete system service name''
      else if \<not> check_accounts w
      then Fail ''distinct unprivileged application and worker accounts are required''
      else if \<not> path_is_abs (wl_socket w) then Fail ''socket must be absolute''
      else
        let w1 = w\<lparr>wl_tcp_port := (if wl_tcp_port w = 0 then 15001 else wl_tcp_port w),
                   wl_dns_base := (if wl_dns_base w = 0 then 15053 else wl_dns_base w)\<rparr> in
      if \<not> check_ports (wl_tcp_port w1) (wl_dns_base w1) then Fail ''invalid or overlapping listener ports''
      else
        let w2 = w1\<lparr>wl_max_connections := (if wl_max_connections w = 0 then 256 else wl_max_connections w)\<rparr> in
      if wl_max_connections w2 < 1 \<or> wl_max_connections w2 > 4096 then Fail ''maxConnections must be 1..4096''
      else
        let w3 = w2\<lparr>wl_memory := (if wl_memory w = 0 then 128 else wl_memory w),
                    wl_tasks := (if wl_tasks w = 0 then 64 else wl_tasks w),
                    wl_cpu_quota := (if wl_cpu_quota w = 0 then 100 else wl_cpu_quota w)\<rparr> in
      if wl_memory w3 < 32 \<or> wl_memory w3 > 4096 \<or> wl_tasks w3 < 16 \<or> wl_tasks w3 > 512 \<or>
         wl_cpu_quota w3 < 1 \<or> wl_cpu_quota w3 > 800
      then Fail ''invalid worker resource budget''
      else if wl_internet_socket w \<noteq> [] \<and> \<not> path_is_abs (wl_internet_socket w)
      then Fail ''internetSocket must be absolute''
      else
        let w4 = w3\<lparr>wl_dns_upstream := (if wl_dns_upstream w = [] then ''https://cloudflare-dns.com/dns-query'' else wl_dns_upstream w)\<rparr> in
      case url_parse (wl_dns_upstream w4) of
        None \<Rightarrow> Fail ''dnsUpstream must be an HTTPS URL without credentials''
      | Some u \<Rightarrow>
          if url_scheme u \<noteq> ''https'' \<or> url_hostname u = [] \<or> url_user u
          then Fail ''dnsUpstream must be an HTTPS URL without credentials''
          else if 0 \<in> set (wl_internet_ports w) then Fail ''invalid Internet port''
          else case check_hosts (wl_dns_hosts w) of
            Inl e \<Rightarrow> Inl e
          | Inr _ \<Rightarrow> (case check_routes (wl_routes w) of Inl e \<Rightarrow> Inl e | Inr _ \<Rightarrow> Ok w4))"

section \<open>Loading\<close>

text \<open>The loop over the workloads, with the names, sockets and directories seen so far.\<close>

fun validate_all ::
  "string list \<Rightarrow> string list \<Rightarrow> string list \<Rightarrow> workload list \<Rightarrow> workload list result" where
  "validate_all seen sockets directories [] = Ok []"
| "validate_all seen sockets directories (w # ws) =
     (case validate w of
        Inl e \<Rightarrow> Inl (ErrWrap (''workload '' @ wl_name w) e)
      | Inr w' \<Rightarrow>
          if wl_name w' \<in> set seen \<or> wl_socket w' \<in> set sockets \<or> path_dir (wl_socket w') \<in> set directories
          then Fail ''duplicate workload or control socket''
          else (case validate_all (wl_name w' # seen) (wl_socket w' # sockets) (path_dir (wl_socket w') # directories) ws of
                  Inl e \<Rightarrow> Inl e
                | Inr ws' \<Rightarrow> Ok (w' # ws')))"

definition decodeConfig :: "string \<Rightarrow> configuration result" where
  "decodeConfig data =
     (case json_next (take (2 ^ 20) data) of
        None \<Rightarrow> Inl (ErrLib ''json'')
      | Some (j, rest) \<Rightarrow>
          (case dec_configuration j zero_configuration of
             None \<Rightarrow> Inl (ErrLib ''json'')
           | Some c \<Rightarrow>
               if \<not> json_at_eof rest then Fail ''configuration must contain one JSON object''
               else
                 let c1 = c\<lparr>cf_namespace_tool := (if cf_namespace_tool c = [] then ''/run/current-system/sw/bin/nsenter'' else cf_namespace_tool c),
                            cf_network_tool := (if cf_network_tool c = [] then ''/run/current-system/sw/bin/ip'' else cf_network_tool c)\<rparr> in
               if \<not> path_is_abs (cf_network_tool c1) then Fail ''networkTool must be absolute''
               else if \<not> path_is_abs (cf_namespace_tool c1) then Fail ''namespaceTool must be absolute''
               else
                 let c2 = c1\<lparr>cf_ca_bundle := (if cf_ca_bundle c = [] then ''/etc/ssl/certs/ca-certificates.crt'' else cf_ca_bundle c)\<rparr> in
               if \<not> path_is_abs (cf_ca_bundle c2) then Fail ''caBundle must be absolute''
               else case validate_all [] [] [] (cf_workloads c2) of
                 Inl e \<Rightarrow> Inl e
               | Inr ws \<Rightarrow> Ok (c2\<lparr>cf_workloads := ws\<rparr>)))"

definition loadConfig :: "(string \<Rightarrow> string result) \<Rightarrow> string \<Rightarrow> configuration result" where
  "loadConfig read_file path = (case read_file path of Inl e \<Rightarrow> Inl e | Inr data \<Rightarrow> decodeConfig data)"

section \<open>Targets\<close>

record addrport =
  dp_addr :: addr
  dp_port :: "16 word"

definition forbidden_texts :: "string list" where
  "forbidden_texts = [''0.0.0.0/8'', ''10.0.0.0/8'', ''100.64.0.0/10'', ''127.0.0.0/8'', ''169.254.0.0/16'',
     ''172.16.0.0/12'', ''192.0.0.0/24'', ''192.168.0.0/16'', ''198.18.0.0/15'', ''224.0.0.0/4'', ''240.0.0.0/4'',
     ''::/128'', ''::1/128'', ''::ffff:0:0/96'', ''200::/7'', ''fc00::/7'', ''fe80::/10'', ''fec0::/10'', ''ff00::/8'']"

text \<open>\<^verbatim>\<open>MustParsePrefix\<close> panics on a text that does not parse: \<^const>\<open>None\<close>.\<close>

definition forbiddenPrefixes :: "pfx list option" where
  "forbiddenPrefixes = those (map parse_prefix forbidden_texts)"

text \<open>The loop over the routes: the socket selected so far and the length of its prefix.\<close>

fun select_route :: "addrport \<Rightarrow> route list \<Rightarrow> string \<Rightarrow> int \<Rightarrow> string option" where
  "select_route a [] selected bits = Some selected"
| "select_route a (r # rest) selected bits =
     (case parse_prefix (rt_prefix r) of
        None \<Rightarrow> None
      | Some p \<Rightarrow>
          if rt_port r = dp_port a \<and> pfx_contains p (dp_addr a) \<and> int (pfx_bits p) > bits
          then select_route a rest (rt_socket r) (int (pfx_bits p))
          else select_route a rest selected bits)"

definition target :: "workload \<Rightarrow> addrport \<Rightarrow> string result" where
  "target w a =
     (case select_route a (wl_routes w) [] (- 1) of
        None \<Rightarrow> Inl (ErrLib ''panic: MustParsePrefix'')
      | Some selected \<Rightarrow>
          if selected \<noteq> [] then Ok selected
          else case forbiddenPrefixes of
            None \<Rightarrow> Inl (ErrLib ''panic: MustParsePrefix'')
          | Some ps \<Rightarrow>
              if list_ex (\<lambda>p. pfx_contains p (dp_addr a)) ps then Fail ''undeclared private or reserved destination''
              else if list_ex (\<lambda>p. p = dp_port a \<and> wl_internet_socket w \<noteq> []) (wl_internet_ports w)
              then Ok (wl_internet_socket w)
              else Fail ''destination port is not authorized'')"

section \<open>What validation accepts\<close>

definition wl_fill :: "workload \<Rightarrow> workload" where
  "wl_fill w = w\<lparr>
     wl_tcp_port := (if wl_tcp_port w = 0 then 15001 else wl_tcp_port w),
     wl_dns_base := (if wl_dns_base w = 0 then 15053 else wl_dns_base w),
     wl_max_connections := (if wl_max_connections w = 0 then 256 else wl_max_connections w),
     wl_memory := (if wl_memory w = 0 then 128 else wl_memory w),
     wl_tasks := (if wl_tasks w = 0 then 64 else wl_tasks w),
     wl_cpu_quota := (if wl_cpu_quota w = 0 then 100 else wl_cpu_quota w),
     wl_dns_upstream := (if wl_dns_upstream w = [] then ''https://cloudflare-dns.com/dns-query'' else wl_dns_upstream w)\<rparr>"

definition https_url :: "string \<Rightarrow> bool" where
  "https_url s = (case url_parse s of None \<Rightarrow> False
     | Some u \<Rightarrow> url_scheme u = ''https'' \<and> url_hostname u \<noteq> [] \<and> \<not> url_user u)"

definition workload_ok :: "workload \<Rightarrow> bool" where
  "workload_ok w =
     (rx_match namePattern (wl_name w) \<and> (wl_unit w = [] \<or> rx_match unitPattern (wl_unit w)) \<and>
      check_accounts w \<and> path_is_abs (wl_socket w) \<and> check_ports (wl_tcp_port w) (wl_dns_base w) \<and>
      1 \<le> wl_max_connections w \<and> wl_max_connections w \<le> 4096 \<and> 32 \<le> wl_memory w \<and> wl_memory w \<le> 4096 \<and>
      16 \<le> wl_tasks w \<and> wl_tasks w \<le> 512 \<and> 1 \<le> wl_cpu_quota w \<and> wl_cpu_quota w \<le> 800 \<and>
      (wl_internet_socket w = [] \<or> path_is_abs (wl_internet_socket w)) \<and> https_url (wl_dns_upstream w) \<and>
      0 \<notin> set (wl_internet_ports w) \<and> is_ok (check_hosts (wl_dns_hosts w)) \<and> is_ok (check_routes (wl_routes w)))"

lemma wl_fill_same [simp]:
  "wl_name (wl_fill w) = wl_name w" "wl_unit (wl_fill w) = wl_unit w" "wl_user (wl_fill w) = wl_user w"
  "wl_group (wl_fill w) = wl_group w" "wl_worker_user (wl_fill w) = wl_worker_user w" "wl_socket (wl_fill w) = wl_socket w"
  "wl_internet_socket (wl_fill w) = wl_internet_socket w" "wl_internet_ports (wl_fill w) = wl_internet_ports w"
  "wl_dns_hosts (wl_fill w) = wl_dns_hosts w" "wl_routes (wl_fill w) = wl_routes w"
  by (simp_all add: wl_fill_def)

lemma wl_fill_idem [simp]: "wl_fill (wl_fill w) = wl_fill w"
  by (simp add: wl_fill_def)

lemma check_accounts_fill [simp]: "check_accounts (wl_fill w) = check_accounts w"
  by (simp add: check_accounts_def)

lemma validate_Ok: "validate w = Ok w' \<longleftrightarrow> workload_ok (wl_fill w) \<and> w' = wl_fill w"
proof -
  let ?f = "wl_fill w"
  let ?w2 = "w\<lparr>wl_tcp_port := wl_tcp_port ?f, wl_dns_base := wl_dns_base ?f\<rparr>"
  have f: "(if wl_tcp_port w = 0 then 15001 else wl_tcp_port w) = wl_tcp_port ?f"
    "(if wl_dns_base w = 0 then 15053 else wl_dns_base w) = wl_dns_base ?f"
    "(if wl_max_connections w = 0 then 256 else wl_max_connections w) = wl_max_connections ?f"
    "(if wl_memory w = 0 then 128 else wl_memory w) = wl_memory ?f" "(if wl_tasks w = 0 then 64 else wl_tasks w) = wl_tasks ?f"
    "(if wl_cpu_quota w = 0 then 100 else wl_cpu_quota w) = wl_cpu_quota ?f"
    "(if wl_dns_upstream w = [] then ''https://cloudflare-dns.com/dns-query'' else wl_dns_upstream w) = wl_dns_upstream ?f"
    by (simp_all add: wl_fill_def)
  have fill: "?f = ?w2\<lparr>wl_max_connections := wl_max_connections ?f, wl_memory := wl_memory ?f, wl_tasks := wl_tasks ?f,
      wl_cpu_quota := wl_cpu_quota ?f, wl_dns_upstream := wl_dns_upstream ?f\<rparr>"
    by (simp add: wl_fill_def)
  show ?thesis
    unfolding validate_def Let_def f workload_ok_def https_url_def
    by (subst (2) fill)
      (auto simp: not_less not_le simp del: wl_fill_idem split: option.splits sum.splits if_splits)
qed

lemma check_ports_iff:
  "check_ports tcp base \<longleftrightarrow>
    uint base \<le> 65528 \<and> (base = 65528 \<or> uint tcp < uint base \<or> uint base + 8 \<le> uint tcp) \<and> uint tcp \<noteq> 53 \<and>
    \<not> (46 \<le> uint base \<and> uint base \<le> 53)"
proof (cases "uint base \<le> 65528")
  case False
  then have "base > 65528" by (simp add: word_less_def)
  with False show ?thesis by (simp add: check_ports_def)
next
  case True
  have eq: "tcp = 53 \<longleftrightarrow> uint tcp = 53" "base = 65528 \<longleftrightarrow> uint base = 65528" by (simp_all add: word_uint_eq_iff)
  have seven: "uint (base + 7) = uint base + 7" using True by (simp add: uint_add_lem [THEN iffD1])
  have eight: "uint (base + 8) = (if uint base = 65528 then 0 else uint base + 8)"
    using True by (auto simp: uint_word_ariths word_uint_eq_iff)
  have nonneg: "0 \<le> uint tcp" by simp
  show ?thesis
    unfolding check_ports_def word_less_def word_le_def eq seven eight using True nonneg by auto
qed

section \<open>Validated workloads\<close>

lemma namePattern_iff:
  "rx_match namePattern s \<longleftrightarrow> (\<exists>c t. s = c # t \<and> name_lower c \<and> length t \<le> 30 \<and>
     list_all (\<lambda>c. name_lower c \<or> is_digit c \<or> c = CHR ''-'') t)"
  unfolding rx_match_lang namePattern_def rx_lang.simps(3,4) rx_lang_upto_cls by (fastforce intro: exI [of _ "[c]" for c])

lemma filled_ports: "wl_dns_base (wl_fill w) \<noteq> 0" "wl_tcp_port (wl_fill w) \<noteq> 0"
  by (simp_all add: wl_fill_def)

text \<open>The limits of a validated workload: its name is a short lower-case label, its accounts are
  distinct and not root, its socket is absolute, the connection limit and the worker's memory, tasks
  and processor quota are within their ranges; and validating it again, as the worker and its
  sandbox do with the sealed configuration, changes nothing.\<close>

theorem validate_limits:
  assumes "validate w = Ok w'"
  shows "validate w' = Ok w' \<and> wl_name w' = wl_name w \<and> 1 \<le> length (wl_name w') \<and> length (wl_name w') \<le> 31 \<and>
    CHR ''/'' \<notin> set (wl_name w') \<and>
    wl_user w' \<noteq> ''root'' \<and> wl_worker_user w' \<noteq> ''root'' \<and> wl_group w' \<noteq> ''root'' \<and> wl_user w' \<noteq> wl_worker_user w' \<and>
    path_is_abs (wl_socket w') \<and> 1 \<le> wl_max_connections w' \<and> wl_max_connections w' \<le> 4096 \<and>
    32 \<le> wl_memory w' \<and> wl_memory w' \<le> 4096 \<and> 16 \<le> wl_tasks w' \<and> wl_tasks w' \<le> 512 \<and>
    1 \<le> wl_cpu_quota w' \<and> wl_cpu_quota w' \<le> 800"
proof -
  have w: "workload_ok (wl_fill w)" "w' = wl_fill w" using assms by (simp_all add: validate_Ok)
  then obtain c t where n: "wl_name w = c # t" "name_lower c" "length t \<le> 30"
    "list_all (\<lambda>c. name_lower c \<or> is_digit c \<or> c = CHR ''-'') t"
    by (auto simp: workload_ok_def namePattern_iff)
  have "CHR ''/'' \<notin> set t" using n(4) by (auto simp: list_all_iff name_lower_def is_digit_def)
  moreover have "c \<noteq> CHR ''/''" using n(2) by (auto simp: name_lower_def)
  ultimately have "CHR ''/'' \<notin> set (wl_name w)" using n(1) by auto
  moreover have "validate w' = Ok w'" using w by (simp add: validate_Ok)
  ultimately show ?thesis using w n(1,3) by (simp add: workload_ok_def check_accounts_def)
qed

lemma port_ranges:
  "base + 7 \<le> 65535 \<and> tcp \<noteq> 53 \<and> 53 \<notin> {base..base + 7} \<and> (tcp \<notin> {base..base + 7} \<or> base = 65528) \<longleftrightarrow>
    base \<le> 65528 \<and> (base = 65528 \<or> tcp < base \<or> base + 8 \<le> tcp) \<and> tcp \<noteq> 53 \<and> \<not> (46 \<le> base \<and> base \<le> 53)" for base tcp :: int
  by auto

text \<open>C28. Which listener ports validate: a workload with the ports \<open>t\<close> and \<open>d\<close> validates exactly when it does with the default
  ports and the eight DNS ports from the base on are ports, neither one of them nor the TCP port is 53, and
  the TCP port is none of the eight. The exception is the base 65528: there the 16-bit sum of the check wraps to zero,
  and every TCP port but 53 is accepted, also one of the eight.\<close>

theorem validate_ports:
  "is_ok (validate (w\<lparr>wl_tcp_port := t, wl_dns_base := d\<rparr>)) \<longleftrightarrow>
    is_ok (validate (w\<lparr>wl_tcp_port := 0, wl_dns_base := 0\<rparr>)) \<and>
    (let tcp = (if t = 0 then 15001 else uint t); base = (if d = 0 then 15053 else uint d) in
     base + 7 \<le> 65535 \<and> tcp \<noteq> 53 \<and> 53 \<notin> {base..base + 7} \<and> (tcp \<notin> {base..base + 7} \<or> base = 65528))"
proof -
  let ?w = "w\<lparr>wl_tcp_port := t, wl_dns_base := d\<rparr>" and ?z = "w\<lparr>wl_tcp_port := 0, wl_dns_base := 0\<rparr>"
  have ok: "is_ok (validate v) \<longleftrightarrow> workload_ok (wl_fill v)" for v by (auto simp: is_ok_iff validate_Ok)
  have std: "check_ports 15001 15053" by (simp add: check_ports_iff)
  have "workload_ok (wl_fill ?w) \<longleftrightarrow> workload_ok (wl_fill ?z) \<and> check_ports (wl_tcp_port (wl_fill ?w)) (wl_dns_base (wl_fill ?w))"
    using std by (auto simp: workload_ok_def wl_fill_def check_accounts_def)
  moreover have u: "uint (wl_tcp_port (wl_fill ?w)) = (if t = 0 then 15001 else uint t)" "uint (wl_dns_base (wl_fill ?w)) = (if d = 0 then 15053 else uint d)"
    by (simp_all add: wl_fill_def)
  moreover have eq: "b = 65528 \<longleftrightarrow> uint b = 65528" for b :: "16 word" using word_uint_eq_iff [of b 65528] by simp
  have "check_ports (wl_tcp_port (wl_fill ?w)) (wl_dns_base (wl_fill ?w)) \<longleftrightarrow>
      (let tcp = (if t = 0 then 15001 else uint t); base = (if d = 0 then 15053 else uint d) in
       base + 7 \<le> 65535 \<and> tcp \<noteq> 53 \<and> 53 \<notin> {base..base + 7} \<and> (tcp \<notin> {base..base + 7} \<or> base = 65528))"
    unfolding check_ports_iff Let_def u [symmetric] eq port_ranges by (rule refl)
  ultimately show ?thesis unfolding ok by simp
qed

definition ex_workload :: workload where
  "ex_workload = zero_workload\<lparr>wl_name := ''web'', wl_user := ''web'', wl_group := ''web'', wl_worker_user := ''web-worker'',
     wl_socket := ''/run/realm-agent/web/gate.sock'', wl_internet_socket := ''/run/egress/proxy.sock'', wl_internet_ports := [443],
     wl_routes := [\<lparr>rt_prefix = ''10.1.0.0/16'', rt_port = 5432, rt_socket = ''/run/db/db.sock''\<rparr>,
                   \<lparr>rt_prefix = ''10.1.2.0/24'', rt_port = 5432, rt_socket = ''/run/db2/db.sock''\<rparr>]\<rparr>"

lemma ex_workload_valid: "is_ok (validate ex_workload)"
  by code_simp

theorem validate_limits_witness:
  "validate (projr (validate ex_workload)) = Ok (projr (validate ex_workload))"
proof -
  obtain w' where "validate ex_workload = Ok w'" using ex_workload_valid by (auto simp: is_ok_iff)
  from validate_limits [OF this] this show ?thesis by simp
qed

text \<open>The wrapped check: a TCP port among the DNS ports is accepted.\<close>

theorem validate_ports_witness:
  "is_ok (validate (ex_workload\<lparr>wl_tcp_port := 65530, wl_dns_base := 65528\<rparr>)) \<and> (65530 :: int) \<in> {65528..65528 + 7} \<and>
    \<not> is_ok (validate (ex_workload\<lparr>wl_tcp_port := 15056, wl_dns_base := 15053\<rparr>))"
proof -
  have "ex_workload\<lparr>wl_tcp_port := 0, wl_dns_base := 0\<rparr> = ex_workload" by (simp add: ex_workload_def zero_workload_def)
  then have ok: "is_ok (validate (ex_workload\<lparr>wl_tcp_port := 0, wl_dns_base := 0\<rparr>))" using ex_workload_valid by simp
  have "is_ok (validate (ex_workload\<lparr>wl_tcp_port := 65530, wl_dns_base := 65528\<rparr>))"
    unfolding validate_ports [where w = ex_workload and t = 65530 and d = 65528] Let_def using ok by simp
  moreover have "\<not> is_ok (validate (ex_workload\<lparr>wl_tcp_port := 15056, wl_dns_base := 15053\<rparr>))"
    unfolding validate_ports [where w = ex_workload and t = 15056 and d = 15053] Let_def by simp
  ultimately show ?thesis by simp
qed

section \<open>Where a connection may go\<close>

definition route_matches :: "addrport \<Rightarrow> route \<Rightarrow> bool" where
  "route_matches a r =
     (rt_port r = dp_port a \<and> (case parse_prefix (rt_prefix r) of None \<Rightarrow> False | Some p \<Rightarrow> pfx_contains p (dp_addr a)))"

definition route_bits :: "route \<Rightarrow> int" where
  "route_bits r = (case parse_prefix (rt_prefix r) of None \<Rightarrow> - 1 | Some p \<Rightarrow> int (pfx_bits p))"

text \<open>The first of the matching routes with the longest prefix.\<close>

definition best_at :: "addrport \<Rightarrow> route list \<Rightarrow> nat \<Rightarrow> bool" where
  "best_at a rs i =
     (i < length rs \<and> route_matches a (rs ! i) \<and>
      (\<forall>j < length rs. route_matches a (rs ! j) \<longrightarrow> route_bits (rs ! j) \<le> route_bits (rs ! i)) \<and>
      (\<forall>j < i. route_matches a (rs ! j) \<longrightarrow> route_bits (rs ! j) < route_bits (rs ! i)))"

lemma check_routes_ok:
  "is_ok (check_routes rs) \<longleftrightarrow>
    list_all (\<lambda>r. parse_prefix (rt_prefix r) \<noteq> None \<and> rt_port r \<noteq> 0 \<and> path_is_abs (rt_socket r)) rs"
  by (induction rs) auto

text \<open>The loop keeps what it holds unless a longer match follows.\<close>

lemma select_route_spec:
  assumes "list_all (\<lambda>r. parse_prefix (rt_prefix r) \<noteq> None) rs" "bits \<ge> - 1"
  shows "(\<exists>i. i < length rs \<and> route_matches a (rs ! i) \<and> route_bits (rs ! i) > bits \<and> best_at a rs i \<and>
      select_route a rs selected bits = Some (rt_socket (rs ! i))) \<or>
    (\<forall>r \<in> set rs. route_matches a r \<longrightarrow> route_bits r \<le> bits) \<and> select_route a rs selected bits = Some selected"
  using assms
proof (induction rs arbitrary: selected bits)
  case Nil
  then show ?case by simp
next
  case (Cons r rs)
  then obtain p where p: "parse_prefix (rt_prefix r) = Some p" by auto
  then have b: "route_bits r = int (pfx_bits p)" "route_matches a r = (rt_port r = dp_port a \<and> pfx_contains p (dp_addr a))"
    by (simp_all add: route_bits_def route_matches_def)
  have all: "list_all (\<lambda>r. parse_prefix (rt_prefix r) \<noteq> None) rs" using Cons.prems by simp
  have later: "best_at a (r # rs) (Suc i)"
    if "best_at a rs i" "route_matches a r \<longrightarrow> route_bits r < route_bits (rs ! i)" for i
    using that by (auto simp: best_at_def nth_Cons less_Suc_eq_0_disj split: nat.splits)
  show ?case
  proof (cases "route_matches a r \<and> route_bits r > bits")
    case True
    then have step: "select_route a (r # rs) selected bits = select_route a rs (rt_socket r) (route_bits r)"
      using p b by simp
    have "route_bits r \<ge> - 1" using b by simp
    from Cons.IH [OF all this, of "rt_socket r"] show ?thesis
    proof (elim disjE exE conjE)
      fix i assume i: "i < length rs" "route_matches a (rs ! i)" "route_bits r < route_bits (rs ! i)" "best_at a rs i"
        "select_route a rs (rt_socket r) (route_bits r) = Some (rt_socket (rs ! i))"
      have "best_at a (r # rs) (Suc i)" using later i by blast
      with i True step show ?thesis by (intro disjI1 exI [of _ "Suc i"]) simp
    next
      assume n: "\<forall>r' \<in> set rs. route_matches a r' \<longrightarrow> route_bits r' \<le> route_bits r"
        "select_route a rs (rt_socket r) (route_bits r) = Some (rt_socket r)"
      then have "best_at a (r # rs) 0" using True by (auto simp: best_at_def nth_Cons split: nat.splits)
      with n True step show ?thesis by (intro disjI1 exI [of _ 0]) simp
    qed
  next
    case False
    then have step: "select_route a (r # rs) selected bits = select_route a rs selected bits" using p b by auto
    from Cons.IH [OF all Cons.prems(2), of selected] show ?thesis
    proof (elim disjE exE conjE)
      fix i assume i: "i < length rs" "route_matches a (rs ! i)" "bits < route_bits (rs ! i)" "best_at a rs i"
        "select_route a rs selected bits = Some (rt_socket (rs ! i))"
      have "best_at a (r # rs) (Suc i)" using later [OF i(4)] False i(3) by auto
      with i step show ?thesis by (intro disjI1 exI [of _ "Suc i"]) simp
    next
      assume "\<forall>r' \<in> set rs. route_matches a r' \<longrightarrow> route_bits r' \<le> bits" "select_route a rs selected bits = Some selected"
      with False step show ?thesis by (intro disjI2) auto
    qed
  qed
qed

lemma route_bits_nonneg: "route_matches a r \<Longrightarrow> route_bits r \<ge> 0"
  by (auto simp: route_matches_def route_bits_def split: option.splits)

lemma abs_nonempty: "path_is_abs s \<Longrightarrow> s \<noteq> []"
  by (auto simp: path_is_abs_def has_prefix_def)

definition reserved :: "addr \<Rightarrow> bool" where
  "reserved a = (case forbiddenPrefixes of None \<Rightarrow> True | Some ps \<Rightarrow> list_ex (\<lambda>p. pfx_contains p a) ps)"

lemma target_routed:
  assumes "workload_ok w" "r \<in> set (wl_routes w)" "route_matches a r"
  obtains i where "best_at a (wl_routes w) i" "target w a = Ok (rt_socket (wl_routes w ! i))"
proof -
  have all: "list_all (\<lambda>r. parse_prefix (rt_prefix r) \<noteq> None \<and> rt_port r \<noteq> 0 \<and> path_is_abs (rt_socket r)) (wl_routes w)"
    using assms(1) by (simp add: workload_ok_def check_routes_ok)
  then have "list_all (\<lambda>r. parse_prefix (rt_prefix r) \<noteq> None) (wl_routes w)" by (auto simp: list_all_iff)
  from select_route_spec [OF this, of "- 1" a "[]"] route_bits_nonneg [OF assms(3)] assms(2,3)
  obtain i where i: "i < length (wl_routes w)" "best_at a (wl_routes w) i"
    "select_route a (wl_routes w) [] (- 1) = Some (rt_socket (wl_routes w ! i))" by fastforce
  have "rt_socket (wl_routes w ! i) \<noteq> []" using all i(1) abs_nonempty by (auto simp: list_all_length)
  with i that show ?thesis by (simp add: target_def)
qed

lemma target_unrouted:
  assumes "workload_ok w" "\<And>r. r \<in> set (wl_routes w) \<Longrightarrow> \<not> route_matches a r"
  shows "select_route a (wl_routes w) [] (- 1) = Some []"
proof -
  have "list_all (\<lambda>r. parse_prefix (rt_prefix r) \<noteq> None) (wl_routes w)"
    using assms(1) by (auto simp: workload_ok_def check_routes_ok list_all_iff)
  from select_route_spec [OF this, of "- 1" a "[]"] assms(2) nth_mem show ?thesis by fastforce
qed

definition forbidden_list :: "pfx list" where
  "forbidden_list =
     map (\<lambda>(n, b). \<lparr>pfx_addr = Addr4 n, pfx_bits = b\<rparr>)
       [(0, 8), (0x0A000000, 8), (0x64400000, 10), (0x7F000000, 8), (0xA9FE0000, 16), (0xAC100000, 12), (0xC0000000, 24),
        (0xC0A80000, 16), (0xC6120000, 15), (0xE0000000, 4), (0xF0000000, 4)] @
     map (\<lambda>(n, b). \<lparr>pfx_addr = Addr6 n [], pfx_bits = b\<rparr>)
       [(0, 128), (1, 128), (0xFFFF00000000, 96), (0x02000000000000000000000000000000, 7), (0xFC000000000000000000000000000000, 7),
        (0xFE800000000000000000000000000000, 10), (0xFEC00000000000000000000000000000, 10), (0xFF000000000000000000000000000000, 8)]"

lemma forbidden_value: "forbiddenPrefixes = Some forbidden_list"
  by code_simp

text \<open>The reserved addresses as ranges of numbers.\<close>

definition reserved4 :: "(int \<times> int) list" where
  "reserved4 = [(0, 0x00FFFFFF), (0x0A000000, 0x0AFFFFFF), (0x64400000, 0x647FFFFF), (0x7F000000, 0x7FFFFFFF),
     (0xA9FE0000, 0xA9FEFFFF), (0xAC100000, 0xAC1FFFFF), (0xC0000000, 0xC00000FF), (0xC0A80000, 0xC0A8FFFF),
     (0xC6120000, 0xC613FFFF), (0xE0000000, 0xEFFFFFFF), (0xF0000000, 0xFFFFFFFF)]"

definition reserved6 :: "(int \<times> int) list" where
  "reserved6 = [(0, 0), (1, 1), (0xFFFF00000000, 0xFFFFFFFFFFFF),
     (0x02000000000000000000000000000000, 0x03FFFFFFFFFFFFFFFFFFFFFFFFFFFFFF),
     (0xFC000000000000000000000000000000, 0xFDFFFFFFFFFFFFFFFFFFFFFFFFFFFFFF),
     (0xFE800000000000000000000000000000, 0xFEBFFFFFFFFFFFFFFFFFFFFFFFFFFFFF),
     (0xFEC00000000000000000000000000000, 0xFEFFFFFFFFFFFFFFFFFFFFFFFFFFFFFF),
     (0xFF000000000000000000000000000000, 0xFFFFFFFFFFFFFFFFFFFFFFFFFFFFFFFF)]"

definition in_ranges :: "(int \<times> int) list \<Rightarrow> int \<Rightarrow> bool" where
  "in_ranges rs x = list_ex (\<lambda>(lo, hi). lo \<le> x \<and> x \<le> hi) rs"

lemma leading_range:
  fixes w n :: "'a::len word"
  assumes "uint n mod 2 ^ k = 0"
  shows "drop_bit k w = drop_bit k n \<longleftrightarrow> uint n \<le> uint w \<and> uint w \<le> uint n + (2 ^ k - 1)"
proof -
  have "uint (drop_bit k v) = uint v div 2 ^ k" for v :: "'a word"
  proof -
    have "uint (drop_bit k v) = drop_bit k (take_bit LENGTH('a) (uint v))" by (rule unsigned_drop_bit_eq)
    also have "take_bit LENGTH('a) (uint v) = uint v" by (rule take_bit_int_eq_self) simp_all
    also have "drop_bit k (uint v) = uint v div 2 ^ k" by (rule drop_bit_eq_div)
    finally show ?thesis .
  qed
  then have "drop_bit k w = drop_bit k n \<longleftrightarrow> uint w div 2 ^ k = uint n div 2 ^ k"
    unfolding word_uint_eq_iff by simp
  moreover have "uint w = 2 ^ k * (uint w div 2 ^ k) + uint w mod 2 ^ k" "uint n = 2 ^ k * (uint n div 2 ^ k)"
    using assms by (auto simp: mult_div_mod_eq)
  moreover have "0 \<le> uint w mod 2 ^ k" "uint w mod 2 ^ k < 2 ^ k" by simp_all
  moreover have "2 ^ k * a \<le> 2 ^ k * b + r \<and> 2 ^ k * b + r \<le> 2 ^ k * a + (2 ^ k - 1) \<longleftrightarrow> b = a"
    if "0 \<le> r" "r < 2 ^ k" for a b r :: int
  proof
    assume l: "2 ^ k * a \<le> 2 ^ k * b + r \<and> 2 ^ k * b + r \<le> 2 ^ k * a + (2 ^ k - 1)"
    have "2 ^ k * a < 2 ^ k * (b + 1)" "2 ^ k * b < 2 ^ k * (a + 1)" using l that by (simp_all add: algebra_simps)
    then have "a < b + 1" "b < a + 1" by (simp_all only: mult_less_cancel_left_pos zero_less_power zero_less_numeral)
    then show "b = a" by simp
  qed (use that in simp)
  ultimately show ?thesis by metis
qed

lemma contains_range:
  "uint n mod 2 ^ (32 - b) = 0 \<Longrightarrow>
    pfx_contains \<lparr>pfx_addr = Addr4 n, pfx_bits = b\<rparr> (Addr4 x) \<longleftrightarrow> uint n \<le> uint x \<and> uint x \<le> uint n + (2 ^ (32 - b) - 1)"
  "uint m mod 2 ^ (128 - b) = 0 \<Longrightarrow>
    pfx_contains \<lparr>pfx_addr = Addr6 m z, pfx_bits = b\<rparr> (Addr6 y []) \<longleftrightarrow> uint m \<le> uint y \<and> uint y \<le> uint m + (2 ^ (128 - b) - 1)"
  "\<not> pfx_contains \<lparr>pfx_addr = Addr6 m z, pfx_bits = b\<rparr> (Addr4 x)"
  "\<not> pfx_contains \<lparr>pfx_addr = Addr4 n, pfx_bits = b\<rparr> (Addr6 y z')"
  by (simp_all add: pfx_contains_iff leading_range)

lemma reserved_v4: "reserved (Addr4 x) \<longleftrightarrow> in_ranges reserved4 (uint x)"
  by (simp add: reserved_def forbidden_value forbidden_list_def reserved4_def in_ranges_def contains_range)

lemma reserved_v6: "reserved (Addr6 x []) \<longleftrightarrow> in_ranges reserved6 (uint x)"
  by (simp add: reserved_def forbidden_value forbidden_list_def reserved6_def in_ranges_def contains_range)

text \<open>C9. Where a connection of a validated workload goes: to the socket of the first route with the
  longest matching prefix, if a route matches; otherwise nowhere for a reserved destination; otherwise
  to the Internet socket if there is one and the port is declared; otherwise nowhere.\<close>

theorem target_decision:
  assumes "validate w0 = Ok w"
  shows "if list_ex (route_matches a) (wl_routes w)
    then \<exists>i. best_at a (wl_routes w) i \<and> target w a = Ok (rt_socket (wl_routes w ! i))
    else target w a =
      (if reserved (dp_addr a) then Fail ''undeclared private or reserved destination''
       else if wl_internet_socket w \<noteq> [] \<and> dp_port a \<in> set (wl_internet_ports w) then Ok (wl_internet_socket w)
       else Fail ''destination port is not authorized'')"
proof -
  have w: "workload_ok w" using assms by (auto simp: validate_Ok)
  show ?thesis
  proof (cases "list_ex (route_matches a) (wl_routes w)")
    case True
    then obtain r where "r \<in> set (wl_routes w)" "route_matches a r" by (auto simp: list_ex_iff)
    then obtain i where "best_at a (wl_routes w) i" "target w a = Ok (rt_socket (wl_routes w ! i))"
      by (rule target_routed [OF w])
    with True show ?thesis by auto
  next
    case False
    then have "select_route a (wl_routes w) [] (- 1) = Some []" by (intro target_unrouted [OF w]) (auto simp: list_ex_iff)
    with False show ?thesis by (auto simp: target_def reserved_def forbidden_value list_ex_iff)
  qed
qed

text \<open>A private, loopback, link-local, shared, benchmarking, multicast or otherwise reserved address, by number; for either
  family and also for IPv4 addresses mapped into IPv6. An address with a zone is not one that a destination can have.\<close>

definition in_reserved :: "addr \<Rightarrow> bool" where
  "in_reserved a =
     (case a of Addr4 x \<Rightarrow> in_ranges reserved4 (uint x) | Addr6 x z \<Rightarrow> z = [] \<and> in_ranges reserved6 (uint x) | AddrInvalid \<Rightarrow> False)"

text \<open>C10. No undeclared way into a private network: a destination in a private or reserved range is reachable exactly through
  a route of the workload that matches it, and refused otherwise. What no route matches is forwarded to the Internet socket
  only, on a declared port, and only when its address is in none of those ranges.\<close>

theorem internet_egress_public:
  assumes "validate w0 = Ok w"
  shows "if list_ex (route_matches a) (wl_routes w)
    then target w a = Ok s \<longleftrightarrow> (\<exists>i. best_at a (wl_routes w) i \<and> s = rt_socket (wl_routes w ! i))
    else (in_reserved (dp_addr a) \<longrightarrow> target w a = Fail ''undeclared private or reserved destination'') \<and>
      (target w a = Ok s \<longrightarrow> s = wl_internet_socket w \<and> dp_port a \<in> set (wl_internet_ports w) \<and> \<not> in_reserved (dp_addr a))"
proof -
  have w: "workload_ok w" using assms by (auto simp: validate_Ok)
  have res: "in_reserved (dp_addr a) \<Longrightarrow> reserved (dp_addr a)"
    using reserved_v4 reserved_v6 by (auto simp: in_reserved_def split: addr.splits)
  show ?thesis
  proof (cases "list_ex (route_matches a) (wl_routes w)")
    case True
    then obtain r where "r \<in> set (wl_routes w)" "route_matches a r" by (auto simp: list_ex_iff)
    then obtain i where i: "best_at a (wl_routes w) i" "target w a = Ok (rt_socket (wl_routes w ! i))"
      by (rule target_routed [OF w])
    have uniq: "j = i" if "best_at a (wl_routes w) j" for j
      using that i(1) unfolding best_at_def by (metis linorder_neqE_nat not_less)
    have "target w a = Ok s \<longleftrightarrow> (\<exists>j. best_at a (wl_routes w) j \<and> s = rt_socket (wl_routes w ! j))"
    proof
      assume "target w a = Ok s"
      then have "s = rt_socket (wl_routes w ! i)" using i(2) by simp
      then show "\<exists>j. best_at a (wl_routes w) j \<and> s = rt_socket (wl_routes w ! j)" using i(1) by blast
    next
      assume "\<exists>j. best_at a (wl_routes w) j \<and> s = rt_socket (wl_routes w ! j)"
      then obtain j where "best_at a (wl_routes w) j" "s = rt_socket (wl_routes w ! j)" by blast
      then show "target w a = Ok s" using uniq [of j] i(2) by simp
    qed
    then show ?thesis by (simp only: if_P [OF True])
  next
    case False
    then have "select_route a (wl_routes w) [] (- 1) = Some []" by (intro target_unrouted [OF w]) (auto simp: list_ex_iff)
    with False res show ?thesis by (auto simp: target_def reserved_def forbidden_value list_ex_iff split: if_splits)
  qed
qed

lemma ex_targets_eval:
  "target (wl_fill ex_workload) \<lparr>dp_addr = Addr4 0x0A010203, dp_port = 5432\<rparr> = Ok ''/run/db2/db.sock''"
  "target (wl_fill ex_workload) \<lparr>dp_addr = Addr4 0x01010101, dp_port = 443\<rparr> = Ok ''/run/egress/proxy.sock''"
  "target (wl_fill ex_workload) \<lparr>dp_addr = Addr4 0x0A020203, dp_port = 443\<rparr> = Fail ''undeclared private or reserved destination''"
  unfolding target_def forbidden_value by code_simp+

lemma ex_valid: "validate ex_workload = Ok (wl_fill ex_workload)"
  using ex_workload_valid by (auto simp: is_ok_iff validate_Ok)

theorem target_decision_witness:
  "\<exists>i. best_at \<lparr>dp_addr = Addr4 0x0A010203, dp_port = 5432\<rparr> (wl_routes ex_workload) i \<and>
    rt_socket (wl_routes ex_workload ! i) = ''/run/db2/db.sock''"
proof -
  have "list_ex (route_matches \<lparr>dp_addr = Addr4 0x0A010203, dp_port = 5432\<rparr>) (wl_routes (wl_fill ex_workload))" by code_simp
  with target_decision [OF ex_valid, of "\<lparr>dp_addr = Addr4 0x0A010203, dp_port = 5432\<rparr>"] ex_targets_eval(1)
  show ?thesis by auto
qed

theorem internet_egress_public_witness:
  "target (wl_fill ex_workload) \<lparr>dp_addr = Addr4 0x01010101, dp_port = 443\<rparr> = Ok ''/run/egress/proxy.sock'' \<and> \<not> in_reserved (Addr4 0x01010101) \<and>
    target (wl_fill ex_workload) \<lparr>dp_addr = Addr4 0x0A010203, dp_port = 443\<rparr> = Fail ''undeclared private or reserved destination''"
proof -
  have "\<not> list_ex (route_matches \<lparr>dp_addr = Addr4 0x01010101, dp_port = 443\<rparr>) (wl_routes (wl_fill ex_workload))"
    "\<not> list_ex (route_matches \<lparr>dp_addr = Addr4 0x0A010203, dp_port = 443\<rparr>) (wl_routes (wl_fill ex_workload))" by code_simp+
  moreover have "in_reserved (Addr4 0x0A010203)" by (simp add: in_reserved_def in_ranges_def reserved4_def)
  ultimately show ?thesis
    using internet_egress_public [OF ex_valid, of "\<lparr>dp_addr = Addr4 0x01010101, dp_port = 443\<rparr>" "''/run/egress/proxy.sock''"] ex_targets_eval(2)
      internet_egress_public [OF ex_valid, of "\<lparr>dp_addr = Addr4 0x0A010203, dp_port = 443\<rparr>"] by simp
qed

section \<open>A loaded configuration\<close>

lemma validate_all_ok:
  "validate_all seen sockets directories ws = Ok ws' \<Longrightarrow>
    list_all (\<lambda>w. validate w = Ok w) ws' \<and> length ws' = length ws \<and>
    distinct (map wl_name ws') \<and> set (map wl_name ws') \<inter> set seen = {} \<and>
    distinct (map wl_socket ws') \<and> set (map wl_socket ws') \<inter> set sockets = {} \<and>
    distinct (map (path_dir \<circ> wl_socket) ws') \<and> set (map (path_dir \<circ> wl_socket) ws') \<inter> set directories = {}"
proof (induction ws arbitrary: seen sockets directories ws')
  case (Cons w ws)
  then obtain w' ws1 where w: "validate w = Ok w'" "ws' = w' # ws1"
    "wl_name w' \<notin> set seen" "wl_socket w' \<notin> set sockets" "path_dir (wl_socket w') \<notin> set directories"
    "validate_all (wl_name w' # seen) (wl_socket w' # sockets) (path_dir (wl_socket w') # directories) ws = Ok ws1"
    by (auto split: sum.splits if_splits)
  have "validate w' = Ok w'" using w(1) by (auto simp: validate_Ok)
  with Cons.IH [OF w(6)] w show ?case by auto
qed simp

lemma decodeConfig_ok:
  assumes "decodeConfig data = Ok c"
  shows "\<exists>c2 ws. validate_all [] [] [] (cf_workloads c2) = Ok ws \<and> c = c2\<lparr>cf_workloads := ws\<rparr> \<and>
    path_is_abs (cf_namespace_tool c2) \<and> path_is_abs (cf_network_tool c2) \<and> path_is_abs (cf_ca_bundle c2)"
proof -
  from assms obtain j rest where "json_next (take (2 ^ 20) data) = Some (j, rest)"
    by (cases "json_next (take (2 ^ 20) data)") (auto simp: decodeConfig_def)
  note assms = assms [unfolded decodeConfig_def this option.case prod.case]
  then obtain c0 where c0: "dec_configuration j zero_configuration = Some c0"
    by (cases "dec_configuration j zero_configuration") auto
  note assms = assms [unfolded c0 option.case]
  define c1 where "c1 = c0\<lparr>cf_namespace_tool := (if cf_namespace_tool c0 = [] then ''/run/current-system/sw/bin/nsenter'' else cf_namespace_tool c0),
      cf_network_tool := (if cf_network_tool c0 = [] then ''/run/current-system/sw/bin/ip'' else cf_network_tool c0)\<rparr>"
  define c2 where "c2 = c1\<lparr>cf_ca_bundle := (if cf_ca_bundle c0 = [] then ''/etc/ssl/certs/ca-certificates.crt'' else cf_ca_bundle c0)\<rparr>"
  from assms have "path_is_abs (cf_network_tool c1)" "path_is_abs (cf_namespace_tool c1)" "path_is_abs (cf_ca_bundle c2)"
    and val: "(case validate_all [] [] [] (cf_workloads c2) of Inl e \<Rightarrow> Inl e | Inr ws \<Rightarrow> Ok (c2\<lparr>cf_workloads := ws\<rparr>)) = Ok c"
    unfolding Let_def c1_def [symmetric] c2_def [symmetric] by (simp_all split: if_split_asm)
  moreover from val obtain ws where "validate_all [] [] [] (cf_workloads c2) = Ok ws" "c = c2\<lparr>cf_workloads := ws\<rparr>"
    by (simp split: sum.split_asm)
  moreover have "cf_network_tool c2 = cf_network_tool c1" "cf_namespace_tool c2 = cf_namespace_tool c1"
    by (simp_all add: c2_def)
  ultimately show ?thesis by metis
qed

text \<open>C27. A configuration that loads has absolute tools and CA bundle, and workloads that are each valid
  and have distinct names, distinct control sockets and distinct directories for them.\<close>

theorem config_distinct:
  assumes "decodeConfig data = Ok c"
  shows "path_is_abs (cf_namespace_tool c) \<and> path_is_abs (cf_network_tool c) \<and> path_is_abs (cf_ca_bundle c) \<and>
    list_all (\<lambda>w. validate w = Ok w) (cf_workloads c) \<and> distinct (map wl_name (cf_workloads c)) \<and>
    distinct (map wl_socket (cf_workloads c)) \<and> distinct (map (path_dir \<circ> wl_socket) (cf_workloads c))"
proof -
  from decodeConfig_ok [OF assms] obtain c2 ws where "validate_all [] [] [] (cf_workloads c2) = Ok ws" "c = c2\<lparr>cf_workloads := ws\<rparr>"
    "path_is_abs (cf_namespace_tool c2)" "path_is_abs (cf_network_tool c2)" "path_is_abs (cf_ca_bundle c2)" by blast
  with validate_all_ok [OF this(1)] show ?thesis by simp
qed

definition ex_config_json :: json where
  "ex_config_json = JObj [(''workloads'', JArr [JObj [(''name'', JStr ''web''), (''user'', JStr ''web''), (''group'', JStr ''web''),
     (''workerUser'', JStr ''web-worker''), (''socket'', JStr ''/run/realm-agent/web/gate.sock'')]])]"

lemma ex_config_decodes: "is_ok (decodeConfig (json_print ex_config_json))"
proof -
  have safe: "json_safe ex_config_json" by code_simp
  have nxt: "json_next (json_print ex_config_json @ []) = Some (ex_config_json, [])"
    by (rule json_next_print [OF safe]) (simp add: json_follow_def)
  have "length (json_print ex_config_json) \<le> 300" by code_simp
  then have "length (json_print ex_config_json) \<le> 2 ^ 20" by simp
  then have "take (2 ^ 20) (json_print ex_config_json) = json_print ex_config_json" by (rule take_all)
  moreover have "is_ok (case dec_configuration ex_config_json zero_configuration of None \<Rightarrow> Inl (ErrLib [])
      | Some c \<Rightarrow> validate_all [] [] [] (cf_workloads c))" by code_simp
  moreover have "\<exists>ws. dec_configuration ex_config_json zero_configuration = Some (zero_configuration\<lparr>cf_workloads := ws\<rparr>)"
    by (simp add: ex_config_json_def dec_configuration_def dec_struct_def field_for_def dec_field_def dec_slice_def dec_workload_def dec_string_def)
      (rule exI, rule refl)
  ultimately show ?thesis
    using nxt by (auto simp: decodeConfig_def json_at_eof_def skip_ws_def zero_configuration_def path_is_abs_def has_prefix_def
        is_ok_iff Let_def split: sum.splits)
qed

theorem config_distinct_witness:
  "\<exists>c. decodeConfig (json_print ex_config_json) = Ok c \<and> distinct (map wl_name (cf_workloads c))"
  using ex_config_decodes config_distinct by (auto simp: is_ok_iff)

end
