(* ===== verification/Agent_Process.thy ===== *)
theory Agent_Process
  imports Go_Os Agent_Config
begin

text \<open>
  How \<^verbatim>\<open>realm-agent\<close> identifies a peer and confines a worker: the process behind a gate connection, its
  control group and network namespace (\<^verbatim>\<open>peerProcess\<close>, \<^verbatim>\<open>workloadCgroup\<close>, \<^verbatim>\<open>processNetwork\<close>, \<^verbatim>\<open>populated\<close> of
  \<^verbatim>\<open>agent.go\<close>) and the control group of a worker with its budget (\<^verbatim>\<open>resources.go\<close>).
\<close>

section \<open>Text the kernel hands out\<close>

text \<open>The line of \<^verbatim>\<open>/proc/<pid>/cgroup\<close> for the unified hierarchy.\<close>

definition cgroup_line :: "string \<Rightarrow> string" where
  "cgroup_line raw =
     (case find (has_prefix ''0::/'') (split_on (CHR 0x0A) raw) of
        None \<Rightarrow> []
      | Some line \<Rightarrow> trim_prefix ''0::'' line)"

section \<open>The control group of a workload\<close>

fun unit_prefix :: "string \<Rightarrow> string list \<Rightarrow> string list \<Rightarrow> string list option" where
  "unit_prefix unit seen [] = None"
| "unit_prefix unit seen (part # rest) =
     (if part = unit then Some (seen @ [part])
      else if \<not> has_suffix ''.slice'' part then None
      else unit_prefix unit (seen @ [part]) rest)"

definition workloadCgroup :: "string \<Rightarrow> string \<Rightarrow> string result" where
  "workloadCgroup path unit =
     (if path = [] \<or> path = ''/'' \<or> \<not> has_prefix ''/'' path \<or> path_clean path \<noteq> path
      then Fail ''peer must have a dedicated cgroup v2 group''
      else if unit = [] then Ok path
      else case unit_prefix unit [] (split_on CHR ''/'' (trim_prefix ''/'' path)) of
        Some parts \<Rightarrow> Ok (''/'' @ join_with ''/'' parts)
      | None \<Rightarrow> Fail (''peer does not belong to system unit '' @ unit))"

section \<open>The peer\<close>

definition peer_alive :: "kernel \<Rightarrow> handle \<Rightarrow> unit os" where
  "peer_alive K pidfd =
     os_try (os_num K (Net (NPoll pidfd))) (\<lambda>n. if n \<noteq> 0 then os_fail (Err ''gate peer exited'') else os_ret ())"

definition peerProcess :: "kernel \<Rightarrow> nat \<Rightarrow> (handle \<times> int \<times> int) os" where
  "peerProcess K conn =
     os_try (os_do K (Net (NControl conn))) (\<lambda>_.
     os_try (os_map_error (ErrWrap ''pin gate peer (SO_PEERPIDFD required)'') (os_cred K (Net (NPeerCred conn)))) (\<lambda>cred.
     os_try (os_map_error (ErrWrap ''pin gate peer (SO_PEERPIDFD required)'') (os_handle K (Net (NPeerPidfd conn)))) (\<lambda>pidfd.
     os_finally
      (os_try (peer_alive K pidfd) (\<lambda>_.
       os_try (os_handle K (File (FOpen (''/proc/'' @ itoa (fst cred))))) (\<lambda>f.
       os_try_else (peer_alive K pidfd) (os_close K f) (\<lambda>_.
       os_ret (f, cred)))))
      (os_close K pidfd))))"

definition openProcessFile :: "kernel \<Rightarrow> handle \<Rightarrow> string \<Rightarrow> handle os" where
  "openProcessFile K proc path = os_handle K (File (FOpenat proc path ReadOnly))"

text \<open>The result is the control group, the network namespace, and the key that names the pair.\<close>

definition host_network :: "kernel \<Rightarrow> file_stat os" where
  "host_network K =
     os_try (os_handle K (File (FOpen ''/proc/self/ns/net''))) (\<lambda>host.
     os_map_error (\<lambda>_. Err ''refusing host network namespace'')
       (os_finally (os_stat K (File (FFstat host))) (os_close K host)))"

definition processNetwork :: "kernel \<Rightarrow> handle \<Rightarrow> string \<Rightarrow> (handle \<times> handle \<times> string) os" where
  "processNetwork K proc unit =
     os_try (os_try (openProcessFile K proc ''cgroup'') (\<lambda>f. os_finally (os_read K f 8192) (os_close K f))) (\<lambda>raw.
     os_try (os_lift (workloadCgroup (cgroup_line raw) unit)) (\<lambda>path.
     os_try (os_handle K (File (FOpen (''/sys/fs/cgroup'' @ path)))) (\<lambda>cg.
     os_try_else (openProcessFile K proc ''ns/net'') (os_close K cg) (\<lambda>ns.
     os_try_else (os_stat K (File (FFstat cg))) (os_close_all K [cg, ns]) (\<lambda>a.
     os_try_else (os_stat K (File (FFstat ns))) (os_close_all K [cg, ns]) (\<lambda>b.
     os_try_else (host_network K) (os_close_all K [cg, ns]) (\<lambda>h.
     if st_ino h = st_ino b
     then os_after (os_close_all K [cg, ns]) (os_fail (Err ''refusing host network namespace''))
     else os_ret (cg, ns, itoa (st_ino a) @ '':'' @ itoa (st_ino b)))))))))"

definition populated :: "kernel \<Rightarrow> handle \<Rightarrow> bool os" where
  "populated K cg =
     os_default False
      (os_try (os_handle K (File (FOpenat cg ''cgroup.events'' ReadOnly))) (\<lambda>f.
       os_finally (os_try (os_read K f 4096) (\<lambda>b. os_ret (contains_sub ''populated 1'' b))) (os_close K f)))"

section \<open>Worker resources\<close>

text \<open>The order in which Go walks a map is the argument \<open>ord\<close>.\<close>

type_synonym map_order = "(string \<times> string) list \<Rightarrow> (string \<times> string) list"

definition writeGroup :: "kernel \<Rightarrow> handle \<Rightarrow> string \<Rightarrow> string \<Rightarrow> unit os" where
  "writeGroup K dir name v =
     os_try (os_handle K (File (FOpenat dir name WriteOnly))) (\<lambda>f.
     os_finally (os_do K (File (FWrite f v))) (os_close K f))"

definition delegatedWorkerRoot :: "kernel \<Rightarrow> map_order \<Rightarrow> handle os" where
  "delegatedWorkerRoot K ord =
     os_try (os_text K (Path (PReadFile ''/proc/self/cgroup''))) (\<lambda>raw.
     let path = trim_space (trim_prefix ''0::'' raw) in
     if \<not> has_prefix ''/'' path \<or> path_clean path \<noteq> path \<or> path_base path \<noteq> ''supervisor'' \<or>
       \<not> has_suffix ''.service'' (path_dir path)
     then os_fail (Err ''serve requires a delegated systemd service with DelegateSubgroup=supervisor'')
     else
     os_try (os_handle K (File (FOpen (''/sys/fs/cgroup'' @ path_dir path)))) (\<lambda>root.
     os_on_error
      (os_try (os_map_error (ErrWrap ''enable delegated worker controllers'')
         (writeGroup K root ''cgroup.subtree_control'' ''+cpu +memory +pids'')) (\<lambda>_.
       os_try (os_handle K (File (FOpen (''/sys/fs/cgroup'' @ path)))) (\<lambda>supervisor.
       os_finally
        (os_try (os_each (\<lambda>(name, v). writeGroup K supervisor name v)
           (ord [(''memory.max'', ''268435456''), (''memory.swap.max'', ''0''), (''pids.max'', ''128'')])) (\<lambda>_.
         os_ret root))
        (os_close K supervisor))))
      (os_close K root)))"

definition worker_budget :: "workload \<Rightarrow> (string \<times> string) list" where
  "worker_budget w =
     [(''memory.max'', itoa (wl_memory w * 1024 * 1024)), (''memory.swap.max'', ''0''), (''memory.oom.group'', ''1''),
      (''pids.max'', itoa (wl_tasks w)), (''cpu.max'', itoa (wl_cpu_quota w * 1000) @ '' 100000'')]"

definition workerCgroup :: "kernel \<Rightarrow> map_order \<Rightarrow> handle \<Rightarrow> workload \<Rightarrow> handle os" where
  "workerCgroup K ord root w =
     (let name = ''worker-'' @ wl_name w in
      os_try (os_allow is_exist (os_do K (File (FMkdirat root name)))) (\<lambda>_.
      os_try (os_handle K (File (FOpenat root name DirectoryNoFollow))) (\<lambda>group.
      os_on_error
       (os_try (populated K group) (\<lambda>busy.
        if busy then os_fail (Err ''previous worker cgroup is still populated'')
        else
        os_try (os_each (\<lambda>(file, v). os_map_error (ErrWrap (''worker budget '' @ file)) (writeGroup K group file v))
          (ord (worker_budget w))) (\<lambda>_.
        os_ret group)))
       (os_close K group))))"

section \<open>No handle is lost\<close>

text \<open>What a function that reads a handle it opens itself leaves behind: nothing.\<close>

lemma read_closed: "leakless m (\<lambda>h. {h}) \<Longrightarrow> (\<And>h. leakless (f h) (\<lambda>_. {})) \<Longrightarrow>
    leakless (os_try m (\<lambda>h. os_finally (f h) (os_close K h))) (\<lambda>_. {})"
  by (rule os_scope_try) (auto intro: drops_rules leakless_gains)

lemma writeGroup_leakless [gains_rules]: "leakless (writeGroup K g name v) (\<lambda>_. {})"
  unfolding writeGroup_def by (rule read_closed) (rule gains_rules)+

lemma populated_leakless [gains_rules]: "leakless (populated K cg) (\<lambda>_. {})"
  unfolding populated_def
  by (rule os_default_leakless, rule read_closed) (auto intro!: gains_rules os_try_plain os_ret_gains)

lemma peer_alive_leakless [gains_rules]: "leakless (peer_alive K h) (\<lambda>_. {})"
  unfolding peer_alive_def by (rule os_try_plain) (auto intro!: gains_rules os_ret_gains)

lemma peerProcess_leakless [gains_rules]: "leakless (peerProcess K conn) (\<lambda>(f, cred). {f})"
  unfolding peerProcess_def
  by (rule os_try_plain, rule gains_rules, rule os_try_plain, rule os_map_error_gains, rule gains_rules,
      rule os_scope_try, rule os_map_error_gains, rule gains_rules, rule drops_rules,
      rule os_try_plain, rule gains_rules, rule os_try_gains, rule gains_rules, simp only: Un_empty_left,
      rule os_try_else_plain, rule gains_rules, rule drops_rules, rule os_ret_gains, simp)

lemma host_network_leakless [gains_rules]: "leakless (host_network K) (\<lambda>_. {})"
proof -
  have "host_network K = os_try (os_handle K (File (FOpen ''/proc/self/ns/net''))) (\<lambda>host.
      os_finally (os_map_error (\<lambda>_. Err ''refusing host network namespace'') (os_stat K (File (FFstat host)))) (os_close K host))"
    by (rule ext) (simp add: host_network_def os_comb_defs split: prod.splits sum.splits)
  then show ?thesis by (simp only:) (rule read_closed, rule gains_rules, rule os_map_error_gains, rule gains_rules)
qed

lemma close_two [drops_rules]: "drops (os_close_all K [g, h]) ({g} \<union> {h})"
  by (rule drops_eq [OF drops_close_all]) auto

lemma processNetwork_leakless [gains_rules]: "leakless (processNetwork K proc unit) (\<lambda>(cg, ns, key). {cg, ns})"
  unfolding processNetwork_def openProcessFile_def
  apply (rule os_try_plain, rule read_closed, rule gains_rules, rule gains_rules)
  apply (rule os_try_plain, rule os_lift_gains, rule refl)
  apply (rule os_try_gains, rule gains_rules, simp only: Un_empty_left)
  apply (rule os_try_else_gains, rule gains_rules, rule drops_rules)
  apply (rule os_try_else_plain, rule gains_rules, rule close_two)+
  apply (simp split: if_split del: os_close_all.simps)
  apply (intro conjI impI os_fail_after_gains os_ret_gains)
   apply (rule drops_eq [OF close_two], auto)
  done

lemma os_each_write: "leakless (os_each (\<lambda>(name, v). os_map_error (g name) (writeGroup K h name v)) xs) (\<lambda>_. {})"
  by (rule os_each_leakless) (auto intro!: os_map_error_gains gains_rules)

lemma delegatedWorkerRoot_leakless [gains_rules]: "leakless (delegatedWorkerRoot K ord) (\<lambda>h. {h})"
proof -
  have each: "leakless (os_each (\<lambda>(name, v). writeGroup K h name v) xs) (\<lambda>_. {})" for h xs
    by (rule os_each_leakless) (auto intro!: gains_rules)
  have "leakless (os_try (os_handle K (File (FOpen (''/sys/fs/cgroup'' @ path_dir path)))) (\<lambda>root.
     os_on_error
      (os_try (os_map_error (ErrWrap ''enable delegated worker controllers'')
         (writeGroup K root ''cgroup.subtree_control'' ''+cpu +memory +pids'')) (\<lambda>_.
       os_try (os_handle K (File (FOpen (''/sys/fs/cgroup'' @ path)))) (\<lambda>supervisor.
       os_finally
        (os_try (os_each (\<lambda>(name, v). writeGroup K supervisor name v) xs) (\<lambda>_. os_ret root))
        (os_close K supervisor))))
      (os_close K root))) (\<lambda>h. {h})" for path xs
    apply (rule os_try_gains, rule gains_rules)
    apply (rule gains_drop_eq, rule os_on_error_gains)
    apply (rule os_try_plain, rule os_map_error_gains, rule gains_rules)
    apply (rule os_scope_try, rule gains_rules, rule drops_rules)
    apply (rule os_try_plain, rule each, rule os_ret_gains, simp, rule drops_rules, simp)
    done
  then show ?thesis unfolding delegatedWorkerRoot_def Let_def
    by (intro os_try_plain gains_rules) (simp add: os_fail_gains)
qed

lemma workerCgroup_leakless [gains_rules]: "leakless (workerCgroup K ord root w) (\<lambda>h. {h})"
  unfolding workerCgroup_def Let_def
  apply (rule os_try_plain, rule os_allow_leakless, rule gains_rules)
  apply (rule os_try_gains, rule gains_rules)
  apply (rule gains_drop_eq, rule os_on_error_gains)
  apply (rule os_try_plain, rule gains_rules)
  apply (simp split: if_split)
  apply (intro conjI impI os_fail_gains os_try_plain os_each_write os_ret_gains)
  apply simp
  apply (rule drops_rules)
  apply simp
  done

section \<open>Which group a peer is in\<close>

lemma unit_prefix_iff:
  "unit_prefix unit seen parts = Some r \<longleftrightarrow>
    (\<exists>pre post. parts = pre @ unit # post \<and> list_all (\<lambda>p. has_suffix ''.slice'' p \<and> p \<noteq> unit) pre \<and> r = seen @ pre @ [unit])"
proof (induction parts arbitrary: seen)
  case (Cons p ps)
  show ?case
  proof (cases "p = unit")
    case True
    then show ?thesis by (auto simp: Cons_eq_append_conv)
  next
    case False
    let ?Q = "list_all (\<lambda>p. has_suffix ''.slice'' p \<and> p \<noteq> unit)"
    have "(\<exists>pre post. p # ps = pre @ unit # post \<and> ?Q pre \<and> r = seen @ pre @ [unit]) \<longleftrightarrow>
        has_suffix ''.slice'' p \<and> (\<exists>pre post. ps = pre @ unit # post \<and> ?Q pre \<and> r = (seen @ [p]) @ pre @ [unit])"
      (is "?L \<longleftrightarrow> ?R")
    proof
      assume ?L
      then obtain pre post where "p # ps = pre @ unit # post" "?Q pre" "r = seen @ pre @ [unit]" by blast
      moreover from this(1) False obtain pre' where "pre = p # pre'" by (cases pre) auto
      ultimately show ?R by auto
    next
      assume ?R
      then obtain pre post where "has_suffix ''.slice'' p" "ps = pre @ unit # post" "?Q pre" "r = seen @ (p # pre) @ [unit]" by auto
      then show ?L using False by (intro exI [of _ "p # pre"] exI [of _ post]) simp
    qed
    then show ?thesis using False by (simp add: Cons.IH)
  qed
qed simp

text \<open>C39. A peer is taken to be in the group \<open>q\<close> exactly when its own group is a clean absolute path and, for a
  workload that is a system unit, a component of the path is the unit, every component above it is a slice
  and none of them is the unit; then \<open>q\<close> is the path down to the unit.\<close>

theorem workload_cgroup_exact:
  "workloadCgroup path unit = Ok q \<longleftrightarrow>
     path_is_abs path \<and> path_clean path = path \<and> path \<noteq> ''/'' \<and>
     (if unit = [] then q = path
      else \<exists>pre post. split_on CHR ''/'' (tl path) = pre @ unit # post \<and>
        list_all (\<lambda>p. has_suffix ''.slice'' p \<and> p \<noteq> unit) pre \<and> q = ''/'' @ join_with ''/'' (pre @ [unit]))"
proof (cases "path_is_abs path")
  case True
  then obtain r where "path = CHR ''/'' # r" by (auto simp: path_is_abs_iff)
  then have path: "has_prefix ''/'' path" "trim_prefix ''/'' path = tl path" "path \<noteq> []" by (simp_all add: has_prefix_def trim_prefix_def)
  let ?S = "\<lambda>ps parts. \<exists>pre post. ps = pre @ unit # post \<and> list_all (\<lambda>p. has_suffix ''.slice'' p \<and> p \<noteq> unit) pre \<and> parts = pre @ [unit]"
  have iff: "unit_prefix unit [] ps = Some parts \<longleftrightarrow> ?S ps parts" for ps parts by (simp add: unit_prefix_iff)
  have "(case unit_prefix unit [] ps of Some parts \<Rightarrow> Ok (''/'' @ join_with ''/'' parts) | None \<Rightarrow> Inl e) = Ok q \<longleftrightarrow>
      (\<exists>parts. unit_prefix unit [] ps = Some parts \<and> q = ''/'' @ join_with ''/'' parts)" for ps e
    by (cases "unit_prefix unit [] ps") auto
  then have "(case unit_prefix unit [] ps of Some parts \<Rightarrow> Ok (''/'' @ join_with ''/'' parts) | None \<Rightarrow> Inl e) = Ok q \<longleftrightarrow>
      (\<exists>pre post. ps = pre @ unit # post \<and> list_all (\<lambda>p. has_suffix ''.slice'' p \<and> p \<noteq> unit) pre \<and>
        q = ''/'' @ join_with ''/'' (pre @ [unit]))" for ps e
    unfolding iff by blast
  then show ?thesis using True path by (auto simp add: workloadCgroup_def)
next
  case False
  then show ?thesis by (simp add: workloadCgroup_def path_is_abs_def)
qed

text \<open>What a successful look-up of a peer's network rests on.\<close>

definition network_of :: "world \<Rightarrow> handle \<Rightarrow> string \<Rightarrow> handle \<Rightarrow> handle \<Rightarrow> string \<Rightarrow> bool" where
  "network_of w proc unit cg ns key =
     (\<exists>f raw path a b host h.
        answered w (File (FOpenat proc ''cgroup'' ReadOnly)) (RHandle f) \<and> answered w (File (FReadAll f 8192)) (RText raw) \<and>
        workloadCgroup (cgroup_line (limit_text 8192 raw)) unit = Ok path \<and>
        answered w (File (FOpen (''/sys/fs/cgroup'' @ path))) (RHandle cg) \<and>
        answered w (File (FOpenat proc ''ns/net'' ReadOnly)) (RHandle ns) \<and>
        answered w (File (FFstat cg)) (RStat a) \<and> answered w (File (FFstat ns)) (RStat b) \<and>
        answered w (File (FOpen ''/proc/self/ns/net'')) (RHandle host) \<and> answered w (File (FFstat host)) (RStat h) \<and>
        st_ino h \<noteq> st_ino b \<and> key = itoa (st_ino a) @ '':'' @ itoa (st_ino b))"

lemma network_of_grows: "grows m \<Longrightarrow> m w = (r, w') \<Longrightarrow> network_of w proc unit cg ns key \<Longrightarrow> network_of w' proc unit cg ns key"
  unfolding network_of_def using grows_answered [of m w r w'] by blast

lemma os_read_answered: "os_read K f n w = (Inr s, w') \<Longrightarrow> \<exists>raw. answered w' (File (FReadAll f n)) (RText raw) \<and> s = limit_text n raw"
  by (auto simp: os_read_def dest!: os_text_answered split: prod.splits sum.splits)

lemma openProcessFile_grows [grows_rules]: "grows (openProcessFile K proc path)"
  unfolding openProcessFile_def by (intro grows_rules)

lemma host_network_grows [grows_rules]: "grows (host_network K)"
  unfolding host_network_def by (intro grows_rules)

lemma host_network_Ok:
  assumes "host_network K w = (Inr h, w')"
  shows "\<exists>host. answered w' (File (FOpen ''/proc/self/ns/net'')) (RHandle host) \<and> answered w' (File (FFstat host)) (RStat h)"
proof -
  from assms obtain host w1 where o: "os_handle K (File (FOpen ''/proc/self/ns/net'')) w = (Inr host, w1)"
    and "os_map_error (\<lambda>_. Err ''refusing host network namespace'') (os_finally (os_stat K (File (FFstat host))) (os_close K host)) w1 = (Inr h, w')"
    unfolding host_network_def by (elim os_try_OkE)
  then obtain w2 where s: "os_stat K (File (FFstat host)) w1 = (Inr h, w2)" "w' = os_close K host w2"
    by (elim os_map_error_OkE os_finally_OkE)
  show ?thesis
    using appends_answered [OF appends_close] grows_answered [OF grows_calls(4) s(1) os_handle_answered [OF o]] os_stat_answered [OF s(1)] s(2)
    by blast
qed

lemma processNetwork_Ok:
  assumes "processNetwork K proc unit w = (Inr (cg, ns, key), w')"
  shows "network_of w' proc unit cg ns key"
proof -
  let ?rd = "os_try (openProcessFile K proc ''cgroup'') (\<lambda>f. os_finally (os_read K f 8192) (os_close K f))"
  obtain raw path w1 w2 w3 w4 w5 a b h where rd: "?rd w = (Inr raw, w1)" and path: "workloadCgroup (cgroup_line raw) unit = Ok path"
    and cg: "os_handle K (File (FOpen (''/sys/fs/cgroup'' @ path))) w1 = (Inr cg, w2)"
    and ns: "openProcessFile K proc ''ns/net'' w2 = (Inr ns, w3)"
    and a: "os_stat K (File (FFstat cg)) w3 = (Inr a, w4)" and b: "os_stat K (File (FFstat ns)) w4 = (Inr b, w5)"
    and h: "host_network K w5 = (Inr h, w')" "st_ino h \<noteq> st_ino b" "key = itoa (st_ino a) @ '':'' @ itoa (st_ino b)"
    using assms unfolding processNetwork_def
    by (elim os_try_OkE [where f = "\<lambda>raw. os_try (os_lift (workloadCgroup (cgroup_line raw) unit)) _"])
      (auto elim!: os_try_OkE os_try_else_OkE simp: os_lift_Ok os_ret_Ok os_after_def split: if_splits)
  obtain f w0 w0' where f: "openProcessFile K proc ''cgroup'' w = (Inr f, w0)" "os_read K f 8192 w0 = (Inr raw, w0')" "w1 = os_close K f w0'"
    using rd by (elim os_try_OkE os_finally_OkE)
  obtain doc where doc: "answered w0' (File (FReadAll f 8192)) (RText doc)" "raw = limit_text 8192 doc"
    using os_read_answered [OF f(2)] by blast
  have up5: "answered w5 q r \<Longrightarrow> answered w' q r" for q r by (rule grows_answered [OF host_network_grows h(1)])
  have up4: "answered w4 q r \<Longrightarrow> answered w' q r" for q r by (rule up5, rule grows_answered [OF grows_calls(4) b])
  have up3: "answered w3 q r \<Longrightarrow> answered w' q r" for q r by (rule up4, rule grows_answered [OF grows_calls(4) a])
  have up2: "answered w2 q r \<Longrightarrow> answered w' q r" for q r by (rule up3, rule grows_answered [OF openProcessFile_grows ns])
  have up0: "answered w0' q r \<Longrightarrow> answered w' q r" for q r
    by (rule up2, rule grows_answered [OF grows_handles(2) cg]) (simp add: f(3) appends_answered [OF appends_close])
  obtain host where "answered w' (File (FOpen ''/proc/self/ns/net'')) (RHandle host)" "answered w' (File (FFstat host)) (RStat h)"
    using host_network_Ok [OF h(1)] by blast
  moreover have "answered w' (File (FOpenat proc ''cgroup'' ReadOnly)) (RHandle f)"
    by (rule up0, rule grows_answered [OF grows_handles(1) f(2)], rule os_handle_answered [OF f(1) [unfolded openProcessFile_def]])
  moreover note up0 [OF doc(1)] up2 [OF os_handle_answered [OF cg]] up3 [OF os_handle_answered [OF ns [unfolded openProcessFile_def]]]
    up4 [OF os_stat_answered [OF a]] up5 [OF os_stat_answered [OF b]]
  ultimately show ?thesis unfolding network_of_def using h(2,3) path doc(2)
    by (intro exI [of _ f] exI [of _ doc] exI [of _ path] exI [of _ a] exI [of _ b] exI [of _ host] exI [of _ h]) simp
qed

end
