(* ===== verification/Agent_Network.thy ===== *)
theory Agent_Network
  imports Agent_Process
begin

text \<open>
  \<^verbatim>\<open>realm-agent/network.go\<close>: what the controller demands of a workload's network namespace before it captures
  it, and the dummy interface it adds. The \<^verbatim>\<open>ip\<close> tool is run inside the namespace; what it prints is the
  answer of the kernel to \<open>CRun\<close>, decoded as JSON.
\<close>

section \<open>The output of ip\<close>

record link_data =
  ld_local :: string
  ld_remote :: string
  ld_link :: int

record link_info =
  li_kind :: string
  li_data :: link_data

record namespaceLink =
  nl_name :: string
  nl_flags :: "string list"
  nl_immutable :: bool
  nl_info :: link_info

record address_info =
  ai_addresses :: "json list"

record route_info =
  ro_dst :: string
  ro_dev :: string

definition zero_link :: namespaceLink where
  "zero_link = \<lparr>nl_name = [], nl_flags = [], nl_immutable = False,
     nl_info = \<lparr>li_kind = [], li_data = \<lparr>ld_local = [], ld_remote = [], ld_link = 0\<rparr>\<rparr>\<rparr>"

definition dec_link_data :: "link_data jdec" where
  "dec_link_data = dec_struct False
     [(''local'', dec_field ld_local ld_local_update dec_string),
      (''remote'', dec_field ld_remote ld_remote_update dec_string),
      (''link'', dec_field ld_link ld_link_update dec_int64)]"

definition dec_link_info :: "link_info jdec" where
  "dec_link_info = dec_struct False
     [(''info_kind'', dec_field li_kind li_kind_update dec_string),
      (''info_data'', dec_field li_data li_data_update dec_link_data)]"

definition dec_link :: "namespaceLink jdec" where
  "dec_link = dec_struct False
     [(''ifname'', dec_field nl_name nl_name_update dec_string),
      (''flags'', dec_field nl_flags nl_flags_update (dec_slice [] dec_string)),
      (''netns-immutable'', dec_field nl_immutable nl_immutable_update dec_bool),
      (''linkinfo'', dec_field nl_info nl_info_update dec_link_info)]"

text \<open>An array of raw messages keeps every value.\<close>

definition dec_raw :: "json jdec" where
  "dec_raw j v = Some j"

definition dec_address :: "address_info jdec" where
  "dec_address = dec_struct False [(''addr_info'', dec_field ai_addresses ai_addresses_update (dec_slice JNull dec_raw))]"

definition dec_route_info :: "route_info jdec" where
  "dec_route_info = dec_struct False
     [(''dst'', dec_field ro_dst ro_dst_update dec_string),
      (''dev'', dec_field ro_dev ro_dev_update dec_string)]"

text \<open>\<^verbatim>\<open>json.Unmarshal\<close> into a nil slice.\<close>

definition unmarshal_list :: "'a \<Rightarrow> 'a jdec \<Rightarrow> string \<Rightarrow> 'a list result" where
  "unmarshal_list z d raw =
     (case json_next raw of
        None \<Rightarrow> Inl (ErrLib ''json'')
      | Some (j, rest) \<Rightarrow>
          if \<not> json_at_eof rest then Inl (ErrLib ''json'')
          else (case dec_slice z d j [] of None \<Rightarrow> Inl (ErrLib ''json'') | Some xs \<Rightarrow> Ok xs))"

definition links_of :: "string \<Rightarrow> namespaceLink list result" where
  "links_of = unmarshal_list zero_link dec_link"

definition addresses_of :: "string \<Rightarrow> address_info list result" where
  "addresses_of = unmarshal_list \<lparr>ai_addresses = []\<rparr> dec_address"

definition routes_of :: "string \<Rightarrow> route_info list result" where
  "routes_of = unmarshal_list \<lparr>ro_dst = [], ro_dev = []\<rparr> dec_route_info"

section \<open>What may be in a namespace\<close>

definition fallbackTunnelKinds :: "(string, string) gmap" where
  "fallbackTunnelKinds = [(''ip6tnl0'', ''ip6tnl''), (''gre0'', ''gre''), (''gretap0'', ''gretap''), (''erspan0'', ''erspan'')]"

definition unspecified :: "string \<Rightarrow> bool" where
  "unspecified s = (s = [] \<or> s = ''any'' \<or> s = ''::'')"

definition inertFallback :: "namespaceLink \<Rightarrow> bool" where
  "inertFallback l =
     (gm_get fallbackTunnelKinds (nl_name l) \<noteq> None \<and>
      Some (li_kind (nl_info l)) = gm_get fallbackTunnelKinds (nl_name l) \<and> nl_immutable l \<and>
      ''UP'' \<notin> set (nl_flags l) \<and> ld_link (li_data (nl_info l)) = 0 \<and>
      unspecified (ld_local (li_data (nl_info l))) \<and> unspecified (ld_remote (li_data (nl_info l))))"

definition ip_args :: "configuration \<Rightarrow> string list \<Rightarrow> string list" where
  "ip_args cfg args = [''--net=/proc/self/fd/3'', ''--'', cf_network_tool cfg] @ args"

definition run_ip :: "kernel \<Rightarrow> configuration \<Rightarrow> handle \<Rightarrow> string list \<Rightarrow> string os" where
  "run_ip K cfg ns args =
     os_map_error (ErrWrap (''private namespace ip ['' @ join_with '' '' args @ '']''))
       (os_text K (Proc (CRun (cf_namespace_tool cfg) ns (ip_args cfg args))))"

fun check_links :: "(string list \<Rightarrow> string os) \<Rightarrow> namespaceLink list \<Rightarrow> bool \<Rightarrow> string list \<Rightarrow> (bool \<times> string list) os" where
  "check_links ip [] found fallbacks = os_ret (found, fallbacks)"
| "check_links ip (l # ls) found fallbacks =
     (if nl_name l = ''lo'' then check_links ip ls found fallbacks
      else if inertFallback l then
        os_try (ip [''-j'', ''address'', ''show'', ''dev'', nl_name l]) (\<lambda>raw.
        os_try (os_lift (addresses_of raw)) (\<lambda>as.
        if length as \<noteq> 1 \<or> ai_addresses (hd as) \<noteq> []
        then os_fail (Err (''fallback tunnel '' @ nl_name l @ '' has addresses''))
        else check_links ip ls found (nl_name l # fallbacks)))
      else if nl_name l \<noteq> ''realm0'' \<or> li_kind (nl_info l) \<noteq> ''dummy''
      then os_fail (Err (''refusing namespace with external-capable interface '' @ nl_name l))
      else check_links ip ls True fallbacks)"

fun check_route_list :: "string list \<Rightarrow> route_info list \<Rightarrow> unit result" where
  "check_route_list fallbacks [] = Ok ()"
| "check_route_list fallbacks (r # rs) =
     (if ro_dev r \<in> set fallbacks then Fail (''fallback tunnel '' @ ro_dev r @ '' has routes'')
      else if ro_dst r = ''default'' then Fail ''private namespace must not have a default route''
      else check_route_list fallbacks rs)"

definition check_family :: "(string list \<Rightarrow> string os) \<Rightarrow> string list \<Rightarrow> string \<Rightarrow> unit os" where
  "check_family ip fallbacks family =
     os_try (ip [family, ''-j'', ''route'', ''show'', ''table'', ''all'']) (\<lambda>b.
     os_try (os_lift (routes_of b)) (\<lambda>rs.
     os_lift (check_route_list fallbacks rs)))"

definition realm0_commands :: "string list list" where
  "realm0_commands =
     [[''-4'', ''address'', ''replace'', ''192.0.2.254/32'', ''dev'', ''realm0''],
      [''-6'', ''address'', ''replace'', ''2001:db8::ffff/128'', ''dev'', ''realm0'', ''nodad''],
      [''link'', ''set'', ''realm0'', ''up'']]"

definition setupNetwork :: "kernel \<Rightarrow> configuration \<Rightarrow> handle \<Rightarrow> unit os" where
  "setupNetwork K cfg ns =
     (let ip = run_ip K cfg ns in
      os_try (ip [''-d'', ''-j'', ''link'', ''show'']) (\<lambda>raw.
      os_try (os_lift (links_of raw)) (\<lambda>links.
      os_try (check_links ip links False []) (\<lambda>(found, fallbacks).
      os_try (os_each (check_family ip fallbacks) [''-4'', ''-6'']) (\<lambda>_.
      os_try (if found then os_ret ()
              else os_try (ip [''link'', ''add'', ''realm0'', ''type'', ''dummy'']) (\<lambda>_. os_ret ())) (\<lambda>_.
      os_each (\<lambda>args. os_try (ip args) (\<lambda>_. os_ret ())) realm0_commands))))))"

section \<open>A namespace that passes\<close>

text \<open>What \<^verbatim>\<open>ip\<close> printed inside the namespace.\<close>

definition ip_said :: "configuration \<Rightarrow> handle \<Rightarrow> world \<Rightarrow> string list \<Rightarrow> string \<Rightarrow> bool" where
  "ip_said cfg ns w args out = answered w (Proc (CRun (cf_namespace_tool cfg) ns (ip_args cfg args))) (RText out)"

lemma run_ip_Ok: "run_ip K cfg ns args w = (Inr out, w') \<Longrightarrow> ip_said cfg ns w' args out"
  unfolding run_ip_def ip_said_def by (auto elim!: os_map_error_OkE dest: os_text_answered)

lemma run_ip_grows [grows_rules]: "grows (run_ip K cfg ns args)"
  unfolding run_ip_def by (intro grows_rules)

lemma run_ip_leakless [gains_rules]: "leakless (run_ip K cfg ns args) (\<lambda>_. {})"
  unfolding run_ip_def by (intro os_map_error_gains gains_rules)

lemma check_links_grows [grows_rules]: "grows (check_links (run_ip K cfg ns) ls found fb)"
  by (induction ls arbitrary: found fb) (auto intro!: grows_rules)

lemma check_links_leakless [gains_rules]: "leakless (check_links (run_ip K cfg ns) ls found fb) (\<lambda>_. {})"
proof (induction ls arbitrary: found fb)
  case Nil
  show ?case by (simp add: os_ret_gains)
next
  case (Cons l ls)
  then show ?case by (auto intro!: os_try_plain gains_rules os_lift_gains)
qed

lemma check_family_leakless [gains_rules]: "leakless (check_family (run_ip K cfg ns) fb fam) (\<lambda>_. {})"
  unfolding check_family_def by (intro os_try_plain gains_rules os_lift_gains refl)

lemma check_family_grows [grows_rules]: "grows (check_family (run_ip K cfg ns) fb fam)"
  unfolding check_family_def by (intro grows_rules)

lemma setupNetwork_leakless [gains_rules]: "leakless (setupNetwork K cfg ns) (\<lambda>_. {})"
  unfolding setupNetwork_def Let_def
  by (auto intro!: os_try_plain gains_rules os_lift_gains os_each_leakless os_ret_gains split: prod.splits)

lemma setupNetwork_grows [grows_rules]: "grows (setupNetwork K cfg ns)"
  unfolding setupNetwork_def Let_def by (auto intro!: grows_rules split: prod.splits)

definition link_safe :: "configuration \<Rightarrow> handle \<Rightarrow> world \<Rightarrow> string list \<Rightarrow> namespaceLink \<Rightarrow> bool" where
  "link_safe cfg ns w fallbacks l =
     (nl_name l = ''lo'' \<or>
      (inertFallback l \<and> nl_name l \<in> set fallbacks \<and>
       (\<exists>raw. ip_said cfg ns w [''-j'', ''address'', ''show'', ''dev'', nl_name l] raw \<and>
          addresses_of raw = Ok [\<lparr>ai_addresses = []\<rparr>])) \<or>
      (nl_name l = ''realm0'' \<and> li_kind (nl_info l) = ''dummy''))"

lemma ip_said_grows: "grows m \<Longrightarrow> m w = (r, w') \<Longrightarrow> ip_said cfg ns w args out \<Longrightarrow> ip_said cfg ns w' args out"
  unfolding ip_said_def by (rule grows_answered)

lemma link_safe_grows: "grows m \<Longrightarrow> m w = (r, w') \<Longrightarrow> link_safe cfg ns w fb l \<Longrightarrow> set fb \<subseteq> set fb' \<Longrightarrow> link_safe cfg ns w' fb' l"
  unfolding link_safe_def using ip_said_grows [of m w r w' cfg ns] by blast

lemma check_links_Ok:
  assumes "check_links (run_ip K cfg ns) ls found fb w = (Inr (found', fb'), w')"
  shows "set fb \<subseteq> set fb' \<and> list_all (link_safe cfg ns w' fb') ls"
  using assms
proof (induction ls arbitrary: found fb w)
  case Nil
  then show ?case by (simp add: os_ret_Ok)
next
  case (Cons l ls)
  consider "nl_name l = ''lo''" | "nl_name l \<noteq> ''lo''" "inertFallback l"
    | "nl_name l \<noteq> ''lo''" "\<not> inertFallback l" "nl_name l = ''realm0''" "li_kind (nl_info l) = ''dummy''"
    using Cons.prems by (force split: if_splits)
  then show ?case
  proof cases
    case 1
    with Cons.prems Cons.IH show ?thesis by (simp add: link_safe_def)
  next
    case 2
    with Cons.prems obtain raw w1 as w2 where raw: "run_ip K cfg ns [''-j'', ''address'', ''show'', ''dev'', nl_name l] w = (Inr raw, w1)"
      and as: "addresses_of raw = Inr as" and n: "length as = 1" "ai_addresses (hd as) = []"
      and rest: "check_links (run_ip K cfg ns) ls found (nl_name l # fb) w1 = (Inr (found', fb'), w')"
      by (auto elim!: os_try_OkE simp: os_lift_Ok split: if_splits)
    from n have "as = [\<lparr>ai_addresses = []\<rparr>]" by (cases as) auto
    with raw as 2 have "link_safe cfg ns w1 (nl_name l # fb) l" using run_ip_Ok [OF raw] by (auto simp: link_safe_def)
    with Cons.IH [OF rest] link_safe_grows [OF check_links_grows rest] show ?thesis by auto
  next
    case 3
    with Cons.prems Cons.IH show ?thesis by (auto simp: link_safe_def)
  qed
qed

definition routes_safe :: "configuration \<Rightarrow> handle \<Rightarrow> world \<Rightarrow> string list \<Rightarrow> string \<Rightarrow> bool" where
  "routes_safe cfg ns w fallbacks family =
     (\<exists>raw rs. ip_said cfg ns w [family, ''-j'', ''route'', ''show'', ''table'', ''all''] raw \<and> routes_of raw = Ok rs \<and>
        list_all (\<lambda>r. ro_dst r \<noteq> ''default'' \<and> ro_dev r \<notin> set fallbacks) rs)"

lemma check_route_list_Ok:
  "check_route_list fb rs = Ok u \<longleftrightarrow> list_all (\<lambda>r. ro_dst r \<noteq> ''default'' \<and> ro_dev r \<notin> set fb) rs"
  by (induction rs) auto

lemma check_family_Ok:
  assumes "check_family (run_ip K cfg ns) fb fam w = (Inr u, w')"
  shows "routes_safe cfg ns w' fb fam"
  using assms unfolding check_family_def routes_safe_def
  by (auto elim!: os_try_OkE simp: os_lift_Ok check_route_list_Ok dest!: run_ip_Ok)

lemma routes_safe_grows: "grows m \<Longrightarrow> m w = (r, w') \<Longrightarrow> routes_safe cfg ns w fb fam \<Longrightarrow> routes_safe cfg ns w' fb fam"
  unfolding routes_safe_def using ip_said_grows [of m w r w' cfg ns] by blast

text \<open>The namespace is safe: every interface it has is the loopback, an inert fallback tunnel without addresses,
  or the dummy; no route of either family is a default route or leads to such a tunnel; and the dummy has
  its addresses and is up.\<close>

definition network_safe :: "configuration \<Rightarrow> handle \<Rightarrow> world \<Rightarrow> bool" where
  "network_safe cfg ns w =
     (\<exists>raw links fallbacks. ip_said cfg ns w [''-d'', ''-j'', ''link'', ''show''] raw \<and> links_of raw = Ok links \<and>
        list_all (link_safe cfg ns w fallbacks) links \<and>
        list_all (routes_safe cfg ns w fallbacks) [''-4'', ''-6''] \<and>
        list_all (\<lambda>args. \<exists>out. ip_said cfg ns w args out) realm0_commands)"

lemma network_safe_grows:
  assumes "grows m" "m w = (r, w')" "network_safe cfg ns w"
  shows "network_safe cfg ns w'"
proof -
  note g = ip_said_grows [OF assms(1,2)] link_safe_grows [OF assms(1,2)] routes_safe_grows [OF assms(1,2)]
  from assms(3) obtain raw links fb where "ip_said cfg ns w [''-d'', ''-j'', ''link'', ''show''] raw" "links_of raw = Ok links"
    "list_all (link_safe cfg ns w fb) links" "list_all (routes_safe cfg ns w fb) [''-4'', ''-6'']"
    "list_all (\<lambda>args. \<exists>out. ip_said cfg ns w args out) realm0_commands" unfolding network_safe_def by blast
  then show ?thesis unfolding network_safe_def list_all_iff
    by (intro exI [of _ raw] exI [of _ links] exI [of _ fb]) (auto intro: g, meson g(1))
qed

lemma setupNetwork_Ok:
  assumes "setupNetwork K cfg ns w = (Ok u, w')"
  shows "network_safe cfg ns w'"
proof -
  let ?ip = "run_ip K cfg ns"
  from assms obtain raw w1 links found fb w2 where raw: "?ip [''-d'', ''-j'', ''link'', ''show''] w = (Inr raw, w1)"
    and links: "links_of raw = Ok links" and check: "check_links ?ip links False [] w1 = (Inr (found, fb), w2)"
    and w2: "os_try (os_each (check_family ?ip fb) [''-4'', ''-6'']) (\<lambda>_.
      os_try (if found then os_ret () else os_try (?ip [''link'', ''add'', ''realm0'', ''type'', ''dummy'']) (\<lambda>_. os_ret ())) (\<lambda>_.
      os_each (\<lambda>args. os_try (?ip args) (\<lambda>_. os_ret ())) realm0_commands)) w2 = (Ok u, w')"
    unfolding setupNetwork_def Let_def by (elim os_try_OkE) (auto simp: os_lift_Ok)
  obtain w3 u3 where fam: "os_each (check_family ?ip fb) [''-4'', ''-6''] w2 = (Inr u3, w3)"
    and w3: "os_try (if found then os_ret () else os_try (?ip [''link'', ''add'', ''realm0'', ''type'', ''dummy'']) (\<lambda>_. os_ret ())) (\<lambda>_.
      os_each (\<lambda>args. os_try (?ip args) (\<lambda>_. os_ret ())) realm0_commands) w3 = (Ok u, w')" by (rule os_try_OkE [OF w2])
  obtain w4 where w4: "os_each (\<lambda>args. os_try (?ip args) (\<lambda>_. os_ret ())) realm0_commands w4 = (Ok u, w')"
    by (rule os_try_OkE [OF w3])
  have g: "grows (os_each (check_family ?ip fb) [''-4'', ''-6''])"
    "grows (os_try (if found then os_ret () else os_try (?ip [''link'', ''add'', ''realm0'', ''type'', ''dummy'']) (\<lambda>_. os_ret ())) (\<lambda>_.
      os_each (\<lambda>args. os_try (?ip args) (\<lambda>_. os_ret ())) realm0_commands))"
    by (intro grows_rules)+
  have "ip_said cfg ns w' [''-d'', ''-j'', ''link'', ''show''] raw"
    by (rule ip_said_grows [OF g(2) w3], rule ip_said_grows [OF g(1) fam], rule ip_said_grows [OF check_links_grows check], rule run_ip_Ok [OF raw])
  moreover have "list_all (link_safe cfg ns w' fb) links"
    using check_links_Ok [OF check] link_safe_grows [OF g(1) fam] link_safe_grows [OF g(2) w3]
    unfolding list_all_iff by blast
  moreover have "routes_safe cfg ns w' fb f" if "f \<in> set [''-4'', ''-6'']" for f
    by (rule routes_safe_grows [OF g(2) w3], rule os_each_Ok [OF fam _ _ _ that])
      (auto intro: grows_rules check_family_Ok routes_safe_grows)
  moreover have "\<exists>out. ip_said cfg ns w' args out" if "args \<in> set realm0_commands" for args
    by (rule os_each_Ok [OF w4 _ _ _ that]) (auto intro: grows_rules ip_said_grows elim!: os_try_OkE simp: os_ret_Ok dest!: run_ip_Ok)
  ultimately show ?thesis unfolding network_safe_def using links
    by (intro exI [of _ raw] exI [of _ links] exI [of _ fb]) (auto simp: list_all_iff)
qed

text \<open>C15. When the set-up of a namespace succeeds, whatever the system answers, the namespace has no interface
  but the loopback, inert fallback tunnels without addresses, endpoints or routes, and the dummy; it has no
  default route of either family; and the addresses of the dummy were set and it was brought up.\<close>

theorem setup_network_safe:
  assumes "setupNetwork K cfg ns w = (Ok u, w')"
  shows "network_safe cfg ns w'"
  using assms by (rule setupNetwork_Ok)

text \<open>A system with an empty namespace.\<close>

definition ex_ip :: "string list \<Rightarrow> os_reply" where
  "ex_ip args =
     (if ''link'' \<in> set args \<and> ''show'' \<in> set args
      then RText (json_print (JArr [JObj [(''ifname'', JStr ''lo''), (''flags'', JArr [JStr ''UP''])]]))
      else if ''route'' \<in> set args then RText ''[]'' else RText [])"

definition ex_net_kernel :: kernel where
  "ex_net_kernel log c = (case c of Proc p \<Rightarrow> (case p of CRun tool ns args \<Rightarrow> ex_ip args | _ \<Rightarrow> ROk) | _ \<Rightarrow> ROk)"

definition ex_configuration :: configuration where
  "ex_configuration = \<lparr>cf_namespace_tool = ''/bin/nsenter'', cf_ca_bundle = ''/etc/ssl/ca.crt'', cf_network_tool = ''/bin/ip'',
     cf_workloads = [ex_workload]\<rparr>"

theorem setup_network_safe_witness:
  "network_safe ex_configuration 0 (snd (setupNetwork ex_net_kernel ex_configuration 0 start_world))"
proof -
  have "is_ok (fst (setupNetwork ex_net_kernel ex_configuration 0 start_world))" by code_simp
  then show ?thesis using setup_network_safe [of ex_net_kernel ex_configuration 0 start_world] by (auto simp: is_ok_iff prod_eq_iff)
qed

end
