(* ===== verification/Agent_Sandbox.thy ===== *)
theory Agent_Sandbox
  imports Agent_Process "HOL-Library.List_Lexorder" "HOL-Library.Char_ord"
begin

text \<open>
  \<^verbatim>\<open>realm-agent/sandbox.go\<close>: the sealed configuration of a worker, the directories it may see, and the
  bootstrap that gives up everything else before it becomes the worker. The process starts with the
  descriptors its parent passed (3 the namespace, 4 the connection map, 5 readiness, 6 the configuration, 7 the
  parent's lease, 8 the control group); they are the handles of its world.
\<close>

unbundle bit_operations_syntax

section \<open>The sealed configuration\<close>

record workerConfiguration =
  wc_workload :: workload
  wc_ca :: string

definition zero_worker_config :: workerConfiguration where
  "zero_worker_config = \<lparr>wc_workload = zero_workload, wc_ca = []\<rparr>"

definition dec_worker_config :: "workerConfiguration jdec" where
  "dec_worker_config = dec_struct False
     [(''workload'', dec_field wc_workload wc_workload_update (dec_workload False)),
      (''caBundle'', dec_field wc_ca wc_ca_update dec_string)]"

text \<open>The JSON of a workload. A nil slice or map prints as \<^verbatim>\<open>null\<close>; an empty one that is not nil would print as
  \<^verbatim>\<open>[]\<close> or \<^verbatim>\<open>{}\<close>, which decodes to the same value. The keys of a map are printed in order.\<close>

definition json_slice :: "json list \<Rightarrow> json" where
  "json_slice js = (if js = [] then JNull else JArr js)"

definition json_map :: "(string \<times> json) list \<Rightarrow> json" where
  "json_map ms = (if ms = [] then JNull else JObj (sort_key fst ms))"

definition json_omit :: "string \<Rightarrow> string \<Rightarrow> (string \<times> json) list" where
  "json_omit name s = (if s = [] then [] else [(name, JStr s)])"

definition json_u16 :: "16 word \<Rightarrow> json" where
  "json_u16 p = JNum (itoa (uint p))"

definition route_json :: "route \<Rightarrow> json" where
  "route_json r = JObj [(''prefix'', JStr (rt_prefix r)), (''port'', json_u16 (rt_port r)), (''socket'', JStr (rt_socket r))]"

definition workload_json :: "workload \<Rightarrow> json" where
  "workload_json w = JObj
     ([(''name'', JStr (wl_name w))] @ json_omit ''unit'' (wl_unit w) @
      [(''user'', JStr (wl_user w)), (''group'', JStr (wl_group w)), (''workerUser'', JStr (wl_worker_user w)),
       (''socket'', JStr (wl_socket w))] @ json_omit ''internetSocket'' (wl_internet_socket w) @
      [(''internetPorts'', json_slice (map json_u16 (wl_internet_ports w))),
       (''dnsUpstream'', JStr (wl_dns_upstream w)),
       (''dnsHosts'', json_map (map (\<lambda>(k, as). (k, json_slice (map JStr as))) (wl_dns_hosts w))),
       (''routes'', json_slice (map route_json (wl_routes w))),
       (''tcpPort'', json_u16 (wl_tcp_port w)), (''dnsBase'', json_u16 (wl_dns_base w)),
       (''maxConnections'', JNum (itoa (wl_max_connections w))), (''workerMemoryMiB'', JNum (itoa (wl_memory w))),
       (''workerTasks'', JNum (itoa (wl_tasks w))), (''workerCPUQuota'', JNum (itoa (wl_cpu_quota w)))])"

definition worker_config_json :: "workerConfiguration \<Rightarrow> json" where
  "worker_config_json c = JObj [(''workload'', workload_json (wc_workload c)), (''caBundle'', JStr (wc_ca c))]"

definition sealedWorkerConfig :: "kernel \<Rightarrow> workload \<Rightarrow> string \<Rightarrow> handle os" where
  "sealedWorkerConfig K w ca =
     os_try (os_handle K (File FMemfd)) (\<lambda>f.
     os_finally
      (os_try (os_do K (File (FWrite f (json_print (worker_config_json \<lparr>wc_workload = w, wc_ca = ca\<rparr>) @ [CHR 0x0A])))) (\<lambda>_.
       os_try (os_do K (File (FSeal f))) (\<lambda>_.
       os_handle K (File (FReopen f)))))
      (os_close K f))"

section \<open>The directories a worker sees\<close>

definition broad_directory :: "string \<Rightarrow> bool" where
  "broad_directory dir =
     (dir = ''/'' \<or> dir = ''/run'' \<or> dir = ''/var'' \<or> dir = ''/var/run'' \<or> dir = ''/tmp'' \<or> dir = ''/etc'' \<or>
      dir = ''/nix'' \<or> has_prefix ''/nix/'' dir \<or> dir = ''/proc'' \<or> has_prefix ''/proc/'' dir \<or>
      dir = ''/sys'' \<or> has_prefix ''/sys/'' dir \<or> dir = ''/dev'' \<or> has_prefix ''/dev/'' dir \<or>
      dir = ''/run/realm-agent'' \<or> has_prefix ''/run/realm-agent/'' dir)"

fun socket_directories :: "string list \<Rightarrow> string list result" where
  "socket_directories [] = Ok []"
| "socket_directories (s # ss) =
     (if s = [] then socket_directories ss
      else let dir = path_dir s in
        if broad_directory dir then Fail (''egress socket needs a dedicated directory: '' @ s)
        else case socket_directories ss of Inl e \<Rightarrow> Inl e | Inr ds \<Rightarrow> Ok (dir # ds))"

definition workerSocketDirectories :: "workload \<Rightarrow> string list result" where
  "workerSocketDirectories w =
     (case socket_directories (wl_internet_socket w # map rt_socket (wl_routes w)) of
        Inl e \<Rightarrow> Inl e
      | Inr ds \<Rightarrow> Ok (remdups_adj (sort ds)))"

section \<open>The bootstrap\<close>

text \<open>\<^verbatim>\<open>filepath.Join\<close> of two names that are not empty.\<close>

definition path_join :: "string \<Rightarrow> string \<Rightarrow> string" where
  "path_join a b = path_clean (a @ ''/'' @ b)"

text \<open>One JSON value from the configuration, which then is validated in place.\<close>

definition decode_worker_config :: "string \<Rightarrow> workerConfiguration result" where
  "decode_worker_config raw =
     (case json_next raw of
        None \<Rightarrow> Inl (ErrLib ''json'')
      | Some (j, rest) \<Rightarrow> (case dec_worker_config j zero_worker_config of
          None \<Rightarrow> Inl (ErrLib ''json'')
        | Some wc \<Rightarrow> (case validate (wc_workload wc) of
            Inl e \<Rightarrow> Inl e
          | Inr w \<Rightarrow> Ok (wc\<lparr>wc_workload := w\<rparr>))))"

definition bind_mount :: "kernel \<Rightarrow> string \<Rightarrow> string \<Rightarrow> string \<Rightarrow> bool \<Rightarrow> unit os" where
  "bind_mount K root src dst directory =
     (let target = path_join root dst in
      os_try (os_handle K (Path (POpenPath src directory))) (\<lambda>fd.
      os_finally
       (os_try (os_do K (Path (PMkdirAll (path_dir target)))) (\<lambda>_.
        os_try (if directory then os_do K (Path (PMkdirAll target))
                else os_try (os_handle K (Path (PCreateFile target))) (\<lambda>f. os_after (os_close K f) (os_ret ()))) (\<lambda>_.
        os_try (os_do K (Priv (SMount (''/proc/self/fd/'' @ itoa (int fd)) target [] [''bind'', ''rec''] []))) (\<lambda>_.
        os_do K (Priv (SSetattr target [''rdonly'', ''nosuid'', ''nodev'']))))))
       (os_close K fd)))"

definition stage :: "string \<Rightarrow> 'a os \<Rightarrow> 'a os" where
  "stage name m = os_map_error (ErrWrap (''sandbox '' @ name)) m"

text \<open>Joining the worker's control group, of which no handle remains.\<close>

definition join_group :: "kernel \<Rightarrow> int \<Rightarrow> int \<Rightarrow> unit os" where
  "join_group K uid gid =
     os_try (os_num K (Proc CGeteuid)) (\<lambda>euid.
     if euid \<noteq> 0 \<or> uid \<le> 0 \<or> gid \<le> 0 then os_fail (Err ''sandbox requires root and unprivileged target IDs'')
     else
     os_try (os_num K (Proc CGetpid)) (\<lambda>pid.
     os_finally (writeGroup K 8 ''cgroup.procs'' (itoa pid)) (os_close K 8)))"

text \<open>The configuration, the directories to bind and the executable.\<close>

definition read_config :: "kernel \<Rightarrow> (workerConfiguration \<times> string list \<times> string) os" where
  "read_config K =
     os_try (os_read K 6 1048576) (\<lambda>raw.
     os_try (os_lift (decode_worker_config raw)) (\<lambda>wc.
     os_try (os_do K (File (FSeek 6))) (\<lambda>_.
     os_try (os_lift (workerSocketDirectories (wc_workload wc))) (\<lambda>directories.
     os_try (os_text K (Proc CExecutable)) (\<lambda>exe.
     if \<not> has_prefix ''/nix/store/'' exe then os_fail (Err ''sandbox executable must be in the immutable Nix store'')
     else os_ret (wc, directories, exe))))))"

definition safe_root :: "file_stat \<Rightarrow> bool" where
  "safe_root st = (st_mode st AND 61440 = 16384 \<and> st_uid st = 0 \<and> st_mode st AND 18 = 0)"

definition prepare_root :: "kernel \<Rightarrow> string \<Rightarrow> unit os" where
  "prepare_root K root =
     os_after (os_note K (Priv (SUmask 18)))
     (os_try (os_allow is_exist (os_do K (Path (PMkdir root)))) (\<lambda>_.
      os_try (os_stat K (Path (PLstat root))) (\<lambda>st.
      if \<not> safe_root st then os_fail (Err ''unsafe worker sandbox directory'')
      else
      os_try (os_do K (Priv SUnshare)) (\<lambda>_.
      os_try (os_do K (Priv (SMount [] ''/'' [] [''rec'', ''private''] []))) (\<lambda>_.
      os_do K (Priv (SMount ''tmpfs'' root ''tmpfs'' [''nosuid'', ''nodev''] ''mode=0755,size=4M,nr_inodes=1024'')))))))"

definition bind_paths :: "kernel \<Rightarrow> string \<Rightarrow> string \<Rightarrow> string list \<Rightarrow> unit os" where
  "bind_paths K root ca_bundle directories =
     os_try (bind_mount K root ''/nix/store'' ''/nix/store'' True) (\<lambda>_.
     os_try (os_text K (Path (PEvalSymlinks ca_bundle))) (\<lambda>ca.
     os_try (bind_mount K root ca ''/etc/ssl/certs/ca-certificates.crt'' False) (\<lambda>_.
     os_try (os_each (\<lambda>dir. os_map_error (ErrWrap (''mount egress '' @ dir)) (bind_mount K root dir dir True)) directories) (\<lambda>_.
     os_try (os_do K (Path (PMkdir (path_join root ''.oldroot'')))) (\<lambda>_.
     os_do K (Priv (SChdir root)))))))"

definition pivot_root :: "kernel \<Rightarrow> unit os" where
  "pivot_root K =
     os_try (os_do K (Priv (SPivotRoot ''.'' ''.oldroot''))) (\<lambda>_.
     os_try (os_do K (Priv (SChdir ''/''))) (\<lambda>_.
     os_try (os_do K (Priv (SUnmount ''/.oldroot''))) (\<lambda>_.
     os_try (os_do K (Path (PRemove ''/.oldroot''))) (\<lambda>_.
     os_do K (Priv (SMount [] ''/'' [] [''remount'', ''rdonly'', ''nosuid'', ''nodev''] []))))))"

definition drop_credentials :: "kernel \<Rightarrow> int \<Rightarrow> int \<Rightarrow> unit os" where
  "drop_credentials K uid gid =
     os_each (\<lambda>c. os_do K (Priv c)) [SSetgroups, SSetgid gid, SSetuid uid, SCapset, SAmbientClear, SNoNewPrivs]"

text \<open>When the last call succeeds the process is the worker: the deferred \<^verbatim>\<open>config.Close\<close> runs only on an error.\<close>

definition sandboxWorker :: "kernel \<Rightarrow> int \<Rightarrow> int \<Rightarrow> unit os" where
  "sandboxWorker K uid gid =
     os_try (stage ''join worker cgroup'' (join_group K uid gid)) (\<lambda>_.
     os_on_error
      (os_try (stage ''read sealed configuration'' (read_config K)) (\<lambda>(wc, directories, exe).
       let root = path_join (path_dir (wl_socket (wc_workload wc))) ''root'' in
       os_try (stage ''prepare minimal root'' (prepare_root K root)) (\<lambda>_.
       os_try (stage ''bind declared paths'' (bind_paths K root (wc_ca wc) directories)) (\<lambda>_.
       os_try (stage ''pivot minimal root'' (pivot_root K)) (\<lambda>_.
       os_try (stage ''drop worker credentials'' (drop_credentials K uid gid)) (\<lambda>_.
       os_after (os_close K 3)
       (stage ''exec unprivileged worker''
         (os_do K (Priv (SExec exe [exe, ''worker'']
           [''GOMAXPROCS=2'', ''SSL_CERT_FILE=/etc/ssl/certs/ca-certificates.crt'', ''SSL_CERT_DIR=/nonexistent'']))))))))))
      (os_close K 6))"

section \<open>The directories are dedicated\<close>

lemma socket_directories_Ok:
  "socket_directories ss = Ok ds \<longleftrightarrow>
    list_all (\<lambda>s. \<not> broad_directory (path_dir s)) (filter (\<lambda>s. s \<noteq> []) ss) \<and> ds = map path_dir (filter (\<lambda>s. s \<noteq> []) ss)"
  by (induction ss arbitrary: ds) (auto simp: Let_def split: sum.splits, blast)

lemma sorted_compact: "sorted xs \<Longrightarrow> distinct (remdups_adj xs)" for xs :: "'a::linorder list"
  by (induction xs rule: remdups_adj.induct) auto

text \<open>The directories a worker is shown are, without repetition and in order, the directories of the egress
  sockets its workload declares, and none of them is a broad one of the host.\<close>

theorem worker_directories:
  assumes "workerSocketDirectories w = Ok ds"
  shows "set ds = path_dir ` (set (wl_internet_socket w # map rt_socket (wl_routes w)) - {[]}) \<and> sorted ds \<and> distinct ds \<and>
    list_all (\<lambda>d. \<not> broad_directory d) ds"
proof -
  obtain es where es: "socket_directories (wl_internet_socket w # map rt_socket (wl_routes w)) = Ok es" "ds = remdups_adj (sort es)"
    using assms by (auto simp: workerSocketDirectories_def split: sum.splits)
  then have "set ds = set es" "sorted ds" by (simp_all add: sorted_remdups_adj)
  moreover have "distinct ds" using es(2) by (simp add: sorted_compact)
  ultimately show ?thesis using es(1) unfolding socket_directories_Ok by (auto simp: list_all_iff)
qed

section \<open>The worker starts confined\<close>

text \<open>The privileged calls that succeeded, in order; the mask of new files is none of them.\<close>

definition priv_of :: "os_call \<times> os_reply \<Rightarrow> priv_call list" where
  "priv_of e =
     (case e of
        (Priv c, r) \<Rightarrow> (case r of RErr _ \<Rightarrow> [] | _ \<Rightarrow> (case c of SUmask _ \<Rightarrow> [] | _ \<Rightarrow> [c]))
      | _ \<Rightarrow> [])"

definition privs :: "world \<Rightarrow> priv_call list" where
  "privs w = concat (map priv_of (w_log w))"

lemma privs_of_log: "of_log privs"
  by (simp add: of_log_def privs_def)

lemma privs_skips: "(\<forall>p. c \<noteq> Priv p) \<or> (\<exists>m. c = Priv (SUmask m)) \<Longrightarrow> skips privs c"
  by (cases c) (auto simp: skips_def privs_def priv_of_def split: os_reply.splits)

lemma privs_skips_calls [simp]:
  "skips privs (File f)" "skips privs (Path p)" "skips privs (Proc q)" "skips privs (Priv (SUmask m))"
  by (simp_all add: privs_skips)

lemma privs_close [leaves_rules]: "keeps privs (os_close K h)"
  unfolding os_close_def by (intro leaves_handle privs_of_log) simp

lemmas privs_leaves = leaves_call [OF privs_skips_calls(1)] leaves_call [OF privs_skips_calls(2)] leaves_call [OF privs_skips_calls(3)]
  leaves_call [OF privs_skips_calls(4)] leaves_handle [OF privs_skips_calls(1) privs_of_log] leaves_handle [OF privs_skips_calls(2) privs_of_log]
  leaves_read [OF privs_skips_calls(1)]

lemma writeGroup_privs: "leaves privs (writeGroup K g n v)"
  unfolding writeGroup_def by (intro leaves_rules privs_leaves)

text \<open>\<open>adds m n ps\<close>: a run of \<open>m\<close> that succeeds takes \<open>n\<close> new handles and makes the calls \<open>ps k\<close>, where \<open>k\<close> is the
  first of them.\<close>

definition adds :: "'a os \<Rightarrow> nat \<Rightarrow> (nat \<Rightarrow> priv_call list) \<Rightarrow> bool" where
  "adds m n ps = (\<forall>w y w'. m w = (Inr y, w') \<longrightarrow> privs w' = privs w @ ps (w_next w) \<and> w_next w' = w_next w + n)"

named_theorems adds_rules "which privileged calls a computation makes"

lemma addsD: "adds m n ps \<Longrightarrow> m w = (Inr y, w') \<Longrightarrow> privs w' = privs w @ ps (w_next w) \<and> w_next w' = w_next w + n"
  by (simp add: adds_def)

lemma adds_priv: "\<forall>m. c \<noteq> SUmask m \<Longrightarrow> adds (os_do K (Priv c)) 0 (\<lambda>_. [c])"
  by (auto simp: adds_def os_call_defs privs_def priv_of_def split: os_reply.splits priv_call.splits)

lemma adds_call:
  assumes "skips privs c"
  shows "adds (os_do K c) 0 (\<lambda>_. [])" "adds (os_text K c) 0 (\<lambda>_. [])" "adds (os_num K c) 0 (\<lambda>_. [])" "adds (os_stat K c) 0 (\<lambda>_. [])"
  using leaves_call [OF assms, of K] by (auto simp: adds_def keeps_def os_call_defs split: os_reply.splits)

lemmas adds_calls [adds_rules] = adds_call [OF privs_skips_calls(1)] adds_call [OF privs_skips_calls(2)] adds_call [OF privs_skips_calls(3)]

lemma adds_handle:
  assumes "skips privs c"
  shows "adds (os_handle K c) 1 (\<lambda>_. [])"
  using leavesD [OF leaves_handle(1) [OF assms privs_of_log, of K]]
  by (auto simp: adds_def) (auto simp: os_handle_def new_handle_def split: os_reply.splits)

lemmas adds_handles [adds_rules] = adds_handle [OF privs_skips_calls(1)] adds_handle [OF privs_skips_calls(2)]

lemma adds_read [adds_rules]: "adds (os_read K f n) 0 (\<lambda>_. [])"
  using adds_calls(2) [of K "FReadAll f n"] by (auto simp: adds_def os_read_def split: prod.splits sum.splits)

lemma adds_simple [adds_rules]: "adds (os_ret x) 0 (\<lambda>_. [])" "adds (os_fail e) n ps" "adds (os_lift r) 0 (\<lambda>_. [])"
  by (auto simp: adds_def os_ret_def os_fail_def os_lift_def)

lemma adds_try:
  assumes "adds m n ps" "\<And>x. adds (f x) k qs"
  shows "adds (os_try m f) (n + k) (\<lambda>i. ps i @ qs (i + n))"
  unfolding adds_def
proof (intro allI impI)
  fix w y w' assume "os_try m f w = (Inr y, w')"
  then obtain x w1 where "m w = (Inr x, w1)" "f x w1 = (Inr y, w')" by (rule os_try_OkE)
  with addsD [OF assms(1)] addsD [OF assms(2)] show "privs w' = privs w @ ps (w_next w) @ qs (w_next w + n) \<and> w_next w' = w_next w + (n + k)"
    by fastforce
qed

lemma adds_finally: "adds m n ps \<Longrightarrow> adds (os_finally m (os_close K h)) n ps"
  using privs_close [of K h] by (auto simp: adds_def keeps_def os_finally_def os_close_def os_release_def Let_def split: prod.splits)

lemma adds_after: "keeps privs c \<Longrightarrow> drops c A \<Longrightarrow> adds m n ps \<Longrightarrow> adds (os_after c m) n ps"
  by (auto simp: adds_def keeps_def os_after_def drops_def)

lemma adds_map: "adds m n ps \<Longrightarrow> adds (os_map_error g m) n ps" "adds u n ps \<Longrightarrow> adds (stage s u) n ps"
  by (auto simp: adds_def stage_def os_map_error_def split: prod.splits sum.splits)

lemma adds_eq: "adds m n ps \<Longrightarrow> n = n' \<Longrightarrow> ps = ps' \<Longrightarrow> adds m n' ps'"
  by simp

definition bound :: "nat \<Rightarrow> string \<Rightarrow> priv_call list" where
  "bound fd tgt = [SMount (''/proc/self/fd/'' @ itoa (int fd)) tgt [] [''bind'', ''rec''] [], SSetattr tgt [''rdonly'', ''nosuid'', ''nodev'']]"

fun bound_all :: "string \<Rightarrow> nat \<Rightarrow> string list \<Rightarrow> priv_call list" where
  "bound_all root fd [] = []"
| "bound_all root fd (d # ds) = bound fd (path_join root d) @ bound_all root (Suc fd) ds"

lemma bind_mount_fd:
  assumes "bind_mount K root src dst d w = (Inr u, w')"
  shows "privs w' = privs w @ bound (w_next w) (path_join root dst) \<and> w_next w' = w_next w + (if d then 1 else 2) \<and>
    answered w' (Path (POpenPath src d)) (RHandle (w_next w))"
proof -
  let ?t = "path_join root dst"
  let ?mk = "if d then os_do K (Path (PMkdirAll ?t)) else os_try (os_handle K (Path (PCreateFile ?t))) (\<lambda>f. os_after (os_close K f) (os_ret ()))"
  let ?body = "\<lambda>fd. os_try (os_do K (Path (PMkdirAll (path_dir ?t)))) (\<lambda>_. os_try ?mk (\<lambda>_.
        os_try (os_do K (Priv (SMount (''/proc/self/fd/'' @ itoa (int fd)) ?t [] [''bind'', ''rec''] []))) (\<lambda>_.
        os_do K (Priv (SSetattr ?t [''rdonly'', ''nosuid'', ''nodev''])))))"
  from assms obtain fd w1 where fd: "os_handle K (Path (POpenPath src d)) w = (Inr fd, w1)"
    and body: "os_finally (?body fd) (os_close K fd) w1 = (Inr u, w')"
    unfolding bind_mount_def Let_def by (elim os_try_OkE)
  have "adds (os_try (os_handle K (Path (PCreateFile ?t))) (\<lambda>f. os_after (os_close K f) (os_ret ()))) (1 + 0) (\<lambda>i. [] @ [])"
    by (rule adds_try [OF adds_handles(2)]) (rule adds_after [OF privs_close drops_close adds_simple(1)])
  then have mk: "adds ?mk (if d then 0 else 1) (\<lambda>_. [])" using adds_calls(5) [of K "PMkdirAll ?t"] by simp
  have "adds (?body fd) (0 + ((if d then 0 else 1) + (0 + 0))) (\<lambda>i. [] @ [] @
      [SMount (''/proc/self/fd/'' @ itoa (int fd)) ?t [] [''bind'', ''rec''] []] @ [SSetattr ?t [''rdonly'', ''nosuid'', ''nodev'']])"
    by (intro adds_try adds_calls mk adds_priv) simp_all
  note d = addsD [OF adds_finally [OF this] body]
  have "fd = w_next w" "w_next w1 = Suc (w_next w)" "privs w1 = privs w"
    using fd addsD [OF adds_handles(2) fd] by (auto simp: os_handle_def new_handle_def split: os_reply.splits)
  moreover have "grows (os_finally (?body fd) (os_close K fd))" by (auto intro!: grows_rules)
  note grows_answered [OF this body os_handle_answered [OF fd]]
  ultimately show ?thesis using d by (simp add: bound_def)
qed
lemma leaves_adds: "leaves privs m \<Longrightarrow> leaves w_next m \<Longrightarrow> adds m 0 (\<lambda>_. [])"
  by (auto simp: adds_def dest: leavesD)

lemma adds_allow [adds_rules]: "adds (os_allow p (os_do K (Path c))) 0 (\<lambda>_. [])"
  by (rule leaves_adds) (intro leaves_rules privs_leaves, simp add: keeps_def os_allow_def os_call_defs)

lemma adds_each_priv:
  "list_all (\<lambda>c. \<forall>m. c \<noteq> SUmask m) cs \<Longrightarrow> adds (os_each (\<lambda>c. os_do K (Priv c)) cs) 0 (\<lambda>_. cs)"
proof (induction cs)
  case (Cons c cs)
  then have "adds (os_try (os_do K (Priv c)) (\<lambda>_. os_each (\<lambda>c. os_do K (Priv c)) cs)) (0 + 0) (\<lambda>i. [c] @ cs)"
    by (intro adds_try adds_priv) simp_all
  then show ?case by simp
qed (simp add: adds_simple)

definition private_mounts :: "string \<Rightarrow> priv_call list" where
  "private_mounts root = [SUnshare, SMount [] ''/'' [] [''rec'', ''private''] [],
     SMount ''tmpfs'' root ''tmpfs'' [''nosuid'', ''nodev''] ''mode=0755,size=4M,nr_inodes=1024'']"

definition pivot_calls :: "priv_call list" where
  "pivot_calls = [SPivotRoot ''.'' ''.oldroot'', SChdir ''/'', SUnmount ''/.oldroot'',
     SMount [] ''/'' [] [''remount'', ''rdonly'', ''nosuid'', ''nodev''] []]"

definition drop_calls :: "int \<Rightarrow> int \<Rightarrow> priv_call list" where
  "drop_calls uid gid = [SSetgroups, SSetgid gid, SSetuid uid, SCapset, SAmbientClear, SNoNewPrivs]"

definition exec_call :: "string \<Rightarrow> priv_call" where
  "exec_call exe = SExec exe [exe, ''worker'']
     [''GOMAXPROCS=2'', ''SSL_CERT_FILE=/etc/ssl/certs/ca-certificates.crt'', ''SSL_CERT_DIR=/nonexistent'']"

lemma drop_credentials_adds: "adds (drop_credentials K uid gid) 0 (\<lambda>_. drop_calls uid gid)"
  unfolding drop_credentials_def drop_calls_def by (rule adds_each_priv) simp

lemma pivot_root_adds: "adds (pivot_root K) 0 (\<lambda>_. pivot_calls)"
proof -
  have "adds (pivot_root K) (0 + (0 + (0 + (0 + 0)))) (\<lambda>_. [SPivotRoot ''.'' ''.oldroot''] @ [SChdir ''/''] @ [SUnmount ''/.oldroot''] @ [] @
     [SMount [] ''/'' [] [''remount'', ''rdonly'', ''nosuid'', ''nodev''] []])"
    unfolding pivot_root_def by (intro adds_try adds_rules adds_priv) simp_all
  then show ?thesis by (simp add: pivot_calls_def)
qed

lemma prepare_root_adds: "adds (prepare_root K root) 0 (\<lambda>_. private_mounts root)"
proof -
  have "adds (if \<not> safe_root st then os_fail (Err ''unsafe worker sandbox directory'')
      else os_try (os_do K (Priv SUnshare)) (\<lambda>_. os_try (os_do K (Priv (SMount [] ''/'' [] [''rec'', ''private''] []))) (\<lambda>_.
        os_do K (Priv (SMount ''tmpfs'' root ''tmpfs'' [''nosuid'', ''nodev''] ''mode=0755,size=4M,nr_inodes=1024''))))) (0 + (0 + 0))
      (\<lambda>_. [SUnshare] @ [SMount [] ''/'' [] [''rec'', ''private''] []] @
        [SMount ''tmpfs'' root ''tmpfs'' [''nosuid'', ''nodev''] ''mode=0755,size=4M,nr_inodes=1024''])" for st
    by (cases "safe_root st") (simp_all only: if_True if_False not_True_eq_False not_False_eq_True adds_simple, intro adds_try adds_priv, simp_all)
  then have "adds (os_try (os_allow is_exist (os_do K (Path (PMkdir root)))) (\<lambda>_. os_try (os_stat K (Path (PLstat root))) (\<lambda>st.
      if \<not> safe_root st then os_fail (Err ''unsafe worker sandbox directory'')
      else os_try (os_do K (Priv SUnshare)) (\<lambda>_. os_try (os_do K (Priv (SMount [] ''/'' [] [''rec'', ''private''] []))) (\<lambda>_.
        os_do K (Priv (SMount ''tmpfs'' root ''tmpfs'' [''nosuid'', ''nodev''] ''mode=0755,size=4M,nr_inodes=1024'')))))))
      (0 + (0 + (0 + (0 + 0)))) (\<lambda>_. [] @ [] @ [SUnshare] @ [SMount [] ''/'' [] [''rec'', ''private''] []] @
        [SMount ''tmpfs'' root ''tmpfs'' [''nosuid'', ''nodev''] ''mode=0755,size=4M,nr_inodes=1024''])"
    by (intro adds_try adds_rules)
  then show ?thesis unfolding prepare_root_def private_mounts_def
    using adds_after [OF privs_leaves(24) drops_note] by simp
qed
definition opened :: "world \<Rightarrow> (nat \<times> string \<times> bool) list \<Rightarrow> bool" where
  "opened w xs = list_all (\<lambda>(fd, src, d). answered w (Path (POpenPath src d)) (RHandle fd)) xs"

lemma opened_grows: "grows m \<Longrightarrow> m w = (r, w') \<Longrightarrow> opened w xs \<Longrightarrow> opened w' xs"
  using grows_answered [of m w r w'] by (auto simp: opened_def list_all_iff)

lemma bind_mount_grows [grows_rules]: "grows (bind_mount K root src dst d)"
  unfolding bind_mount_def Let_def by (auto intro!: grows_rules)

definition egress_sources :: "nat \<Rightarrow> string list \<Rightarrow> (nat \<times> string \<times> bool) list" where
  "egress_sources n ds = map (\<lambda>(fd, d). (fd, d, True)) (zip [n..<n + length ds] ds)"

lemma bind_each:
  assumes "os_each (\<lambda>dir. os_map_error (ErrWrap (''mount egress '' @ dir)) (bind_mount K root dir dir True)) ds w = (Inr u, w')"
  shows "privs w' = privs w @ bound_all root (w_next w) ds \<and> w_next w' = w_next w + length ds \<and>
    opened w' (egress_sources (w_next w) ds)"
  using assms
proof (induction ds arbitrary: w)
  case Nil
  then show ?case by (simp add: os_ret_def opened_def egress_sources_def)
next
  case (Cons d ds)
  let ?each = "os_each (\<lambda>dir. os_map_error (ErrWrap (''mount egress '' @ dir)) (bind_mount K root dir dir True)) ds"
  obtain x w1 where d: "bind_mount K root d d True w = (Inr x, w1)" and rest: "?each w1 = (Inr u, w')"
    using Cons.prems by (auto elim!: os_try_OkE os_map_error_OkE)
  have g: "grows ?each" by (intro grows_rules)
  from bind_mount_fd [OF d] have "privs w1 = privs w @ bound (w_next w) (path_join root d)" "w_next w1 = Suc (w_next w)"
    "answered w' (Path (POpenPath d True)) (RHandle (w_next w))" using grows_answered [OF g rest] by auto
  then show ?case using Cons.IH [OF rest] by (simp add: opened_def egress_sources_def upt_rec)
qed

lemma bind_paths_Ok:
  assumes "bind_paths K root cb ds w = (Inr u, w')"
  shows "w_next w' = w_next w + 3 + length ds \<and>
    privs w' = privs w @ bound (w_next w) (path_join root ''/nix/store'') @
      bound (w_next w + 1) (path_join root ''/etc/ssl/certs/ca-certificates.crt'') @ bound_all root (w_next w + 3) ds @ [SChdir root] \<and>
    (\<exists>ca. answered w' (Path (PEvalSymlinks cb)) (RText ca) \<and>
      opened w' ([(w_next w, ''/nix/store'', True), (w_next w + 1, ca, False)] @ egress_sources (w_next w + 3) ds))"
proof -
  let ?each = "os_each (\<lambda>dir. os_map_error (ErrWrap (''mount egress '' @ dir)) (bind_mount K root dir dir True)) ds"
  let ?t3 = "os_try (os_do K (Path (PMkdir (path_join root ''.oldroot'')))) (\<lambda>_. os_do K (Priv (SChdir root)))"
  obtain w1 w2 w3 w4 x1 x3 x4 ca where store: "bind_mount K root ''/nix/store'' ''/nix/store'' True w = (Inr x1, w1)"
    and ca: "os_text K (Path (PEvalSymlinks cb)) w1 = (Inr ca, w2)"
    and b: "bind_mount K root ca ''/etc/ssl/certs/ca-certificates.crt'' False w2 = (Inr x3, w3)"
    and each: "?each w3 = (Inr x4, w4)" and last: "?t3 w4 = (Inr u, w')"
    using assms unfolding bind_paths_def
    by (elim os_try_OkE [where f = "\<lambda>_. os_try (os_text K (Path (PEvalSymlinks cb))) _"]
        os_try_OkE [where m = "os_text K (Path (PEvalSymlinks cb))"]
        os_try_OkE [where f = "\<lambda>_. os_try ?each _"] os_try_OkE [where m = ?each]) blast
  have "adds ?t3 (0 + 0) (\<lambda>_. [] @ [SChdir root])" by (intro adds_try adds_rules adds_priv) simp
  note last_adds = addsD [OF this last]
  have g: "grows ?each" "grows ?t3" by (intro grows_rules)+
  have up: "answered w3 q r \<Longrightarrow> answered w' q r" for q r by (rule grows_answered [OF g(2) last], rule grows_answered [OF g(1) each])
  have up2: "answered w2 q r \<Longrightarrow> answered w' q r" for q r by (rule up, rule grows_answered [OF bind_mount_grows b])
  have up1: "answered w1 q r \<Longrightarrow> answered w' q r" for q r by (rule up2, rule grows_answered [OF grows_calls(2) ca])
  note n = addsD [OF adds_calls(6) ca] bind_mount_fd [OF store] bind_mount_fd [OF b] bind_each [OF each] last_adds
  then have w23: "w_next w1 = w_next w + 1" "w_next w2 = w_next w + 1" "w_next w3 = w_next w + 3" by simp_all
  have "answered w' (Path (POpenPath ''/nix/store'' True)) (RHandle (w_next w))" using up1 n(2) by blast
  moreover have "answered w' (Path (POpenPath ca False)) (RHandle (w_next w + 1))" using up n(3) unfolding w23 by blast
  moreover have "opened w' (egress_sources (w_next w + 3) ds)" using n(4) opened_grows [OF g(2) last] unfolding w23 by blast
  ultimately have "opened w' ([(w_next w, ''/nix/store'', True), (w_next w + 1, ca, False)] @ egress_sources (w_next w + 3) ds)"
    by (simp add: opened_def)
  with up2 [OF os_text_answered [OF ca]]
  have "\<exists>ca. answered w' (Path (PEvalSymlinks cb)) (RText ca) \<and>
      opened w' ([(w_next w, ''/nix/store'', True), (w_next w + 1, ca, False)] @ egress_sources (w_next w + 3) ds)" by blast
  moreover have "w_next w' = w_next w + 3 + length ds \<and>
    privs w' = privs w @ bound (w_next w) (path_join root ''/nix/store'') @
      bound (w_next w + 1) (path_join root ''/etc/ssl/certs/ca-certificates.crt'') @ bound_all root (w_next w + 3) ds @ [SChdir root]"
    using n unfolding w23 by simp
  ultimately show ?thesis by blast
qed

text \<open>Whether the process became the worker.\<close>

fun is_exec :: "priv_call \<Rightarrow> bool" where
  "is_exec (SExec a b c) = True"
| "is_exec _ = False"

definition execs :: "world \<Rightarrow> priv_call list" where
  "execs w = filter is_exec (privs w)"

lemma execs_of_log: "of_log execs"
  by (simp add: of_log_def execs_def privs_def)

lemma execs_skips: "skips privs c \<Longrightarrow> skips execs c"
  by (simp add: skips_def execs_def)

lemma execs_skips_priv: "\<not> is_exec c \<Longrightarrow> skips execs (Priv c)"
  by (cases c) (auto simp: skips_def execs_def privs_def priv_of_def split: os_reply.splits)

lemmas execs_calls = leaves_call [OF execs_skips [OF privs_skips_calls(1)]] leaves_call [OF execs_skips [OF privs_skips_calls(2)]]
  leaves_call [OF execs_skips [OF privs_skips_calls(3)]] leaves_call [OF execs_skips_priv]
  leaves_handle [OF execs_skips [OF privs_skips_calls(1)] execs_of_log] leaves_handle [OF execs_skips [OF privs_skips_calls(2)] execs_of_log]
  leaves_read [OF execs_skips [OF privs_skips_calls(1)]]

lemma execs_close [leaves_rules]: "keeps execs (os_close K h)"
  unfolding os_close_def by (rule execs_calls)

lemma stage_leaves [leaves_rules]: "leaves F m \<Longrightarrow> leaves F (stage s m)"
  unfolding stage_def by (rule leaves_rules)

lemma join_group_execs: "leaves execs (join_group K uid gid)"
  unfolding join_group_def writeGroup_def by (intro leaves_rules execs_calls)

lemma read_config_execs: "leaves execs (read_config K)"
  unfolding read_config_def by (intro leaves_rules execs_calls)

lemma prepare_root_execs: "leaves execs (prepare_root K root)"
  unfolding prepare_root_def by (intro leaves_rules execs_calls) simp_all

lemma bind_mount_execs: "leaves execs (bind_mount K root src dst d)"
  unfolding bind_mount_def Let_def by (intro leaves_rules execs_calls) simp_all

lemma bind_paths_execs: "leaves execs (bind_paths K root cb ds)"
  unfolding bind_paths_def by (intro leaves_rules execs_calls bind_mount_execs) simp_all

lemma pivot_root_execs: "leaves execs (pivot_root K)"
  unfolding pivot_root_def by (intro leaves_rules execs_calls) simp_all

lemma drop_credentials_execs: "leaves execs (drop_credentials K uid gid)"
  unfolding drop_credentials_def by (simp, intro leaves_rules execs_calls) simp_all
text \<open>A failed run.\<close>

definition fails_keeping :: "(world \<Rightarrow> 'b) \<Rightarrow> 'a os \<Rightarrow> bool" where
  "fails_keeping F m = (\<forall>w e w'. m w = (Inl e, w') \<longrightarrow> F w' = F w)"

lemma fails_keepingD: "fails_keeping F m \<Longrightarrow> m w = (Inl e, w') \<Longrightarrow> F w' = F w"
  by (simp add: fails_keeping_def)

lemma fails_try: "leaves F m \<Longrightarrow> (\<And>x. fails_keeping F (f x)) \<Longrightarrow> fails_keeping F (os_try m f)"
  unfolding fails_keeping_def by (auto simp: os_try_def dest: leavesD split: prod.splits sum.splits)

lemma fails_on_error: "fails_keeping F m \<Longrightarrow> keeps F c \<Longrightarrow> fails_keeping F (os_on_error m c)"
  unfolding fails_keeping_def by (auto simp: os_on_error_def keeps_def split: prod.splits)

lemma fails_after: "keeps F c \<Longrightarrow> fails_keeping F m \<Longrightarrow> fails_keeping F (os_after c m)"
  unfolding fails_keeping_def keeps_def by (simp add: os_after_def)

lemma fails_exec: "fails_keeping execs (stage s (os_do K (Priv c)))"
  by (auto simp: fails_keeping_def stage_def os_map_error_def os_call_defs execs_def privs_def priv_of_def split: os_reply.splits sum.splits)

lemma sandbox_fails: "fails_keeping execs (sandboxWorker K uid gid)"
  unfolding sandboxWorker_def Let_def case_prod_beta
  by (intro fails_try fails_on_error fails_after fails_exec stage_leaves execs_close join_group_execs read_config_execs
      prepare_root_execs bind_paths_execs pivot_root_execs drop_credentials_execs)

text \<open>The handles of the stages.\<close>

lemma stage_leakless: "leakless m own \<Longrightarrow> leakless (stage s m) own"
  unfolding stage_def by (rule os_map_error_gains)

lemma read_config_leakless: "leakless (read_config K) (\<lambda>_. {})"
  unfolding read_config_def by (intro os_try_plain gains_rules os_lift_gains refl) (auto intro: os_ret_gains gains_rules)

lemma prepare_root_leakless: "leakless (prepare_root K root) (\<lambda>_. {})"
  unfolding prepare_root_def
  by (rule os_after_gains [OF _ drops_note]) (auto intro!: os_try_plain gains_rules)

lemma bind_mount_leakless: "leakless (bind_mount K root src dst d) (\<lambda>_. {})"
proof -
  let ?t = "path_join root dst"
  have "leakless (os_try (os_handle K (Path (PCreateFile ?t))) (\<lambda>f. os_finally (os_ret ()) (os_close K f))) (\<lambda>_. {})"
    by (rule read_closed) (auto intro: gains_rules os_ret_gains)
  moreover have "os_after (os_close K f) (os_ret ()) = os_finally (os_ret ()) (os_close K f)" for f
    by (rule ext) (simp add: os_comb_defs)
  ultimately have create: "leakless (os_try (os_handle K (Path (PCreateFile ?t))) (\<lambda>f. os_after (os_close K f) (os_ret ()))) (\<lambda>_. {})" by simp
  show ?thesis unfolding bind_mount_def Let_def
    by (rule read_closed) (auto intro!: os_try_plain gains_rules create)
qed

lemma bind_paths_leakless: "leakless (bind_paths K root cb ds) (\<lambda>_. {})"
  unfolding bind_paths_def
  by (intro os_try_plain gains_rules bind_mount_leakless os_each_leakless os_map_error_gains)

lemma pivot_root_leakless: "leakless (pivot_root K) (\<lambda>_. {})"
  unfolding pivot_root_def by (intro os_try_plain gains_rules)

lemma drop_credentials_leakless: "leakless (drop_credentials K uid gid) (\<lambda>_. {})"
  unfolding drop_credentials_def by (intro os_each_leakless gains_rules)

lemma join_group_Ok:
  assumes "join_group K uid gid w = (Inr u, w')" "w_ok w"
  shows "0 < uid \<and> 0 < gid \<and> w_ok w' \<and> live w' = live w - {8} \<and> privs w' = privs w \<and> w_next w' = w_next w + 1"
proof -
  from assms(1) obtain e p w1 w2 w3 where e: "os_num K (Proc CGeteuid) w = (Inr e, w1)" and ids: "0 < uid" "0 < gid"
    and p: "os_num K (Proc CGetpid) w1 = (Inr p, w2)" and wr: "writeGroup K 8 ''cgroup.procs'' (itoa p) w2 = (Inr u, w3)" "w' = os_close K 8 w3"
    unfolding join_group_def by (auto elim!: os_try_OkE os_finally_OkE split: if_splits)
  have "adds (writeGroup K 8 ''cgroup.procs'' (itoa p)) (1 + 0) (\<lambda>_. [] @ [])"
    unfolding writeGroup_def by (rule adds_try [OF adds_handles(1)], rule adds_finally, rule adds_calls)
  note a = addsD [OF this wr(1)] addsD [OF adds_calls(11) p] addsD [OF adds_calls(11) e]
  note l1 = leaklessD(2) [OF os_num_leakless assms(2) e]
  note l2 = leaklessD(2) [OF os_num_leakless conjunct1 [OF l1] p]
  note l3 = leaklessD(2) [OF writeGroup_leakless conjunct1 [OF l2] wr(1)]
  have "privs w' = privs w3" using privs_close wr(2) by (simp add: keeps_def)
  moreover have "live w' = live w3 - {8}" "w_next w' = w_next w3" "w_ok w'"
    using dropsD [OF drops_close] w_ok_drops [OF drops_close] l3 wr(2) by simp_all
  ultimately show ?thesis using ids a l1 l2 l3 by simp
qed

lemma read_config_Ok:
  assumes "read_config K w = (Inr (wc, ds, exe), w')"
  shows "(\<exists>raw. answered w' (File (FReadAll 6 1048576)) (RText raw) \<and> decode_worker_config (limit_text 1048576 raw) = Ok wc) \<and>
    workerSocketDirectories (wc_workload wc) = Ok ds \<and> has_prefix ''/nix/store/'' exe"
proof -
  from assms obtain raw w1 u w2 where raw: "os_read K 6 1048576 w = (Inr raw, w1)" and wc: "decode_worker_config raw = Ok wc"
    and seek: "os_do K (File (FSeek 6)) w1 = (Inr u, w2)" and ds: "workerSocketDirectories (wc_workload wc) = Ok ds"
    and exe: "os_text K (Proc CExecutable) w2 = (Inr exe, w')" "has_prefix ''/nix/store/'' exe"
    unfolding read_config_def by (auto elim!: os_try_OkE simp: os_lift_Ok os_ret_Ok split: if_splits)
  obtain doc where "answered w1 (File (FReadAll 6 1048576)) (RText doc)" "raw = limit_text 1048576 doc"
    using os_read_answered [OF raw] by blast
  moreover from this(1) have "answered w' (File (FReadAll 6 1048576)) (RText doc)"
    by (intro grows_answered [OF grows_calls(2) exe(1)] grows_answered [OF grows_calls(1) seek])
  ultimately show ?thesis using wc ds exe(2) by blast
qed

lemma read_config_adds: "adds (read_config K) 0 (\<lambda>_. [])"
proof (rule leaves_adds)
  show "leaves privs (read_config K)" unfolding read_config_def by (intro leaves_rules privs_leaves)
  have s: "skips w_next c" for c by (simp add: skips_def)
  show "leaves w_next (read_config K)" unfolding read_config_def
    by (intro leaves_rules leaves_call [OF s] leaves_read s)
qed

section \<open>The sandbox as a whole\<close>

text \<open>The privileged calls of a bootstrap whose first new handle is \<open>n\<close>.\<close>

definition confinement :: "nat \<Rightarrow> string \<Rightarrow> string list \<Rightarrow> int \<Rightarrow> int \<Rightarrow> string \<Rightarrow> priv_call list" where
  "confinement n root ds uid gid exe =
     private_mounts root @ bound (n + 1) (path_join root ''/nix/store'') @
     bound (n + 2) (path_join root ''/etc/ssl/certs/ca-certificates.crt'') @ bound_all root (n + 4) ds @ [SChdir root] @
     pivot_calls @ drop_calls uid gid @ [exec_call exe]"

definition bound_sources :: "nat \<Rightarrow> string \<Rightarrow> string list \<Rightarrow> (nat \<times> string \<times> bool) list" where
  "bound_sources n ca ds = [(n + 1, ''/nix/store'', True), (n + 2, ca, False)] @ egress_sources (n + 4) ds"

definition worker_root :: "workload \<Rightarrow> string" where
  "worker_root w = path_join (path_dir (wl_socket w)) ''root''"

lemma stage_Ok: "stage s m w = (Inr y, w') \<longleftrightarrow> m w = (Inr y, w')"
  by (auto simp: stage_def os_map_error_def split: prod.splits sum.splits)

lemma stage_grows [grows_rules]: "grows m \<Longrightarrow> grows (stage s m)"
  unfolding stage_def by (rule grows_rules)

lemma sandbox_Ok:
  assumes run: "sandboxWorker K uid gid w = (Inr u, w')" and w: "w_ok w"
  shows "0 < uid \<and> 0 < gid \<and> live w' = live w - {3, 8} \<and>
    (\<exists>raw wc ds exe ca. answered w' (File (FReadAll 6 1048576)) (RText raw) \<and> decode_worker_config (limit_text 1048576 raw) = Ok wc \<and>
      workerSocketDirectories (wc_workload wc) = Ok ds \<and> has_prefix ''/nix/store/'' exe \<and>
      answered w' (Path (PEvalSymlinks (wc_ca wc))) (RText ca) \<and> opened w' (bound_sources (w_next w) ca ds) \<and>
      privs w' = privs w @ confinement (w_next w) (worker_root (wc_workload wc)) ds uid gid exe)"
proof -
  obtain u1 w1 wc ds exe w2 u3 w3 u4 w4 u5 w5 u6 w6 where j: "join_group K uid gid w = (Inr u1, w1)"
    and r: "read_config K w1 = (Inr (wc, ds, exe), w2)" and p: "prepare_root K (worker_root (wc_workload wc)) w2 = (Inr u3, w3)"
    and b: "bind_paths K (worker_root (wc_workload wc)) (wc_ca wc) ds w3 = (Inr u4, w4)" and v: "pivot_root K w4 = (Inr u5, w5)"
    and d: "drop_credentials K uid gid w5 = (Inr u6, w6)" and x: "os_do K (Priv (exec_call exe)) (os_close K 3 w6) = (Inr u, w')"
    using run unfolding sandboxWorker_def Let_def
    by (auto elim!: os_try_OkE os_on_error_OkE simp: stage_Ok os_after_def worker_root_def exec_call_def split: prod.splits)
  note l1 = join_group_Ok [OF j w]
  note l2 = leaklessD(2) [OF read_config_leakless _ r]
  note l3 = leaklessD(2) [OF prepare_root_leakless _ p]
  note l4 = leaklessD(2) [OF bind_paths_leakless _ b]
  note l5 = leaklessD(2) [OF pivot_root_leakless _ v]
  note l6 = leaklessD(2) [OF drop_credentials_leakless _ d]
  note l7 = dropsD(1) [OF drops_close, of K 3 w6] w_ok_drops [OF drops_close, of w6 K 3] leaklessD(2) [OF os_do_leakless _ x]
  have live: "live w' = live w - {3, 8}" using l1 l2 l3 l4 l5 l6 l7 by auto
  have "adds (os_do K (Priv (exec_call exe))) 0 (\<lambda>_. [exec_call exe])" by (rule adds_priv) (simp add: exec_call_def)
  note a = addsD [OF read_config_adds r] addsD [OF prepare_root_adds p] bind_paths_Ok [OF b] addsD [OF pivot_root_adds v]
    addsD [OF drop_credentials_adds d] addsD [OF this x]
  have "privs (os_close K 3 w6) = privs w6" using privs_close by (simp add: keeps_def)
  moreover have n3: "w_next w3 = w_next w + 1" using l1 a by simp
  ultimately have privs: "privs w' = privs w @ confinement (w_next w) (worker_root (wc_workload wc)) ds uid gid exe"
    using a l1 unfolding confinement_def by (simp add: add.commute [of _ "w_next w"])
  have g: "grows (pivot_root K)" "grows (drop_credentials K uid gid)" "grows (prepare_root K (worker_root (wc_workload wc)))"
    "grows (bind_paths K (worker_root (wc_workload wc)) (wc_ca wc) ds)"
    unfolding pivot_root_def drop_credentials_def prepare_root_def bind_paths_def by (auto intro!: grows_rules)
  have up4: "answered w4 q s \<Longrightarrow> answered w' q s" for q s
    by (rule grows_answered [OF grows_calls(1) x], rule appends_answered [OF appends_close], rule grows_answered [OF g(2) d],
        rule grows_answered [OF g(1) v])
  have up2: "answered w2 q s \<Longrightarrow> answered w' q s" for q s
    by (rule up4, rule grows_answered [OF g(4) b], rule grows_answered [OF g(3) p])
  obtain ca where ca: "answered w4 (Path (PEvalSymlinks (wc_ca wc))) (RText ca)"
    "opened w4 ([(w_next w3, ''/nix/store'', True), (w_next w3 + 1, ca, False)] @ egress_sources (w_next w3 + 3) ds)" using a(3) by blast
  have "[(w_next w3, ''/nix/store'', True), (w_next w3 + 1, ca, False)] @ egress_sources (w_next w3 + 3) ds = bound_sources (w_next w) ca ds"
    unfolding n3 bound_sources_def by (simp add: add.commute)
  with ca up4 have "answered w' (Path (PEvalSymlinks (wc_ca wc))) (RText ca)" "opened w' (bound_sources (w_next w) ca ds)"
    unfolding opened_def list_all_iff by (simp, fastforce)
  moreover obtain raw where "answered w' (File (FReadAll 6 1048576)) (RText raw)" "decode_worker_config (limit_text 1048576 raw) = Ok wc"
    using read_config_Ok [OF r] up2 by blast
  ultimately show ?thesis using l1 live privs read_config_Ok [OF r] by blast
qed

text \<open>C3. Whatever the system answers, the bootstrap either fails without having become the worker, or it became the
  worker with exactly the calls of \<open>confinement\<close> behind it, all successful and in this order: its own mount namespace,
  a read-only root that shows the Nix store, the CA bundle and the egress directories of its configuration, an
  unprivileged user and group, no capabilities and no way to regain any. It then holds the descriptors 4 to 7 only.\<close>

theorem sandbox_confined:
  assumes "sandboxWorker K uid gid w = (r, w')" "w_ok w" "live w = {3..8}"
  shows "case r of
      Inl e \<Rightarrow> execs w' = execs w
    | Inr u \<Rightarrow> 0 < uid \<and> 0 < gid \<and> live w' = {4..7} \<and>
        (\<exists>raw wc ds exe ca. answered w' (File (FReadAll 6 1048576)) (RText raw) \<and> decode_worker_config (limit_text 1048576 raw) = Ok wc \<and>
          workerSocketDirectories (wc_workload wc) = Ok ds \<and> has_prefix ''/nix/store/'' exe \<and>
          answered w' (Path (PEvalSymlinks (wc_ca wc))) (RText ca) \<and> opened w' (bound_sources (w_next w) ca ds) \<and>
          privs w' = privs w @ confinement (w_next w) (worker_root (wc_workload wc)) ds uid gid exe)"
proof (cases r)
  case (Inl e)
  then show ?thesis using fails_keepingD [OF sandbox_fails] assms(1) by simp
next
  case (Inr u)
  have "{3..8} - {3, 8} = {4..7::nat}" by auto
  then show ?thesis using sandbox_Ok [of K uid gid w u w'] assms Inr by simp
qed

definition ex_worker_json :: json where
  "ex_worker_json = JObj [(''workload'', JObj [(''name'', JStr ''web''), (''user'', JStr ''web''), (''group'', JStr ''web''),
     (''workerUser'', JStr ''rnet-web''), (''socket'', JStr ''/run/realm-agent/web/gate.sock''),
     (''internetSocket'', JStr ''/run/egress/web/e.sock'')]), (''caBundle'', JStr ''/etc/ca.crt'')]"

definition ex_sandbox_kernel :: kernel where
  "ex_sandbox_kernel log c =
     (case c of
        Proc p \<Rightarrow> (case p of CGeteuid \<Rightarrow> RNum 0 | CGetpid \<Rightarrow> RNum 42 | CExecutable \<Rightarrow> RText ''/nix/store/agent'' | _ \<Rightarrow> ROk)
      | File f \<Rightarrow> (case f of FReadAll h n \<Rightarrow> RText (json_print ex_worker_json) | _ \<Rightarrow> ROk)
      | Path q \<Rightarrow> (case q of PLstat s \<Rightarrow> RStat \<lparr>st_ino = 1, st_uid = 0, st_mode = 16877\<rparr> | PEvalSymlinks s \<Rightarrow> RText ''/nix/store/ca'' | _ \<Rightarrow> ROk)
      | _ \<Rightarrow> ROk)"

definition ex_sandbox_world :: world where
  "ex_sandbox_world = \<lparr>w_next = 9, w_live = [3, 4, 5, 6, 7, 8], w_log = []\<rparr>"

lemma stage_succeeds [succeeds_rules]: "succeeds m \<Longrightarrow> succeeds (stage s m)"
  unfolding stage_def by (rule succeeds_rules)

lemma ex_sandbox_calls: "succeeds (os_do ex_sandbox_kernel c)" "succeeds (os_handle ex_sandbox_kernel c)"
proof -
  have "\<forall>e. ex_sandbox_kernel log c \<noteq> RErr e" for log
    by (simp add: ex_sandbox_kernel_def split: os_call.split proc_call.split file_call.split path_call.split)
  then show "succeeds (os_do ex_sandbox_kernel c)" "succeeds (os_handle ex_sandbox_kernel c)" by (rule succeeds_calls)+
qed

lemma ex_worker_config:
  "\<exists>wc ds. decode_worker_config (json_print ex_worker_json) = Ok wc \<and> workerSocketDirectories (wc_workload wc) = Ok ds"
proof -
  have safe: "json_safe ex_worker_json" by code_simp
  have "json_next (json_print ex_worker_json @ []) = Some (ex_worker_json, [])"
    by (rule json_next_print [OF safe]) (simp add: json_follow_def)
  moreover have "is_ok (case dec_worker_config ex_worker_json zero_worker_config of
      None \<Rightarrow> Inl (ErrLib ''json'') | Some wc \<Rightarrow> (case validate (wc_workload wc) of Inl e \<Rightarrow> Inl e | Inr w \<Rightarrow> workerSocketDirectories w))"
    by code_simp
  ultimately show ?thesis by (auto simp: decode_worker_config_def is_ok_iff split: option.splits sum.splits)
qed

lemma ex_sandbox_join: "is_ok (fst (join_group ex_sandbox_kernel 990 991 ex_sandbox_world))"
proof -
  have "succeeds (writeGroup ex_sandbox_kernel h n v)" for h n v
    unfolding writeGroup_def by (intro succeeds_rules ex_sandbox_calls)
  then have fin: "succeeds (os_finally (writeGroup ex_sandbox_kernel 8 n v) (os_close ex_sandbox_kernel 8))" for n v by (intro succeeds_rules)
  show ?thesis unfolding join_group_def
    by (simp add: os_try_def os_call_defs ex_sandbox_kernel_def) (metis fin fst_conv is_ok_simps(1) succeeds_def)
qed

lemma ex_sandbox_read: "\<exists>r w'. read_config ex_sandbox_kernel w = (Ok r, w')"
proof -
  obtain wc ds where c: "decode_worker_config (json_print ex_worker_json) = Ok wc" "workerSocketDirectories (wc_workload wc) = Ok ds"
    using ex_worker_config by blast
  have "length (json_print ex_worker_json) \<le> 300" by code_simp
  then have l: "limit_text 1048576 (json_print ex_worker_json) = json_print ex_worker_json" by (simp add: limit_text_def)
  show ?thesis unfolding read_config_def
    by (simp add: os_try_def os_read_def os_call_defs ex_sandbox_kernel_def l c os_lift_def has_prefix_def os_ret_def)
qed

lemma ex_sandbox_stages:
  "succeeds (prepare_root ex_sandbox_kernel root)" "succeeds (bind_paths ex_sandbox_kernel root cb ds)"
  "succeeds (pivot_root ex_sandbox_kernel)" "succeeds (drop_credentials ex_sandbox_kernel uid gid)"
proof -
  have st: "os_stat ex_sandbox_kernel (Path (PLstat root)) w = (Ok s, w') \<Longrightarrow> safe_root s" for s w w'
  proof -
    have "safe_root \<lparr>st_ino = 1, st_uid = 0, st_mode = 16877\<rparr>" by code_simp
    then show "os_stat ex_sandbox_kernel (Path (PLstat root)) w = (Ok s, w') \<Longrightarrow> safe_root s"
      by (auto simp: os_call_defs ex_sandbox_kernel_def)
  qed
  have rest: "succeeds (os_try (os_do ex_sandbox_kernel a) (\<lambda>_. os_try (os_do ex_sandbox_kernel b) (\<lambda>_. os_do ex_sandbox_kernel c)))" for a b c
    by (intro succeeds_rules ex_sandbox_calls)
  have "succeeds (os_try (os_stat ex_sandbox_kernel (Path (PLstat root))) (\<lambda>st. if \<not> safe_root st then os_fail e else
      os_try (os_do ex_sandbox_kernel a) (\<lambda>_. os_try (os_do ex_sandbox_kernel b) (\<lambda>_. os_do ex_sandbox_kernel c))))" for e a b c
    unfolding succeeds_def
  proof
    fix w
    obtain s w1 where s: "os_stat ex_sandbox_kernel (Path (PLstat root)) w = (Ok s, w1)" by (simp add: os_call_defs ex_sandbox_kernel_def)
    obtain y w2 where "os_try (os_do ex_sandbox_kernel a) (\<lambda>_. os_try (os_do ex_sandbox_kernel b) (\<lambda>_. os_do ex_sandbox_kernel c)) w1 = (Ok y, w2)"
      using rest by (rule succeedsE)
    with s st [OF s] show "\<exists>x w'. os_try (os_stat ex_sandbox_kernel (Path (PLstat root))) (\<lambda>st. if \<not> safe_root st then os_fail e else
      os_try (os_do ex_sandbox_kernel a) (\<lambda>_. os_try (os_do ex_sandbox_kernel b) (\<lambda>_. os_do ex_sandbox_kernel c))) w = (Ok x, w')"
      by (simp add: os_try_def [of "os_stat ex_sandbox_kernel (Path (PLstat root))"])
  qed
  note stat = this
  show "succeeds (prepare_root ex_sandbox_kernel root)" unfolding prepare_root_def
    by (rule succeeds_after, rule succeeds_try, rule succeeds_allow, rule ex_sandbox_calls, rule stat)
  have "succeeds (bind_mount ex_sandbox_kernel root src dst d)" for src dst d
    unfolding bind_mount_def Let_def by (cases d) (simp_all, (intro succeeds_rules ex_sandbox_calls)+)
  moreover have "succeeds (os_text ex_sandbox_kernel (Path (PEvalSymlinks cb)))" by (simp add: succeeds_def os_call_defs ex_sandbox_kernel_def)
  ultimately show "succeeds (bind_paths ex_sandbox_kernel root cb ds)" unfolding bind_paths_def
    by (intro succeeds_rules ex_sandbox_calls)
  show "succeeds (pivot_root ex_sandbox_kernel)" "succeeds (drop_credentials ex_sandbox_kernel uid gid)"
    unfolding pivot_root_def drop_credentials_def by (intro succeeds_rules ex_sandbox_calls)+
qed

lemma ex_sandbox_runs: "is_ok (fst (sandboxWorker ex_sandbox_kernel 990 991 ex_sandbox_world))"
proof -
  obtain u w1 where j: "join_group ex_sandbox_kernel 990 991 ex_sandbox_world = (Ok u, w1)"
    using ex_sandbox_join by (cases "join_group ex_sandbox_kernel 990 991 ex_sandbox_world") (auto simp: is_ok_iff)
  obtain wc ds exe w2 where r: "read_config ex_sandbox_kernel w1 = (Ok (wc, ds, exe), w2)" using ex_sandbox_read [of w1] by (metis surj_pair)
  let ?root = "path_join (path_dir (wl_socket (wc_workload wc))) ''root''"
  have "succeeds (os_try (stage ''prepare minimal root'' (prepare_root ex_sandbox_kernel ?root)) (\<lambda>_.
       os_try (stage ''bind declared paths'' (bind_paths ex_sandbox_kernel ?root (wc_ca wc) ds)) (\<lambda>_.
       os_try (stage ''pivot minimal root'' (pivot_root ex_sandbox_kernel)) (\<lambda>_.
       os_try (stage ''drop worker credentials'' (drop_credentials ex_sandbox_kernel 990 991)) (\<lambda>_.
       os_after (os_close ex_sandbox_kernel 3)
       (stage ''exec unprivileged worker''
         (os_do ex_sandbox_kernel (Priv (SExec exe [exe, ''worker'']
           [''GOMAXPROCS=2'', ''SSL_CERT_FILE=/etc/ssl/certs/ca-certificates.crt'', ''SSL_CERT_DIR=/nonexistent''])))))))))"
    by (intro succeeds_rules ex_sandbox_stages ex_sandbox_calls)
  then obtain y w3 where "os_try (stage ''prepare minimal root'' (prepare_root ex_sandbox_kernel ?root)) (\<lambda>_.
       os_try (stage ''bind declared paths'' (bind_paths ex_sandbox_kernel ?root (wc_ca wc) ds)) (\<lambda>_.
       os_try (stage ''pivot minimal root'' (pivot_root ex_sandbox_kernel)) (\<lambda>_.
       os_try (stage ''drop worker credentials'' (drop_credentials ex_sandbox_kernel 990 991)) (\<lambda>_.
       os_after (os_close ex_sandbox_kernel 3)
       (stage ''exec unprivileged worker''
         (os_do ex_sandbox_kernel (Priv (SExec exe [exe, ''worker'']
           [''GOMAXPROCS=2'', ''SSL_CERT_FILE=/etc/ssl/certs/ca-certificates.crt'', ''SSL_CERT_DIR=/nonexistent''])))))))) w2 = (Ok y, w3)"
    by (rule succeedsE)
  moreover have "stage ''join worker cgroup'' (join_group ex_sandbox_kernel 990 991) ex_sandbox_world = (Ok u, w1)"
    "stage ''read sealed configuration'' (read_config ex_sandbox_kernel) w1 = (Ok (wc, ds, exe), w2)" using j r by (simp_all add: stage_Ok)
  ultimately show ?thesis unfolding sandboxWorker_def
    by (simp add: os_try_def [of "stage ''join worker cgroup'' _"] os_try_def [of "stage ''read sealed configuration'' _"]
        os_on_error_def Let_def)
qed

theorem sandbox_confined_witness:
  "live (snd (sandboxWorker ex_sandbox_kernel 990 991 ex_sandbox_world)) = {4..7}"
proof -
  have "w_ok ex_sandbox_world" "live ex_sandbox_world = {3..8}" by (auto simp: w_ok_def ex_sandbox_world_def)
  then show ?thesis
    using sandbox_confined [of ex_sandbox_kernel 990 991 ex_sandbox_world] ex_sandbox_runs
    by (cases "sandboxWorker ex_sandbox_kernel 990 991 ex_sandbox_world") (auto simp: is_ok_iff)
qed

definition ex_egress :: workload where
  "ex_egress = ex_workload\<lparr>wl_internet_socket := ''/run/egress/b/s'', wl_routes :=
     [\<lparr>rt_prefix = ''10.0.0.0/8'', rt_port = 443, rt_socket = ''/run/egress/a/s''\<rparr>, \<lparr>rt_prefix = ''10.0.0.0/8'', rt_port = 80, rt_socket = ''/run/egress/b/t''\<rparr>]\<rparr>"

theorem worker_directories_witness:
  "workerSocketDirectories ex_egress = Ok [''/run/egress/a'', ''/run/egress/b''] \<and> distinct [''/run/egress/a'', ''/run/egress/b'']"
proof -
  have "workerSocketDirectories ex_egress = Ok [''/run/egress/a'', ''/run/egress/b'']" by code_simp
  then show ?thesis using worker_directories [of ex_egress] by blast
qed

end
