(* ===== verification/Go_Os_Logic.thy ===== *)
theory Go_Os_Logic
  imports Go_Os
begin

text \<open>
  Two ways to reason about a computation on the world: what holds after it succeeded (\<open>triple\<close>, with one
  rule per combinator; facts about the log survive every later call, so a step that is not of interest is
  skipped), and how it changes the set of open handles (\<open>turns\<close>, composed along a handler).
\<close>

section \<open>Later worlds\<close>

definition later :: "world \<Rightarrow> world \<Rightarrow> bool" where
  "later w w' \<longleftrightarrow> (\<exists>es. w_log w' = w_log w @ es)"

lemma later_refl [simp]: "later w w"
  by (simp add: later_def)

lemma later_trans [trans]: "later u v \<Longrightarrow> later v w \<Longrightarrow> later u w"
  by (auto simp: later_def)

lemma later_grows: "grows m \<Longrightarrow> m w = (r, w') \<Longrightarrow> later w w'"
  unfolding later_def appends_def by (metis snd_conv)

lemma later_appends: "appends c \<Longrightarrow> later w (c w)"
  unfolding later_def appends_def by blast

lemma later_answered: "later w w' \<Longrightarrow> answered w c r \<Longrightarrow> answered w' c r"
  by (auto simp: later_def answered_def)

text \<open>What holds along every growing computation holds in every later world.\<close>

lemma later_run:
  assumes "later w w'"
  obtains m :: "unit os" where "grows m" "m w = (Ok (), w')"
proof
  show "grows (\<lambda>v. (Ok (), if w_log v = w_log w then w' else v))"
    using assms by (auto simp: appends_def later_def)
qed simp

definition stable :: "(world \<Rightarrow> bool) \<Rightarrow> bool" where
  "stable P \<longleftrightarrow> (\<forall>w w'. later w w' \<longrightarrow> P w \<longrightarrow> P w')"

named_theorems stable_rules "facts about the log survive later calls"

lemma stableD: "stable P \<Longrightarrow> later w w' \<Longrightarrow> P w \<Longrightarrow> P w'"
  by (auto simp: stable_def)

lemma stable_answered [stable_rules]: "stable (\<lambda>w. answered w c r)"
  by (auto simp: stable_def intro: later_answered)

lemma stable_const [stable_rules]: "stable (\<lambda>w. b)"
  by (simp add: stable_def)

lemma stable_conj [stable_rules]: "stable P \<Longrightarrow> stable Q \<Longrightarrow> stable (\<lambda>w. P w \<and> Q w)"
  by (auto simp: stable_def)

lemma stable_disj [stable_rules]: "stable P \<Longrightarrow> stable Q \<Longrightarrow> stable (\<lambda>w. P w \<or> Q w)"
  by (auto simp: stable_def)

lemma stable_ex [stable_rules]: "(\<And>x. stable (P x)) \<Longrightarrow> stable (\<lambda>w. \<exists>x. P x w)"
  unfolding stable_def by blast

lemma stable_grows:
  assumes "\<And>(m :: unit os) r w w'. grows m \<Longrightarrow> m w = (r, w') \<Longrightarrow> P w \<Longrightarrow> P w'"
  shows "stable P"
  unfolding stable_def using assms later_run by metis

section \<open>What a successful run establishes\<close>

definition triple :: "(world \<Rightarrow> bool) \<Rightarrow> 'a os \<Rightarrow> ('a \<Rightarrow> world \<Rightarrow> bool) \<Rightarrow> bool" where
  "triple P m Q \<longleftrightarrow> (\<forall>w y w'. P w \<longrightarrow> m w = (Ok y, w') \<longrightarrow> Q y w')"

lemma tripleD: "triple P m Q \<Longrightarrow> P w \<Longrightarrow> m w = (Ok y, w') \<Longrightarrow> Q y w'"
  by (auto simp: triple_def)

lemma tripleI: "(\<And>w y w'. P w \<Longrightarrow> m w = (Ok y, w') \<Longrightarrow> Q y w') \<Longrightarrow> triple P m Q"
  by (auto simp: triple_def)

lemma triple_weaken: "triple P m Q \<Longrightarrow> (\<And>y w. Q y w \<Longrightarrow> R y w) \<Longrightarrow> triple P m R"
  by (auto simp: triple_def)

text \<open>A step whose result matters, and one that is skipped.\<close>

lemma triple_try: "triple P m R \<Longrightarrow> (\<And>x. triple (R x) (f x) Q) \<Longrightarrow> triple P (os_try m f) Q"
  unfolding triple_def by (blast elim: os_try_OkE)

lemma triple_try_else: "triple P m R \<Longrightarrow> (\<And>x. triple (R x) (f x) Q) \<Longrightarrow> triple P (os_try_else m c f) Q"
  unfolding triple_def by (blast elim: os_try_else_OkE)

lemma triple_keeps: "stable P \<Longrightarrow> grows m \<Longrightarrow> triple P m (\<lambda>_. P)"
  unfolding triple_def by (metis later_grows stableD)

lemma triple_skip: "stable P \<Longrightarrow> grows m \<Longrightarrow> (\<And>x. triple P (f x) Q) \<Longrightarrow> triple P (os_try m f) Q"
  by (rule triple_try [OF triple_keeps])

lemma triple_skip_else: "stable P \<Longrightarrow> grows m \<Longrightarrow> (\<And>x. triple P (f x) Q) \<Longrightarrow> triple P (os_try_else m c f) Q"
  by (rule triple_try_else [OF triple_keeps])

lemma triple_finally:
  assumes "triple P m Q" "\<And>y. stable (Q y)" "appends c"
  shows "triple P (os_finally m c) Q"
proof (rule tripleI)
  fix w y w' assume "P w" "os_finally m c w = (Ok y, w')"
  then show "Q y w'" using assms by (elim os_finally_OkE) (metis later_appends stableD tripleD)
qed

lemma triple_on_error: "triple P m Q \<Longrightarrow> triple P (os_on_error m c) Q"
  unfolding triple_def by (blast elim: os_on_error_OkE)

lemma triple_after: "triple P m Q \<Longrightarrow> stable P \<Longrightarrow> appends c \<Longrightarrow> triple P (os_after c m) Q"
  unfolding triple_def os_after_def by (metis later_appends stableD)

lemma triple_map_error: "triple P m Q \<Longrightarrow> triple P (os_map_error g m) Q"
  unfolding triple_def by (blast elim: os_map_error_OkE)

lemma triple_ret: "(\<And>w. P w \<Longrightarrow> Q x w) \<Longrightarrow> triple P (os_ret x) Q"
  by (auto simp: triple_def os_ret_def)

lemma triple_fail: "triple P (os_fail e) Q"
  by (auto simp: triple_def os_fail_def)

lemma triple_lift: "(\<And>w x. r = Ok x \<Longrightarrow> P w \<Longrightarrow> Q x w) \<Longrightarrow> triple P (os_lift r) Q"
  by (auto simp: triple_def os_lift_def)

lemma triple_handle: "stable P \<Longrightarrow> triple P (os_handle K c) (\<lambda>h w. P w \<and> answered w c (RHandle h))"
  unfolding triple_def by (metis grows_handles(2) later_grows os_handle_answered stableD)

lemma triple_text: "stable P \<Longrightarrow> triple P (os_text K c) (\<lambda>s w. P w \<and> answered w c (RText s))"
  unfolding triple_def by (metis grows_calls(2) later_grows os_text_answered stableD)

lemma triple_stat: "stable P \<Longrightarrow> triple P (os_stat K c) (\<lambda>s w. P w \<and> answered w c (RStat s))"
  unfolding triple_def by (metis grows_calls(4) later_grows os_stat_answered stableD)

lemma triple_cred: "stable P \<Longrightarrow> triple P (os_cred K c) (\<lambda>x w. P w \<and> answered w c (RCred (fst x) (snd x)))"
  unfolding triple_def by (metis grows_calls(5) later_grows os_cred_answered stableD prod.collapse)

section \<open>How the open handles change\<close>

text \<open>The handles \<open>A\<close> are replaced by \<open>A'\<close>, where \<open>A'\<close> consists of handles of \<open>A\<close> and new ones; the others stay.\<close>

definition turns :: "world \<Rightarrow> handle set \<Rightarrow> handle set \<Rightarrow> world \<Rightarrow> bool" where
  "turns w A A' w' \<longleftrightarrow> w_ok w' \<and> w_next w \<le> w_next w' \<and> live w' = (live w - A) \<union> A' \<and> A' \<subseteq> A \<union> {w_next w..<w_next w'}"

lemma leakless_turns:
  assumes "leakless m own" "w_ok w" "m w = (r, w')"
  shows "turns w {} (case r of Inl _ \<Rightarrow> {} | Inr y \<Rightarrow> own y) w'"
  using leaklessD [OF assms(1,2)] assms(3) by (cases r) (auto simp: turns_def)

lemma drops_turns: "drops c A \<Longrightarrow> w_ok w \<Longrightarrow> turns w A {} (c w)"
  by (auto simp: turns_def dropsD w_ok_drops)

lemma turns_id: "w_ok w \<Longrightarrow> A \<subseteq> live w \<Longrightarrow> turns w A A w"
  by (auto simp: turns_def)

lemma turns_ok: "turns w A A' w' \<Longrightarrow> w_ok w'"
  by (simp add: turns_def)

lemma turns_comp:
  assumes w: "w_ok w" and a: "turns w A B w1" and b: "turns w1 C D w2"
  shows "turns w (A \<union> (C - B)) ((B - C) \<union> D) w2"
proof -
  have "B \<subseteq> A \<union> {w_next w..<w_next w1}" "live w \<subseteq> {..<w_next w}" using w a by (simp_all add: turns_def w_ok_iff)
  then have fresh: "B \<inter> (live w - A) = {}" by fastforce
  have "live w2 = ((live w - A) \<union> B - C) \<union> D" using a b by (simp add: turns_def)
  also have "\<dots> = (live w - (A \<union> (C - B))) \<union> ((B - C) \<union> D)" using fresh by blast
  finally have "live w2 = (live w - (A \<union> (C - B))) \<union> ((B - C) \<union> D)" .
  moreover have "(B - C) \<union> D \<subseteq> (A \<union> (C - B)) \<union> {w_next w..<w_next w2}" using a b by (fastforce simp: turns_def)
  ultimately show ?thesis using a b by (simp add: turns_def)
qed

lemma turns_eq: "turns w A B w' \<Longrightarrow> A = A' \<Longrightarrow> B = B' \<Longrightarrow> turns w A' B' w'"
  by simp

text \<open>Handles that stay open are on both sides.\<close>

lemma turns_frame:
  assumes "turns w A B w'" "F \<subseteq> live w" "F \<inter> A = {}"
  shows "turns w (A \<union> F) (B \<union> F) w'"
  using assms by (auto simp: turns_def)

lemma turns_fresh: "turns w A B w' \<Longrightarrow> w_ok w \<Longrightarrow> F \<subseteq> live w \<Longrightarrow> F \<inter> A = {} \<Longrightarrow> F \<inter> B = {} \<and> F \<subseteq> live w'"
  by (fastforce simp: turns_def w_ok_iff)

end
