(* ===== verification/Agent_Controller.thy ===== *)
theory Agent_Controller
  imports Agent_Network Agent_Sandbox Go_Os_Logic
begin

text \<open>
  The controller of one workload (\<^verbatim>\<open>agent.go\<close>, \<^verbatim>\<open>bpf.go\<close>, \<^verbatim>\<open>recovery.go\<close>): attaching the capture, starting the
  worker, admitting a peer at the gate, releasing an instance, and recovering one after a restart. The
  worker process is a handle like the files: spawned, and gone once waited for. \<^verbatim>\<open>cancel()\<close> is the call
  \<open>CCancel\<close>; a channel that is polled or waited for is a call whose answer the kernel chooses.
\<close>

section \<open>Capture\<close>

record capture =
  cp_collection :: handle
  cp_links :: "handle list"

definition capture_close :: "kernel \<Rightarrow> capture \<Rightarrow> world \<Rightarrow> world" where
  "capture_close K c w = os_close K (cp_collection c) (os_close_all K (rev (cp_links c)) w)"

definition hooks :: "(string \<times> string) list" where
  "hooks =
     [(''handle_sockops'', ''CGroupSockOps''),
      (''getpeer4'', ''CgroupInet4GetPeername''), (''getpeer6'', ''CgroupInet6GetPeername''),
      (''recvmsg4'', ''CGroupUDP4Recvmsg''), (''recvmsg6'', ''CGroupUDP6Recvmsg''),
      (''sendmsg4'', ''CGroupUDP4Sendmsg''), (''sendmsg6'', ''CGroupUDP6Sendmsg''),
      (''connect4'', ''CGroupInet4Connect''), (''connect6'', ''CGroupInet6Connect'')]"

fun attach_hooks :: "kernel \<Rightarrow> handle \<Rightarrow> capture \<Rightarrow> (string \<times> string) list \<Rightarrow> capture os" where
  "attach_hooks K cg c [] = os_ret c"
| "attach_hooks K cg c (h # hs) =
     os_try_else (os_map_error (ErrWrap (''attach '' @ fst h)) (os_handle K (Bpf (BAttach cg (fst h) (snd h))))) (capture_close K c) (\<lambda>l.
     attach_hooks K cg (c\<lparr>cp_links := cp_links c @ [l]\<rparr>) hs)"

definition attachCapture :: "kernel \<Rightarrow> handle \<Rightarrow> 16 word \<Rightarrow> 16 word \<Rightarrow> capture os" where
  "attachCapture K cg tcpPort dnsBase =
     os_try (os_do K (Bpf BSpec)) (\<lambda>_.
     os_try (os_do K (Bpf (BRewrite (uint tcpPort) (uint dnsBase)))) (\<lambda>_.
     os_try (os_map_error (ErrWrap ''load BPF'') (os_handle K (Bpf BLoad))) (\<lambda>coll.
     attach_hooks K cg \<lparr>cp_collection = coll, cp_links = []\<rparr> hooks)))"

section \<open>Instances\<close>

record inst =
  in_capture :: capture
  in_cgroup :: handle
  in_netns :: handle
  in_command :: handle
  in_key :: string
  in_lease :: handle
  in_resources :: handle
  in_empty :: "time option"

text \<open>The deadline of three seconds is the answer of the kernel to \<open>CAwait\<close>: the process has exited, or an error.\<close>

definition inst_close :: "kernel \<Rightarrow> inst \<Rightarrow> world \<Rightarrow> world" where
  "inst_close K i w =
     (let w1 = os_note K (Proc CCancel) (os_close K (in_lease i) w);
          w2 = (case os_do K (Proc (CAwait (in_command i))) w1 of
                  (Inr _, w') \<Rightarrow> w'
                | (Inl _, w') \<Rightarrow> os_note K (Proc (CKill (in_command i))) w')
      in os_close_all K [in_cgroup i, in_netns i, in_resources i]
           (capture_close K (in_capture i) (os_reap K (in_command i) w2)))"

definition exited :: "kernel \<Rightarrow> inst \<Rightarrow> bool os" where
  "exited K i = os_default False (os_try (os_do K (Proc (CExited (in_command i)))) (\<lambda>_. os_ret True))"

definition expiredEmpty :: "kernel \<Rightarrow> inst \<Rightarrow> time \<Rightarrow> (bool \<times> inst) os" where
  "expiredEmpty K i now =
     os_try (populated K (in_cgroup i)) (\<lambda>p.
     if p then os_ret (False, i\<lparr>in_empty := None\<rparr>)
     else case in_empty i of
       None \<Rightarrow> os_ret (False, i\<lparr>in_empty := Some now\<rparr>)
     | Some t \<Rightarrow> os_ret (now - t \<ge> seconds 30, i))"

section \<open>The controller\<close>

record controller =
  ct_config :: configuration
  ct_workload :: workload
  ct_current :: "inst option"
  ct_uid :: int
  ct_gid :: int
  ct_worker_uid :: int
  ct_groups :: handle

definition numericUser :: "kernel \<Rightarrow> string \<Rightarrow> int os" where
  "numericUser K name =
     os_try (os_text K (Proc (CLookupUser name))) (\<lambda>uid.
     os_lift (case atoi uid of None \<Rightarrow> Inl (ErrLib ''Atoi'') | Some n \<Rightarrow> Ok n))"

definition numericGroup :: "kernel \<Rightarrow> string \<Rightarrow> int os" where
  "numericGroup K name =
     os_try (os_text K (Proc (CLookupGroup name))) (\<lambda>gid.
     os_lift (case atoi gid of None \<Rightarrow> Inl (ErrLib ''Atoi'') | Some n \<Rightarrow> Ok n))"

text \<open>The first of the readiness line, the timeout and the context.\<close>

definition worker_ready :: "kernel \<Rightarrow> handle \<Rightarrow> unit os" where
  "worker_ready K h =
     os_try (os_text K (Proc (CReadyLine h))) (\<lambda>line.
     if line \<noteq> ''READY'' @ [CHR 0x0A] then os_fail (Err ''invalid worker readiness response'') else os_ret ())"

abbreviation cancel :: "kernel \<Rightarrow> world \<Rightarrow> world" where
  "cancel K \<equiv> os_note K (Proc CCancel)"

definition worker_args :: "controller \<Rightarrow> string \<Rightarrow> string list" where
  "worker_args c exe = [''--net=/proc/self/fd/3'', ''--'', exe, ''sandbox'', ''--uid'', itoa (ct_worker_uid c), ''--gid'', itoa (ct_gid c)]"

text \<open>From the capture on: pipes, sealed configuration, control group, process, readiness.\<close>

definition launch :: "kernel \<Rightarrow> map_order \<Rightarrow> controller \<Rightarrow> handle \<Rightarrow> handle \<Rightarrow> string \<Rightarrow> capture \<Rightarrow> inst os" where
  "launch K ord c cg ns key cap =
     os_try_else (os_handle K (File FPipe)) (cancel K) (\<lambda>readyR. os_finally (
     os_try os_write_end (\<lambda>readyW. os_finally (
     os_try_else (sealedWorkerConfig K (ct_workload c) (cf_ca_bundle (ct_config c))) (cancel K) (\<lambda>configR. os_finally (
     os_try_else (os_handle K (File FPipe)) (cancel K) (\<lambda>leaseR. os_finally (
     os_try os_write_end (\<lambda>leaseW. os_on_error (
     os_try_else (os_text K (Proc CExecutable)) (cancel K) (\<lambda>exe.
     os_try_else (os_handle K (Bpf (BDupMap (cp_collection cap)))) (cancel K) (\<lambda>mapFile. os_finally (
     os_try_else (workerCgroup K ord (ct_groups c) (ct_workload c)) (cancel K) (\<lambda>resources. os_on_error (
     os_try_else (os_handle K (Proc (CSpawn (cf_namespace_tool (ct_config c)) (worker_args c exe)
         [''PATH=/run/current-system/sw/bin'', ''GOMAXPROCS=2''] [ns, mapFile, readyW, configR, leaseR, resources]))) (cancel K) (\<lambda>p.
     os_after (os_close_all K [readyW, configR, leaseR]) (
     os_try_else (worker_ready K readyR) (\<lambda>w. os_reap K p (cancel K w)) (\<lambda>_.
     os_ret \<lparr>in_capture = cap, in_cgroup = cg, in_netns = ns, in_command = p, in_key = key, in_lease = leaseW,
       in_resources = resources, in_empty = None\<rparr>)))
     ) (os_close K resources))) (os_close K mapFile)))) (os_close K leaseW))) (os_close K leaseR))) (os_close K configR)))
     (os_close K readyW))) (os_close K readyR))"

definition start_worker :: "kernel \<Rightarrow> map_order \<Rightarrow> controller \<Rightarrow> handle \<Rightarrow> handle \<Rightarrow> string \<Rightarrow> inst os" where
  "start_worker K ord c cg ns key =
     os_try (setupNetwork K (ct_config c) ns) (\<lambda>_.
     os_try (attachCapture K cg (wl_tcp_port (ct_workload c)) (wl_dns_base (ct_workload c))) (\<lambda>cap.
     os_on_error (launch K ord c cg ns key cap) (capture_close K cap)))"

section \<open>Saved state\<close>

record savedState =
  ss_cgroup :: string
  ss_key :: string

definition dec_saved :: "savedState jdec" where
  "dec_saved = dec_struct False
     [(''cgroup'', dec_field ss_cgroup ss_cgroup_update dec_string),
      (''key'', dec_field ss_key ss_key_update dec_string)]"

definition saved_json :: "savedState \<Rightarrow> json" where
  "saved_json s = JObj [(''cgroup'', JStr (ss_cgroup s)), (''key'', JStr (ss_key s))]"

definition statePath :: "controller \<Rightarrow> string" where
  "statePath c = path_join (path_dir (wl_socket (ct_workload c))) ''state.json''"

definition saveState :: "kernel \<Rightarrow> controller \<Rightarrow> inst \<Rightarrow> unit os" where
  "saveState K c i =
     os_try (os_text K (File (FReadlink (in_cgroup i)))) (\<lambda>path.
     let s = \<lparr>ss_cgroup = trim_prefix ''/sys/fs/cgroup'' path, ss_key = in_key i\<rparr> in
     os_try (os_temp K (path_dir (statePath c))) (\<lambda>(f, name).
     os_finally
      (os_try_else (os_do K (File (FWrite f (json_print (saved_json s) @ [CHR 0x0A])))) (os_close K f) (\<lambda>_.
       os_try (os_close_check K f) (\<lambda>_.
       os_do K (Path (PRename name (statePath c))))))
      (os_note K (Path (PRemove name)))))"

section \<open>The gate\<close>

text \<open>Before the lock: who the peer is, and the network it is in.\<close>

definition prepare_peer :: "kernel \<Rightarrow> controller \<Rightarrow> nat \<Rightarrow> (handle \<times> handle \<times> handle \<times> string) os" where
  "prepare_peer K c conn =
     os_try (peerProcess K conn) (\<lambda>(proc, pid, uid).
     if uid \<noteq> ct_uid c
     then os_after (os_close K proc) (os_fail (Err (''peer uid '' @ itoa uid @ '' is not configured uid '' @ itoa (ct_uid c))))
     else
     os_try_else (processNetwork K proc (wl_unit (ct_workload c))) (os_close K proc) (\<lambda>(cg, ns, key).
     os_ret (proc, cg, ns, key)))"

text \<open>Under the lock. A group and namespace that the controller does not take over are closed.\<close>

definition adopt :: "kernel \<Rightarrow> map_order \<Rightarrow> controller \<Rightarrow> handle \<Rightarrow> handle \<Rightarrow> string \<Rightarrow> world \<Rightarrow> unit result \<times> controller \<times> world" where
  "adopt K ord c cg ns key w =
     (case start_worker K ord c cg ns key w of
        (Inl e, w1) \<Rightarrow> (Inl e, c, os_close_all K [cg, ns] w1)
      | (Inr i, w1) \<Rightarrow>
          (case saveState K c i w1 of
             (Inr _, w2) \<Rightarrow> (Ok (), c\<lparr>ct_current := Some i\<rparr>, w2)
           | (Inl e, w2) \<Rightarrow> (Inl e, c\<lparr>ct_current := None\<rparr>, inst_close K i w2)))"

definition prepare_locked :: "kernel \<Rightarrow> map_order \<Rightarrow> controller \<Rightarrow> handle \<Rightarrow> handle \<Rightarrow> string \<Rightarrow> world \<Rightarrow> unit result \<times> controller \<times> world" where
  "prepare_locked K ord c cg ns key w =
     (case ct_current c of
        None \<Rightarrow> adopt K ord c cg ns key w
      | Some i \<Rightarrow>
          (case exited K i w of (d, w1) \<Rightarrow>
             if d = Ok True then adopt K ord (c\<lparr>ct_current := None\<rparr>) cg ns key (inst_close K i w1)
             else if key = in_key i then (Ok (), c, os_close_all K [cg, ns] w1)
             else (case populated K (in_cgroup i) w1 of (p, w2) \<Rightarrow>
               if p = Ok True
               then (Fail ''workload already active in a different cgroup or network namespace'', c, os_close_all K [cg, ns] w2)
               else adopt K ord (c\<lparr>ct_current := None\<rparr>) cg ns key (inst_close K i w2))))"

definition prepare :: "kernel \<Rightarrow> map_order \<Rightarrow> controller \<Rightarrow> nat \<Rightarrow> world \<Rightarrow> unit result \<times> controller \<times> world" where
  "prepare K ord c conn w =
     (case prepare_peer K c conn w of
        (Inl e, w1) \<Rightarrow> (Inl e, c, w1)
      | (Inr (proc, cg, ns, key), w1) \<Rightarrow>
          (case prepare_locked K ord c cg ns key w1 of (r, c', w2) \<Rightarrow> (r, c', os_close K proc w2)))"

text \<open>What the handler of a connection answers.\<close>

definition gate_answer :: "unit result \<Rightarrow> (go_error \<Rightarrow> string) \<Rightarrow> string" where
  "gate_answer r error_text = (case r of Inl e \<Rightarrow> ''ERROR '' @ error_text e @ [CHR 0x0A] | Inr _ \<Rightarrow> ''READY'' @ [CHR 0x0A])"

section \<open>Recovery\<close>

text \<open>\<^verbatim>\<open>strings.Fields\<close>.\<close>

fun fields_go :: "nat \<Rightarrow> string \<Rightarrow> string \<Rightarrow> string list" where
  "fields_go k cur [] = (if cur = [] then [] else [cur])"
| "fields_go (Suc k) cur (c # s) = fields_go k cur s"
| "fields_go 0 cur (c # s) =
     (case find (\<lambda>r. has_prefix r (c # s)) space_runes of
        Some r \<Rightarrow> (if cur = [] then [] else [cur]) @ fields_go (length r - 1) [] s
      | None \<Rightarrow> fields_go 0 (cur @ [c]) s)"

definition fields :: "string \<Rightarrow> string list" where
  "fields s = fields_go 0 [] s"

definition parse_uint32 :: "string \<Rightarrow> bool" where
  "parse_uint32 s = (case parse_digits s of None \<Rightarrow> False | Some n \<Rightarrow> int n < 4294967296)"

text \<open>One process of the saved group: its network, when it is the configured user's and has the saved key. Every
  other case goes on to the next process; the error only says so.\<close>

definition candidate :: "kernel \<Rightarrow> controller \<Rightarrow> string \<Rightarrow> string \<Rightarrow> (handle \<times> handle) option os" where
  "candidate K c key pid =
     (if \<not> parse_uint32 pid then os_ret None
      else os_default None
       (os_try
         (os_try (os_handle K (File (FOpen (''/proc/'' @ pid)))) (\<lambda>proc.
          os_finally
           (os_try (os_stat K (File (FFstat proc))) (\<lambda>st.
            if st_uid st \<noteq> ct_uid c then os_fail (ErrLib ''continue'')
            else processNetwork K proc (wl_unit (ct_workload c))))
           (os_close K proc)))
        (\<lambda>(cg, ns, key').
         if key' \<noteq> key then os_after (os_close_all K [cg, ns]) (os_ret None)
         else os_ret (Some (cg, ns)))))"

fun recover_loop :: "kernel \<Rightarrow> map_order \<Rightarrow> controller \<Rightarrow> string \<Rightarrow> string list \<Rightarrow> world \<Rightarrow> unit result \<times> controller \<times> world" where
  "recover_loop K ord c key [] w = (Ok (), c, w)"
| "recover_loop K ord c key (pid # pids) w =
     (case candidate K c key pid w of
        (Inr (Some (cg, ns)), w1) \<Rightarrow>
          (case start_worker K ord c cg ns key w1 of
             (Inl e, w2) \<Rightarrow> (Inl e, c, os_close_all K [cg, ns] w2)
           | (Inr i, w2) \<Rightarrow> (Ok (), c\<lparr>ct_current := Some i\<rparr>, w2))
      | (_, w1) \<Rightarrow> recover_loop K ord c key pids w1)"

definition read_state :: "kernel \<Rightarrow> controller \<Rightarrow> savedState option os" where
  "read_state K c w =
     (case os_handle K (File (FOpen (statePath c))) w of
        (Inl e, w1) \<Rightarrow> (if is_not_exist e then Ok None else Inl e, w1)
      | (Inr f, w1) \<Rightarrow>
          os_try (os_finally (os_read K f 8192) (os_close K f)) (\<lambda>raw.
          os_lift (case json_next raw of
              None \<Rightarrow> Inl (ErrLib ''json'')
            | Some (j, rest) \<Rightarrow> (case dec_saved j \<lparr>ss_cgroup = [], ss_key = []\<rparr> of
                None \<Rightarrow> Inl (ErrLib ''json'')
              | Some s \<Rightarrow>
                  if ss_cgroup s = ''/'' \<or> \<not> has_prefix ''/'' (ss_cgroup s) \<or> path_clean (ss_cgroup s) \<noteq> ss_cgroup s
                  then Fail ''invalid saved cgroup'' else Ok (Some s)))) w1)"

definition recover_group :: "kernel \<Rightarrow> map_order \<Rightarrow> controller \<Rightarrow> string \<Rightarrow> handle \<Rightarrow> world \<Rightarrow> unit result \<times> controller \<times> world" where
  "recover_group K ord c key cg w =
     (case os_try (os_handle K (File (FOpenat cg ''cgroup.procs'' ReadOnly))) (\<lambda>procs.
        os_finally (os_read K procs 1048576) (os_close K procs)) w of
        (Inl e, w1) \<Rightarrow> (Inl e, c, w1)
      | (Inr raw, w1) \<Rightarrow> recover_loop K ord c key (fields raw) w1)"

definition recover :: "kernel \<Rightarrow> map_order \<Rightarrow> controller \<Rightarrow> world \<Rightarrow> unit result \<times> controller \<times> world" where
  "recover K ord c w =
     (case read_state K c w of
        (Inl e, w1) \<Rightarrow> (Inl e, c, w1)
      | (Inr None, w1) \<Rightarrow> (Ok (), c, w1)
      | (Inr (Some s), w1) \<Rightarrow>
          (case os_handle K (File (FOpen (''/sys/fs/cgroup'' @ ss_cgroup s))) w1 of
             (Inl e, w2) \<Rightarrow>
               if is_not_exist e then (case os_do K (Path (PRemove (statePath c))) w2 of (r, w3) \<Rightarrow> (r, c, w3))
               else (Inl e, c, w2)
           | (Inr cg, w2) \<Rightarrow>
               (case recover_group K ord c (ss_key s) cg w2 of (r, c', w3) \<Rightarrow> (r, c', os_close K cg w3))))"

text \<open>One round of \<^verbatim>\<open>reconcile\<close>: the worker that exited and the group that stayed empty are released, and a
  controller without an instance tries to recover one.\<close>

definition reconcile_release :: "kernel \<Rightarrow> controller \<Rightarrow> time \<Rightarrow> world \<Rightarrow> controller \<times> world" where
  "reconcile_release K c now w =
     (case ct_current c of
        None \<Rightarrow> (c, w)
      | Some i \<Rightarrow>
          (case exited K i w of (d, w1) \<Rightarrow>
             if d = Ok True then (c\<lparr>ct_current := None\<rparr>, inst_close K i w1)
             else (case expiredEmpty K i now w1 of
                 (Inr (True, i'), w2) \<Rightarrow>
                   (c\<lparr>ct_current := None\<rparr>, os_note K (Path (PRemove (statePath c))) (inst_close K i' w2))
               | (Inr (False, i'), w2) \<Rightarrow> (c\<lparr>ct_current := Some i'\<rparr>, w2)
               | (Inl _, w2) \<Rightarrow> (c, w2))))"

definition reconcile_round :: "kernel \<Rightarrow> map_order \<Rightarrow> controller \<Rightarrow> time \<Rightarrow> world \<Rightarrow> controller \<times> world" where
  "reconcile_round K ord c now w =
     (case reconcile_release K c now w of (c1, w1) \<Rightarrow>
        if ct_current c1 = None then (case recover K ord c1 w1 of (_, c2, w2) \<Rightarrow> (c2, w2)) else (c1, w1))"

section \<open>Handles of an instance\<close>

definition capture_handles :: "capture \<Rightarrow> handle set" where
  "capture_handles c = insert (cp_collection c) (set (cp_links c))"

text \<open>The handles an instance owns: those its start opened, and the group and namespace it took over.\<close>

definition started_handles :: "inst \<Rightarrow> handle set" where
  "started_handles i = capture_handles (in_capture i) \<union> {in_command i, in_lease i, in_resources i}"

definition inst_handles :: "inst \<Rightarrow> handle set" where
  "inst_handles i = started_handles i \<union> {in_cgroup i, in_netns i}"

lemma capture_close_drops [drops_rules]: "drops (capture_close K c) (capture_handles c)"
proof -
  have "drops (\<lambda>w. os_close K (cp_collection c) (os_close_all K (rev (cp_links c)) w)) (set (rev (cp_links c)) \<union> {cp_collection c})"
    by (rule drops_comp [OF drops_close_all drops_close])
  moreover have "capture_close K c = (\<lambda>w. os_close K (cp_collection c) (os_close_all K (rev (cp_links c)) w))"
    by (rule ext) (simp add: capture_close_def)
  ultimately show ?thesis by (simp add: capture_handles_def)
qed

lemma inst_close_drops [drops_rules]: "drops (inst_close K i) (inst_handles i)"
proof -
  let ?w2 = "\<lambda>w1. case os_do K (Proc (CAwait (in_command i))) w1 of (Inr _, w') \<Rightarrow> w' | (Inl _, w') \<Rightarrow> os_note K (Proc (CKill (in_command i))) w'"
  have w2: "drops ?w2 {}"
    by (auto simp: drops_def os_call_defs split: os_reply.splits prod.splits sum.splits)
  have "drops (\<lambda>w. os_close_all K [in_cgroup i, in_netns i, in_resources i] (capture_close K (in_capture i)
      (os_reap K (in_command i) (?w2 (os_note K (Proc CCancel) (os_close K (in_lease i) w))))))
      ((((({in_lease i} \<union> {}) \<union> {}) \<union> {in_command i}) \<union> capture_handles (in_capture i)) \<union> set [in_cgroup i, in_netns i, in_resources i])"
    by (rule drops_comp [OF drops_comp [OF drops_comp [OF drops_comp [OF drops_comp [OF drops_close drops_note] w2] drops_reap] capture_close_drops] drops_close_all])
  moreover have "inst_close K i = (\<lambda>w. os_close_all K [in_cgroup i, in_netns i, in_resources i] (capture_close K (in_capture i)
      (os_reap K (in_command i) (?w2 (os_note K (Proc CCancel) (os_close K (in_lease i) w))))))"
    by (rule ext) (simp add: inst_close_def Let_def)
  ultimately have "drops (inst_close K i)
      ((((({in_lease i} \<union> {}) \<union> {}) \<union> {in_command i}) \<union> capture_handles (in_capture i)) \<union> set [in_cgroup i, in_netns i, in_resources i])"
    by (simp only:)
  then show ?thesis by (rule drops_eq) (auto simp: inst_handles_def started_handles_def)
qed

lemma attach_hooks_gains:
  "gains (capture_handles c) (capture_handles c) {} (attach_hooks K cg c hs) capture_handles"
proof (induction hs arbitrary: c)
  case Nil
  show ?case by (simp add: os_ret_gains)
next
  case (Cons h hs)
  have "gains (capture_handles c \<union> {l}) (capture_handles c \<union> {l}) {} (attach_hooks K cg (c\<lparr>cp_links := cp_links c @ [l]\<rparr>) hs) capture_handles" for l
  proof -
    have "capture_handles (c\<lparr>cp_links := cp_links c @ [l]\<rparr>) = capture_handles c \<union> {l}" by (auto simp: capture_handles_def)
    with Cons.IH [of "c\<lparr>cp_links := cp_links c @ [l]\<rparr>"] show ?thesis by simp
  qed
  then show ?case
    by (simp, intro os_try_else_gains [where ?own1.0 = "\<lambda>l. {l}"] os_map_error_gains gains_rules drops_rules)
qed

lemma attachCapture_leakless [gains_rules]: "leakless (attachCapture K cg tcp dns) capture_handles"
proof -
  have "gains {h} {h} {} (attach_hooks K cg \<lparr>cp_collection = h, cp_links = []\<rparr> hooks) capture_handles" for h
  proof -
    have "capture_handles \<lparr>cp_collection = h, cp_links = []\<rparr> = {h}" by (simp add: capture_handles_def)
    with attach_hooks_gains [of "\<lparr>cp_collection = h, cp_links = []\<rparr>" K cg hooks] show ?thesis by simp
  qed
  then show ?thesis unfolding attachCapture_def
    by (intro os_try_plain gains_rules os_try_gains [where ?own1.0 = "\<lambda>h. {h}"] os_map_error_gains) simp
qed

lemma sealedWorkerConfig_leakless [gains_rules]: "leakless (sealedWorkerConfig K w ca) (\<lambda>h. {h})"
  unfolding sealedWorkerConfig_def
  by (rule os_scope_try, rule gains_rules, rule drops_rules, (rule os_try_plain, rule gains_rules)+)
    (simp add: leakless_gains os_handle_leakless)

lemma worker_ready_leakless [gains_rules]: "leakless (worker_ready K h) (\<lambda>_. {})"
  unfolding worker_ready_def by (auto intro!: os_try_plain gains_rules os_ret_gains)

lemma reap_cancel: "drops (\<lambda>w. os_reap K p (cancel K w)) {p}"
  using drops_comp [OF drops_note [of K "Proc CCancel"] drops_reap [of K p]] by simp

lemma launch_gains:
  "gains (capture_handles cap) {} {} (launch K ord c cg ns key cap) started_handles"
  unfolding launch_def
  apply (rule os_scope_gains, rule gains_rules, rule drops_rules, rule drops_rules)
  apply (rule os_scope_try, rule gains_rules, rule drops_rules)
  apply (rule os_scope_gains, rule gains_rules, rule drops_rules, rule drops_rules)
  apply (rule os_scope_gains, rule gains_rules, rule drops_rules, rule drops_rules)
  apply (rule os_try_gains, rule gains_rules)
  apply (rule gains_drop_eq, rule os_on_error_gains)
  apply (rule os_try_else_plain, rule gains_rules, rule drops_rules)
  apply (rule os_scope_gains, rule gains_rules, rule drops_rules, rule drops_rules)
  apply (rule os_try_else_gains, rule gains_rules, rule drops_rules)
  apply (rule gains_drop_eq, rule os_on_error_gains)
  apply (rule os_try_else_gains, rule gains_rules, rule drops_rules)
  apply (rule os_after_gains)
  apply (rule os_try_else_plain, rule gains_rules)
  apply (rule drops_eq, rule reap_cancel, simp)
  apply (rule os_ret_gains)
  apply (auto simp: started_handles_def)[1]
  apply (rule drops_close_all)
  apply auto[1]
  apply (rule drops_rules)
  apply simp
  apply (rule drops_rules)
  apply simp
  done

lemma start_worker_leakless [gains_rules]: "leakless (start_worker K ord c cg ns key) started_handles"
  unfolding start_worker_def
  by (rule os_try_plain, rule gains_rules, rule os_try_gains, rule gains_rules, rule gains_drop_eq,
      rule os_on_error_gains, simp only: Un_empty_left, rule launch_gains, rule drops_rules, simp)

lemma os_do_same: "os_do K c w = (r, w') \<Longrightarrow> w_live w' = w_live w \<and> w_next w' = w_next w"
  by (auto simp: os_call_defs)

lemma os_close_live: "live (os_close K h w) = live w - {h}" "w_next (os_close K h w) = w_next w"
  using dropsD [OF drops_close] by simp_all

lemma os_close_check_live: "os_close_check K h w = (r, w') \<Longrightarrow> live w' = live w - {h} \<and> w_next w' = w_next w"
  by (auto simp: os_close_check_def dest: os_do_same split: prod.splits)

text \<open>Writing the temporary file: it is closed on every path.\<close>

lemma write_temp_closes:
  assumes "os_finally (os_try_else (os_do K a) (os_close K f) (\<lambda>_. os_try (os_close_check K f) (\<lambda>_. os_do K b))) (os_note K d) w = (r, w')"
  shows "live w' = live w - {f} \<and> w_next w' = w_next w"
proof -
  obtain w1 where w1: "os_try_else (os_do K a) (os_close K f) (\<lambda>_. os_try (os_close_check K f) (\<lambda>_. os_do K b)) w = (r, w1)" "w' = os_note K d w1"
    using assms by (auto simp: os_finally_def split: prod.splits)
  obtain r2 w2 where w2: "os_do K a w = (r2, w2)" by (rule prod.exhaust)
  obtain r3 w3 where w3: "os_close_check K f w2 = (r3, w3)" by (rule prod.exhaust)
  note s = os_do_same [OF w2] os_close_check_live [OF w3] os_close_live [of K f w2]
  show ?thesis
  proof (cases r2)
    case (Inl e)
    have "w1 = os_close K f w2" using w1(1) unfolding os_try_else_def w2 Inl by simp
    then show ?thesis using s unfolding w1(2) by simp
  next
    case (Inr u)
    have run: "os_try (os_close_check K f) (\<lambda>_. os_do K b) w2 = (r, w1)" using w1(1) unfolding os_try_else_def w2 Inr by simp
    have "live w1 = live w3 \<and> w_next w1 = w_next w3"
    proof (cases r3)
      case (Inl e)
      then show ?thesis using run unfolding os_try_def w3 by simp
    next
      case (Inr v)
      then have "os_do K b w3 = (r, w1)" using run unfolding os_try_def w3 by simp
      then show ?thesis by (auto dest: os_do_same)
    qed
    then show ?thesis using s unfolding w1(2) by simp
  qed
qed

lemma saveState_leakless [gains_rules]: "leakless (saveState K c i) (\<lambda>_. {})"
  unfolding saveState_def Let_def
proof (rule os_try_plain, rule gains_rules, rule gainsI)
  fix path w r w'
  let ?s = "\<lparr>ss_cgroup = trim_prefix ''/sys/fs/cgroup'' path, ss_key = in_key i\<rparr>"
  let ?body = "\<lambda>f name. os_finally
      (os_try_else (os_do K (File (FWrite f (json_print (saved_json ?s) @ [CHR 0x0A])))) (os_close K f) (\<lambda>_.
       os_try (os_close_check K f) (\<lambda>_.
       os_do K (Path (PRename name (statePath c))))))
      (os_note K (Path (PRemove name)))"
  assume w: "w_ok w" and run: "os_try (os_temp K (path_dir (statePath c))) (\<lambda>(f, name). ?body f name) w = (r, w')"
  obtain t w1 where t: "os_temp K (path_dir (statePath c)) w = (t, w1)" by (rule prod.exhaust)
  note l = leaklessD [OF os_temp_leakless w]
  show "w_ok w' \<and> w_next w \<le> w_next w' \<and>
    live w' - {} = (case r of Inl _ \<Rightarrow> live w - {} - {} | Inr y \<Rightarrow> (live w - {}) \<union> {}) \<and>
    (case r of Inl _ \<Rightarrow> True | Inr y \<Rightarrow> {} \<subseteq> ({} :: handle set) \<and> {} \<subseteq> {} \<union> {w_next w..<w_next w'})"
  proof (cases t)
    case (Inl e)
    then show ?thesis using l(1) t run by (auto simp: os_try_def)
  next
    case (Inr fn)
    obtain f name where fn: "fn = (f, name)" by (rule prod.exhaust)
    with l(2) t Inr have w1: "w_ok w1" "w_next w \<le> w_next w1" "live w1 = live w \<union> {f}" "f \<in> {w_next w..<w_next w1}" by auto
    have "?body f name w1 = (r, w')" using run t Inr fn by (simp add: os_try_def)
    note write_temp_closes [OF this]
    moreover have "f \<notin> live w" using w w1(4) by (auto simp: w_ok_iff)
    ultimately have "live w' = live w" "w_next w' = w_next w1" "w_ok w'" using w1 by (auto simp: w_ok_iff)
    then show ?thesis using w1(2) by (cases r) simp_all
  qed
qed

lemma prepare_peer_leakless [gains_rules]: "leakless (prepare_peer K c conn) (\<lambda>(proc, cg, ns, key). {proc, cg, ns})"
proof -
  have "gains {proc} {proc} {} (os_try_else (processNetwork K proc u) (os_close K proc) (\<lambda>(cg, ns, key). os_ret (proc, cg, ns, key)))
      (\<lambda>(proc, cg, ns, key). {proc, cg, ns})" for proc u
    by (rule os_try_else_gains, rule gains_rules, rule drops_rules) (auto intro!: os_ret_gains split: prod.splits)
  moreover have "gains {proc} {proc} {} (os_after (os_close K proc) (os_fail e)) (\<lambda>(proc, cg, ns, key). {proc, cg, ns})" for proc e
    by (rule os_fail_after_gains) (rule drops_rules)
  ultimately show ?thesis unfolding prepare_peer_def
    by (intro os_try_gains [OF peerProcess_leakless]) (auto split: prod.splits)
qed

lemma exited_leakless [gains_rules]: "leakless (exited K i) (\<lambda>_. {})"
  unfolding exited_def by (intro os_default_leakless os_try_plain gains_rules os_ret_gains refl)

lemma expiredEmpty_leakless [gains_rules]: "leakless (expiredEmpty K i now) (\<lambda>_. {})"
  unfolding expiredEmpty_def by (auto intro!: os_try_plain gains_rules os_ret_gains split: option.splits)

lemma os_default_gains:
  assumes m: "leakless m own" and d: "own d = {}"
  shows "leakless (os_default d m) own"
proof (rule gainsI)
  fix w r w' assume w: "w_ok w" and r: "os_default d m w = (r, w')"
  obtain r1 where r1: "m w = (r1, w')" using r by (auto simp: os_default_def split: prod.splits)
  show "w_ok w' \<and> w_next w \<le> w_next w' \<and>
    live w' - {} = (case r of Inl _ \<Rightarrow> live w - {} - {} | Inr y \<Rightarrow> (live w - {}) \<union> own y) \<and>
    (case r of Inl _ \<Rightarrow> True | Inr y \<Rightarrow> {} \<subseteq> own y \<and> own y \<subseteq> {} \<union> {w_next w..<w_next w'})"
  proof (cases r1)
    case (Inl e)
    then have "r = Ok d" using r r1 by (simp add: os_default_def)
    then show ?thesis using leaklessD(1) [OF m w] r1 Inl d by simp
  next
    case (Inr y)
    then have "r = Ok y" using r r1 by (simp add: os_default_def)
    then show ?thesis using leaklessD(2) [OF m w] r1 Inr by simp
  qed
qed

text \<open>The handles of a peer that is not taken are closed.\<close>

lemma discard_gains:
  assumes m: "leakless m (\<lambda>(cg, ns, key). {cg, ns})"
  shows "leakless (os_try m (\<lambda>(cg, ns, key'). if key' \<noteq> key then os_after (os_close_all K [cg, ns]) (os_ret None) else os_ret (Some (cg, ns))))
    (\<lambda>x. case x of None \<Rightarrow> {} | Some (cg, ns) \<Rightarrow> {cg, ns})"
proof (rule gainsI)
  fix w r w' assume w: "w_ok w"
    and run: "os_try m (\<lambda>(cg, ns, key'). if key' \<noteq> key then os_after (os_close_all K [cg, ns]) (os_ret None) else os_ret (Some (cg, ns))) w = (r, w')"
  obtain t w1 where t: "m w = (t, w1)" by (rule prod.exhaust)
  show "w_ok w' \<and> w_next w \<le> w_next w' \<and>
    live w' - {} = (case r of Inl _ \<Rightarrow> live w - {} - {} | Inr y \<Rightarrow> (live w - {}) \<union> (case y of None \<Rightarrow> {} | Some (cg, ns) \<Rightarrow> {cg, ns})) \<and>
    (case r of Inl _ \<Rightarrow> True | Inr y \<Rightarrow> {} \<subseteq> (case y of None \<Rightarrow> {} | Some (cg, ns) \<Rightarrow> {cg, ns}) \<and>
      (case y of None \<Rightarrow> {} | Some (cg, ns) \<Rightarrow> {cg, ns}) \<subseteq> {} \<union> {w_next w..<w_next w'})"
  proof (cases t)
    case (Inl e)
    then show ?thesis using leaklessD(1) [OF m w] t run by (auto simp: os_try_def)
  next
    case (Inr x)
    obtain cg ns key' where x: "x = (cg, ns, key')" by (cases x)
    with leaklessD(2) [OF m w] t Inr have w1: "w_ok w1" "w_next w \<le> w_next w1" "live w1 = live w \<union> {cg, ns}" "{cg, ns} \<subseteq> {w_next w..<w_next w1}" by auto
    have fresh: "cg \<notin> live w" "ns \<notin> live w" using w w1(4) by (auto simp: w_ok_iff)
    show ?thesis
    proof (cases "key' = key")
      case True
      then have "r = Ok (Some (cg, ns))" "w' = w1" using run unfolding os_try_def t Inr x by (simp_all add: os_ret_def)
      then show ?thesis using w1 by auto
    next
      case False
      then have r: "r = Ok None" "w' = os_close_all K [cg, ns] w1" using run unfolding os_try_def t Inr x by (simp_all add: os_ret_def os_after_def)
      have "live w' = live w" "w_next w' = w_next w1" "w_ok w'"
        unfolding r(2) using dropsD [OF drops_close_all, of K "[cg, ns]" w1] w_ok_drops [OF drops_close_all w1(1), of K "[cg, ns]"] w1(3) fresh by auto
      then show ?thesis using r(1) w1(2) by simp
    qed
  qed
qed

lemma candidate_leakless [gains_rules]: "leakless (candidate K c key pid) (\<lambda>x. case x of None \<Rightarrow> {} | Some (cg, ns) \<Rightarrow> {cg, ns})"
proof -
  have "gains {} {} {proc} (os_try (os_stat K (File (FFstat proc))) (\<lambda>st.
      if st_uid st \<noteq> ct_uid c then os_fail (ErrLib ''continue'') else processNetwork K proc (wl_unit (ct_workload c))))
      (\<lambda>(cg, ns, key). {cg, ns})" for proc
    by (rule leakless_gains) (auto intro!: os_try_plain gains_rules)
  then have "leakless (os_try (os_handle K (File (FOpen (''/proc/'' @ pid)))) (\<lambda>proc.
          os_finally
           (os_try (os_stat K (File (FFstat proc))) (\<lambda>st.
            if st_uid st \<noteq> ct_uid c then os_fail (ErrLib ''continue'')
            else processNetwork K proc (wl_unit (ct_workload c))))
           (os_close K proc))) (\<lambda>(cg, ns, key). {cg, ns})"
    by (intro os_scope_try [where ?own1.0 = "\<lambda>h. {h}"] gains_rules drops_rules) simp
  then show ?thesis unfolding candidate_def
    by (auto intro!: os_default_gains discard_gains os_ret_gains)
qed

end
