(* ===== verification/Agent_Gate.thy ===== *)
theory Agent_Gate
  imports Agent_Controller
begin

text \<open>
  The gate of one workload as a system: up to sixteen connections are handled at the same time, each is
  identified without the lock and admitted under it, and the reconciliation runs in between
  (\<^verbatim>\<open>controller.serve\<close>, \<^verbatim>\<open>controller.prepare\<close>, \<^verbatim>\<open>controller.reconcile\<close> of \<^verbatim>\<open>agent.go\<close>). The invariants
  account for every open handle and say what the answer READY means; the lemmas before them say what the
  handlers of the controller do with handles and with the log.
\<close>

section \<open>Handlers append to the log\<close>

lemma capture_close_appends [grows_rules]: "appends (capture_close K c)"
proof -
  have "capture_close K c = (\<lambda>w. os_close K (cp_collection c) (os_close_all K (rev (cp_links c)) w))"
    by (rule ext) (simp add: capture_close_def)
  then show ?thesis using appends_comp [OF appends_close_all appends_close] by (simp only:)
qed

lemma await_appends: "appends (\<lambda>w1. case os_do K (Proc (CAwait p)) w1 of (Inr _, w') \<Rightarrow> w' | (Inl _, w') \<Rightarrow> os_note K (Proc (CKill p)) w')"
  by (auto simp: appends_def os_do_def os_note_def sys_def Let_def split: os_reply.splits)

lemma inst_close_appends [grows_rules]: "appends (inst_close K i)"
proof -
  let ?w2 = "\<lambda>w1. case os_do K (Proc (CAwait (in_command i))) w1 of (Inr _, w') \<Rightarrow> w' | (Inl _, w') \<Rightarrow> os_note K (Proc (CKill (in_command i))) w'"
  have "inst_close K i = (\<lambda>w. os_close_all K [in_cgroup i, in_netns i, in_resources i] (capture_close K (in_capture i)
      (os_reap K (in_command i) (?w2 (os_note K (Proc CCancel) (os_close K (in_lease i) w))))))"
    by (rule ext) (simp add: inst_close_def Let_def)
  moreover have "appends (\<lambda>w. os_close_all K [in_cgroup i, in_netns i, in_resources i] (capture_close K (in_capture i)
      (os_reap K (in_command i) (?w2 (os_note K (Proc CCancel) (os_close K (in_lease i) w))))))"
    by (rule appends_comp [OF appends_comp [OF appends_comp [OF appends_comp [OF appends_comp [OF appends_close appends_note] await_appends]
        appends_reap] capture_close_appends] appends_close_all])
  ultimately show ?thesis by (simp only:)
qed

lemma attach_hooks_grows [grows_rules]: "grows (attach_hooks K cg c hs)"
  by (induction hs arbitrary: c) (auto intro!: grows_rules)

lemma attachCapture_grows [grows_rules]: "grows (attachCapture K cg tcp dns)"
  unfolding attachCapture_def by (intro grows_rules)

lemma sealedWorkerConfig_grows [grows_rules]: "grows (sealedWorkerConfig K w ca)"
  unfolding sealedWorkerConfig_def by (intro grows_rules)

lemma worker_ready_grows [grows_rules]: "grows (worker_ready K h)"
  unfolding worker_ready_def by (intro grows_rules)

lemma writeGroup_grows [grows_rules]: "grows (writeGroup K dir name v)"
  unfolding writeGroup_def by (intro grows_rules)

lemma populated_grows [grows_rules]: "grows (populated K cg)"
  unfolding populated_def by (auto intro!: grows_rules)

lemma workerCgroup_grows [grows_rules]: "grows (workerCgroup K ord root w)"
  unfolding workerCgroup_def Let_def by (auto intro!: grows_rules split: prod.splits)

lemma reap_cancel_appends [grows_rules]: "appends (\<lambda>w. os_reap K p (cancel K w))"
  by (rule appends_comp [OF appends_note appends_reap])

lemma launch_grows [grows_rules]: "grows (launch K ord c cg ns key cap)"
  unfolding launch_def by (intro grows_rules)

lemma start_worker_grows [grows_rules]: "grows (start_worker K ord c cg ns key)"
  unfolding start_worker_def by (intro grows_rules)

lemma saveState_grows [grows_rules]: "grows (saveState K c i)"
  unfolding saveState_def Let_def by (auto intro!: grows_rules split: prod.splits)

lemma peerProcess_grows [grows_rules]: "grows (peerProcess K conn)"
  unfolding peerProcess_def peer_alive_def by (auto intro!: grows_rules)

lemma processNetwork_grows [grows_rules]: "grows (processNetwork K proc unit)"
  unfolding processNetwork_def by (auto intro!: grows_rules)

lemma prepare_peer_grows [grows_rules]: "grows (prepare_peer K c conn)"
  unfolding prepare_peer_def by (auto intro!: grows_rules split: prod.splits)

lemma exited_grows [grows_rules]: "grows (exited K i)"
  unfolding exited_def by (intro grows_rules)

lemma expiredEmpty_grows [grows_rules]: "grows (expiredEmpty K i now)"
  unfolding expiredEmpty_def by (auto intro!: grows_rules split: option.splits)

lemma candidate_grows [grows_rules]: "grows (candidate K c key pid)"
  unfolding candidate_def by (auto intro!: grows_rules split: prod.splits)

section \<open>What a started worker rests on\<close>

definition hooked :: "handle \<Rightarrow> (string \<times> string) list \<Rightarrow> handle list \<Rightarrow> world \<Rightarrow> bool" where
  "hooked cg hs ls w = list_all2 (\<lambda>h l. answered w (Bpf (BAttach cg (fst h) (snd h))) (RHandle l)) hs ls"

definition worker_running :: "controller \<Rightarrow> inst \<Rightarrow> world \<Rightarrow> bool" where
  "worker_running c i w =
     (\<exists>exe mapFile readyR readyW configR leaseR. answered w (Proc (CSpawn (cf_namespace_tool (ct_config c)) (worker_args c exe)
         [''PATH=/run/current-system/sw/bin'', ''GOMAXPROCS=2''] [in_netns i, mapFile, readyW, configR, leaseR, in_resources i])) (RHandle (in_command i)) \<and>
       answered w (Proc (CReadyLine readyR)) (RText (''READY'' @ [CHR 0x0A])))"

text \<open>The namespace passed the check, all nine programs are attached to the group of the peer, and the worker was
  started in the namespace of the peer and reported that it is ready.\<close>

definition captured :: "controller \<Rightarrow> inst \<Rightarrow> world \<Rightarrow> bool" where
  "captured c i w =
     (network_safe (ct_config c) (in_netns i) w \<and> hooked (in_cgroup i) hooks (cp_links (in_capture i)) w \<and> worker_running c i w)"

lemma stable_hooked [stable_rules]: "stable (hooked cg hs ls)"
  unfolding stable_def hooked_def by (auto elim!: list_all2_mono intro: later_answered)

lemma stable_running [stable_rules]: "stable (worker_running c i)"
  unfolding worker_running_def by (intro stable_rules)

lemma stable_network_safe [stable_rules]: "stable (network_safe cfg ns)"
  by (rule stable_grows) (rule network_safe_grows)

lemma stable_network_of [stable_rules]: "stable (\<lambda>w. network_of w proc unit cg ns key)"
  by (rule stable_grows) (rule network_of_grows)

lemma stable_captured [stable_rules]: "stable (captured c i)"
  unfolding captured_def [abs_def] by (intro stable_rules)

lemma attach_hooks_triple:
  assumes "stable P"
  shows "triple (\<lambda>w. P w \<and> hooked cg ds (cp_links c) w) (attach_hooks K cg c hs) (\<lambda>c' w. P w \<and> hooked cg (ds @ hs) (cp_links c') w)"
proof (induction hs arbitrary: c ds)
  case Nil
  show ?case by (auto intro: triple_ret)
next
  case (Cons h hs)
  have st: "stable (\<lambda>w. P w \<and> hooked cg ds (cp_links c) w)" by (intro stable_rules assms)
  show ?case unfolding attach_hooks.simps
  proof (rule triple_try_else [OF triple_map_error [OF triple_handle [OF st]]])
    fix l
    have "hooked cg (ds @ [h]) (cp_links (c\<lparr>cp_links := cp_links c @ [l]\<rparr>)) w"
      if "hooked cg ds (cp_links c) w" "answered w (Bpf (BAttach cg (fst h) (snd h))) (RHandle l)" for w
      using that by (simp add: hooked_def list_all2_appendI)
    then show "triple (\<lambda>w. (P w \<and> hooked cg ds (cp_links c) w) \<and> answered w (Bpf (BAttach cg (fst h) (snd h))) (RHandle l))
        (attach_hooks K cg (c\<lparr>cp_links := cp_links c @ [l]\<rparr>) hs) (\<lambda>c' w. P w \<and> hooked cg (ds @ h # hs) (cp_links c') w)"
      using Cons.IH [of "ds @ [h]" "c\<lparr>cp_links := cp_links c @ [l]\<rparr>"] by (auto simp: triple_def)
  qed
qed

lemma attachCapture_triple:
  assumes P: "stable P"
  shows "triple P (attachCapture K cg tcp dns) (\<lambda>cap w. P w \<and> hooked cg hooks (cp_links cap) w)"
proof -
  have "triple P (attach_hooks K cg \<lparr>cp_collection = h, cp_links = []\<rparr> hooks) (\<lambda>cap w. P w \<and> hooked cg hooks (cp_links cap) w)" for h
    using attach_hooks_triple [OF P, of cg "[]" "\<lparr>cp_collection = h, cp_links = []\<rparr>" K hooks] by (simp add: hooked_def)
  then show ?thesis unfolding attachCapture_def by (intro triple_skip P grows_rules)
qed

lemma worker_ready_triple:
  assumes "stable P"
  shows "triple P (worker_ready K h) (\<lambda>_ w. P w \<and> answered w (Proc (CReadyLine h)) (RText (''READY'' @ [CHR 0x0A])))"
  unfolding worker_ready_def
  by (rule triple_try [OF triple_text [OF assms]]) (auto intro: triple_fail triple_ret)

lemma launch_triple:
  assumes P: "stable P"
  shows "triple P (launch K ord c cg ns key cap)
    (\<lambda>i w. P w \<and> in_capture i = cap \<and> in_cgroup i = cg \<and> in_netns i = ns \<and> in_key i = key \<and> in_empty i = None \<and> worker_running c i w)"
    (is "triple P _ ?Q")
proof -
  have Q: "stable (?Q i)" for i by (intro stable_rules P)
  show ?thesis unfolding launch_def
    apply (rule triple_skip_else [OF P], intro grows_rules, rule triple_finally [OF _ Q], rule triple_skip [OF P], intro grows_rules)
     apply (rule triple_finally [OF _ Q], rule triple_skip_else [OF P], intro grows_rules, rule triple_finally [OF _ Q], rule triple_skip_else [OF P], intro grows_rules)
      apply (rule triple_finally [OF _ Q], rule triple_skip [OF P], intro grows_rules, rule triple_on_error, rule triple_skip_else [OF P], intro grows_rules)
       apply (rule triple_skip_else [OF P], intro grows_rules, rule triple_finally [OF _ Q], rule triple_skip_else [OF P], intro grows_rules)
        apply (rule triple_on_error, rule triple_try_else [OF triple_handle [OF P]], rule triple_after)
          apply (rule triple_try_else, rule worker_ready_triple, intro stable_rules P)
          apply (rule triple_ret)
          apply (simp add: worker_running_def)
          apply blast
         apply (intro stable_rules P)
        apply (intro grows_rules)+
    done
qed

lemma start_worker_Ok:
  assumes "start_worker K ord c cg ns key w = (Ok i, w')"
  shows "in_cgroup i = cg \<and> in_netns i = ns \<and> in_key i = key \<and> in_empty i = None \<and> captured c i w'"
proof -
  have "triple (\<lambda>_. True) (start_worker K ord c cg ns key)
      (\<lambda>i w. in_cgroup i = cg \<and> in_netns i = ns \<and> in_key i = key \<and> in_empty i = None \<and> captured c i w)"
    unfolding start_worker_def
  proof (rule triple_try [where R = "\<lambda>_. network_safe (ct_config c) ns"])
    show "triple (\<lambda>_. True) (setupNetwork K (ct_config c) ns) (\<lambda>_. network_safe (ct_config c) ns)"
      by (auto intro!: tripleI dest: setupNetwork_Ok)
  next
    fix u :: unit
    let ?P = "\<lambda>cap w. network_safe (ct_config c) ns w \<and> hooked cg hooks (cp_links cap) w"
    show "triple (network_safe (ct_config c) ns)
       (os_try (attachCapture K cg (wl_tcp_port (ct_workload c)) (wl_dns_base (ct_workload c))) (\<lambda>cap.
          os_on_error (launch K ord c cg ns key cap) (capture_close K cap)))
       (\<lambda>i w. in_cgroup i = cg \<and> in_netns i = ns \<and> in_key i = key \<and> in_empty i = None \<and> captured c i w)"
      by (rule triple_try [OF attachCapture_triple], intro stable_rules, rule triple_on_error,
          rule triple_weaken [OF launch_triple], intro stable_rules) (auto simp: captured_def)
  qed
  then show ?thesis using assms by (auto simp: triple_def)
qed
section \<open>What the handlers do\<close>

definition owned :: "controller \<Rightarrow> handle set" where
  "owned c = (case ct_current c of None \<Rightarrow> {} | Some i \<Rightarrow> inst_handles i)"

text \<open>The process directory is one of a process of the configured user, by the credentials of a connection or by
  the owner of the directory, and the group, namespace and key are those of that process.\<close>

definition peer_of :: "controller \<Rightarrow> world \<Rightarrow> nat \<Rightarrow> handle \<Rightarrow> handle \<Rightarrow> handle \<Rightarrow> string \<Rightarrow> bool" where
  "peer_of c w conn proc cg ns key =
     (\<exists>pid. answered w (Net (NPeerCred conn)) (RCred pid (ct_uid c)) \<and>
        answered w (File (FOpen (''/proc/'' @ itoa pid))) (RHandle proc) \<and>
        network_of w proc (wl_unit (ct_workload c)) cg ns key)"

definition saved_of :: "controller \<Rightarrow> world \<Rightarrow> handle \<Rightarrow> handle \<Rightarrow> handle \<Rightarrow> string \<Rightarrow> bool" where
  "saved_of c w proc cg ns key =
     (\<exists>pid st. answered w (File (FOpen (''/proc/'' @ pid))) (RHandle proc) \<and>
        answered w (File (FFstat proc)) (RStat st) \<and> st_uid st = ct_uid c \<and>
        network_of w proc (wl_unit (ct_workload c)) cg ns key)"

definition belongs :: "controller \<Rightarrow> world \<Rightarrow> handle \<Rightarrow> handle \<Rightarrow> string \<Rightarrow> bool" where
  "belongs c w cg ns key = (\<exists>proc. (\<exists>conn. peer_of c w conn proc cg ns key) \<or> saved_of c w proc cg ns key)"

definition admitted :: "controller \<Rightarrow> inst \<Rightarrow> world \<Rightarrow> bool" where
  "admitted c i w = (captured c i w \<and> belongs c w (in_cgroup i) (in_netns i) (in_key i))"

definition sound :: "controller \<Rightarrow> world \<Rightarrow> bool" where
  "sound c w = (\<forall>i. ct_current c = Some i \<longrightarrow> admitted c i w)"

lemma stable_peer_of [stable_rules]: "stable (\<lambda>w. peer_of c w conn proc cg ns key)"
  unfolding peer_of_def by (intro stable_rules)

lemma stable_belongs [stable_rules]: "stable (\<lambda>w. belongs c w cg ns key)"
  unfolding belongs_def saved_of_def by (intro stable_rules)

lemma stable_admitted [stable_rules]: "stable (admitted c i)"
  unfolding admitted_def [abs_def] by (intro stable_rules)

lemma sound_later: "sound c w \<Longrightarrow> later w w' \<Longrightarrow> sound c w'"
  unfolding sound_def by (auto intro: stableD [OF stable_admitted])

lemma current_irrelevant [simp]:
  "captured (c\<lparr>ct_current := x\<rparr>) i w = captured c i w" "belongs (c\<lparr>ct_current := x\<rparr>) w cg ns key = belongs c w cg ns key"
  "peer_of (c\<lparr>ct_current := x\<rparr>) w conn proc cg ns key = peer_of c w conn proc cg ns key"
  "admitted (c\<lparr>ct_current := x\<rparr>) i w = admitted c i w"
  by (simp_all add: captured_def worker_running_def worker_args_def belongs_def peer_of_def saved_of_def admitted_def)

lemma empty_irrelevant [simp]:
  "inst_handles (i\<lparr>in_empty := t\<rparr>) = inst_handles i" "admitted c (i\<lparr>in_empty := t\<rparr>) w = admitted c i w"
  by (simp_all add: inst_handles_def started_handles_def admitted_def captured_def worker_running_def)

text \<open>A handler that is given the handles \<open>X\<close>: afterwards those of the current instance are open and nothing else was
  left open or closed; only the current instance has changed, and if there is one it was admitted.\<close>

definition handler_ok :: "controller \<Rightarrow> world \<Rightarrow> handle set \<Rightarrow> controller \<Rightarrow> world \<Rightarrow> bool" where
  "handler_ok c w X c' w' \<longleftrightarrow>
     turns w (X \<union> owned c) (owned c') w' \<and> later w w' \<and> c' = c\<lparr>ct_current := ct_current c'\<rparr> \<and> (sound c w \<longrightarrow> sound c' w')"

lemma turns_seq: "w_ok w \<Longrightarrow> turns w A {} w1 \<Longrightarrow> turns w1 C D w2 \<Longrightarrow> turns w (A \<union> C) D w2"
  using turns_comp [of w A "{}" w1 C D w2] by simp

lemma plain_turns: "leakless m (\<lambda>_. {}) \<Longrightarrow> w_ok w \<Longrightarrow> m w = (r, w') \<Longrightarrow> turns w {} {} w'"
  using leakless_turns [of m "\<lambda>_. {}" w r w'] by (cases r) simp_all

text \<open>A step that leaves the handles alone before or after a handler.\<close>

lemma handler_ok_before:
  assumes "turns w {} {} w1" "later w w1" "w_ok w" "handler_ok c w1 X c' w'"
  shows "handler_ok c w X c' w'"
  using assms turns_seq [OF assms(3,1), of "X \<union> owned c" "owned c'" w']
  by (auto simp: handler_ok_def intro: later_trans sound_later)

lemma handler_ok_replace:
  assumes i: "ct_current c = Some i" "inst_handles i \<subseteq> live w" and w: "w_ok w" and X: "X \<inter> inst_handles i = {}" "X \<subseteq> live w"
    and a: "\<And>w1. w_ok w1 \<Longrightarrow> X \<subseteq> live w1 \<Longrightarrow> later w w1 \<Longrightarrow> w1 = inst_close K i w \<Longrightarrow> handler_ok (c\<lparr>ct_current := None\<rparr>) w1 X c' w'"
  shows "handler_ok c w X c' w'"
proof -
  let ?w1 = "inst_close K i w"
  have t: "turns w (inst_handles i) {} ?w1" by (rule drops_turns [OF inst_close_drops w])
  have l: "later w ?w1" by (rule later_appends [OF inst_close_appends])
  have h: "handler_ok (c\<lparr>ct_current := None\<rparr>) ?w1 X c' w'"
    by (rule a) (use t l turns_fresh [OF t w X(2,1)] in \<open>auto dest: turns_ok\<close>)
  then have "turns ?w1 X (owned c') w'" by (simp add: handler_ok_def owned_def)
  from turns_seq [OF w t this] have "turns w (X \<union> owned c) (owned c') w'" using i by (simp add: owned_def Un_commute)
  moreover have "sound (c\<lparr>ct_current := None\<rparr>) ?w1" by (simp add: sound_def)
  ultimately show ?thesis using h l by (auto simp: handler_ok_def intro: later_trans)
qed

lemma adopt_ok:
  assumes run: "adopt K ord c cg ns key w = (r, c', w')" and none: "ct_current c = None" and w: "w_ok w" "{cg, ns} \<subseteq> live w"
    and own: "belongs c w cg ns key"
  shows "handler_ok c w {cg, ns} c' w'" and "r = Ok () \<longrightarrow> (\<exists>i. ct_current c' = Some i \<and> in_key i = key)"
proof -
  obtain s w1 where s: "start_worker K ord c cg ns key w = (s, w1)" by (rule prod.exhaust)
  note t1 = leakless_turns [OF start_worker_leakless w(1) s] and l1 = later_grows [OF start_worker_grows s]
  have "handler_ok c w {cg, ns} c' w' \<and> (r = Ok () \<longrightarrow> (\<exists>i. ct_current c' = Some i \<and> in_key i = key))"
  proof (cases s)
    case (Inl e)
    then have r: "r = Inl e" "c' = c" "w' = os_close_all K [cg, ns] w1" using run s by (simp_all add: adopt_def)
    have "turns w {cg, ns} {} w'" unfolding r(3)
      using turns_seq [OF w(1) _ drops_turns [OF drops_close_all [where K = K and hs = "[cg, ns]"]], of "{}" w1] t1 Inl by (auto dest: turns_ok)
    moreover have "later w w'" unfolding r(3) using l1 later_appends [OF appends_close_all [where K = K and hs = "[cg, ns]"], of w1] by (rule later_trans)
    ultimately show ?thesis using none r by (simp add: handler_ok_def owned_def sound_def)
  next
    case (Inr i)
    from start_worker_Ok [of K ord c cg ns key w i w1] s Inr
    have i: "in_cgroup i = cg" "in_netns i = ns" "in_key i = key" "captured c i w1" by auto
    obtain v w2 where v: "saveState K c i w1 = (v, w2)" by (rule prod.exhaust)
    have "turns w {} (started_handles i) w2"
      using turns_comp [OF w(1) t1 plain_turns [OF saveState_leakless turns_ok [OF t1] v]] Inr by simp
    from turns_frame [OF this w(2)] have t2: "turns w {cg, ns} (inst_handles i) w2" using i by (simp add: inst_handles_def)
    have l2: "later w1 w2" by (rule later_grows [OF saveState_grows v])
    show ?thesis
    proof (cases v)
      case (Inr u)
      then have r: "c' = c\<lparr>ct_current := Some i\<rparr>" "w' = w2" using run s \<open>s = Inr i\<close> v by (simp_all add: adopt_def)
      have "admitted c i w2" unfolding admitted_def
        using stableD [OF stable_captured l2 i(4)] stableD [OF stable_belongs later_trans [OF l1 l2] own] i by simp
      then show ?thesis using r t2 none i(3) later_trans [OF l1 l2] by (simp add: handler_ok_def owned_def sound_def)
    next
      case (Inl e)
      then have r: "r = Inl e" "c' = c\<lparr>ct_current := None\<rparr>" "w' = inst_close K i w2" using run s \<open>s = Inr i\<close> v by (simp_all add: adopt_def)
      have "turns w {cg, ns} {} w'" unfolding r(3)
        using turns_comp [OF w(1) t2 drops_turns [OF inst_close_drops [where K = K and i = i] turns_ok [OF t2]]] by simp
      moreover have "later w w'" unfolding r(3)
        using later_trans [OF later_trans [OF l1 l2] later_appends [OF inst_close_appends]] by simp
      ultimately show ?thesis using none r by (simp add: handler_ok_def owned_def sound_def)
    qed
  qed
  then show "handler_ok c w {cg, ns} c' w'" "r = Ok () \<longrightarrow> (\<exists>i. ct_current c' = Some i \<and> in_key i = key)" by auto
qed

lemma handler_ok_discard:
  assumes "w_ok w" "owned c \<subseteq> live w" "set hs \<inter> owned c = {}"
  shows "handler_ok c w (set hs) c (os_close_all K hs w)"
  using turns_frame [OF drops_turns [OF drops_close_all [where K = K and hs = hs] assms(1)] assms(2)] assms(3)
  by (auto simp: handler_ok_def Int_commute intro: later_appends [OF appends_close_all] sound_later)
lemma prepare_locked_ok:
  assumes run: "prepare_locked K ord c cg ns key w = (r, c', w')" and w: "w_ok w" "{cg, ns} \<subseteq> live w" "owned c \<subseteq> live w"
    and disj: "{cg, ns} \<inter> owned c = {}" and own: "belongs c w cg ns key"
  shows "handler_ok c w {cg, ns} c' w' \<and> (r = Ok () \<longrightarrow> (\<exists>i. ct_current c' = Some i \<and> in_key i = key))"
proof (cases "ct_current c")
  case None
  then have "adopt K ord c cg ns key w = (r, c', w')" using run by (simp add: prepare_locked_def)
  from adopt_ok [OF this None w(1,2) own] show ?thesis by simp
next
  case (Some i)
  obtain d w1 where d: "exited K i w = (d, w1)" by (rule prod.exhaust)
  obtain p w2 where p: "populated K (in_cgroup i) w1 = (p, w2)" by (rule prod.exhaust)
  note t1 = plain_turns [OF exited_leakless w(1) d]
  note t2 = plain_turns [OF populated_leakless turns_ok [OF t1] p]
  note l1 = later_grows [OF exited_grows d] and l2 = later_grows [OF populated_grows p]
  have t12: "turns w {} {} w2" using turns_seq [OF w(1) t1 t2] by simp
  have alive: "X \<subseteq> live w1 \<and> X \<subseteq> live w2" if "X \<subseteq> live w" for X
    using that turns_fresh [OF t1 w(1), of X] turns_fresh [OF t12 w(1), of X] by simp
  note keep = alive [OF w(2)] alive [OF w(3)] turns_ok [OF t1] turns_ok [OF t2]
  have replace: "handler_ok c w {cg, ns} c' w' \<and> (r = Ok () \<longrightarrow> (\<exists>i. ct_current c' = Some i \<and> in_key i = key))"
    if v: "adopt K ord (c\<lparr>ct_current := None\<rparr>) cg ns key (inst_close K i v) = (r, c', w')" "turns w {} {} v" "later w v" for v
  proof -
    let ?v = "inst_close K i v"
    have lv: "later w ?v" using v(3) later_appends [OF inst_close_appends] by (rule later_trans)
    have ok: "w_ok v" "{cg, ns} \<subseteq> live v" "owned c \<subseteq> live v" using v(2) turns_fresh [OF v(2) w(1)] w by (auto dest: turns_ok)
    have tc: "turns v (owned c) {} ?v" using drops_turns [OF inst_close_drops [where K = K and i = i] ok(1)] Some by (simp add: owned_def)
    have "{cg, ns} \<subseteq> live ?v" using turns_fresh [OF tc ok(1,2) disj] by blast
    moreover have "belongs (c\<lparr>ct_current := None\<rparr>) ?v cg ns key" using stableD [OF stable_belongs lv own] by simp
    ultimately have a: "handler_ok (c\<lparr>ct_current := None\<rparr>) ?v {cg, ns} c' w'" "r = Ok () \<longrightarrow> (\<exists>i. ct_current c' = Some i \<and> in_key i = key)"
      using adopt_ok [OF v(1) _ turns_ok [OF tc]] by simp_all
    have "handler_ok c v {cg, ns} c' w'"
      by (rule handler_ok_replace [OF Some _ ok(1) _ ok(2)]) (use a disj ok Some in \<open>auto simp: owned_def\<close>)
    then show ?thesis using a(2) handler_ok_before [OF v(2,3) w(1)] by blast
  qed
  show ?thesis
  proof (cases "d = Ok True")
    case True
    then show ?thesis using run Some d replace [OF _ t1 l1] by (simp add: prepare_locked_def)
  next
    case False
    note step = run [unfolded prepare_locked_def Some option.case d prod.case, simplified False if_False]
    have drop1: "handler_ok c w {cg, ns} c (os_close_all K [cg, ns] w1)" and drop2: "handler_ok c w {cg, ns} c (os_close_all K [cg, ns] w2)"
      using handler_ok_before [OF t1 l1 w(1) handler_ok_discard [where hs = "[cg, ns]"]]
        handler_ok_before [OF t12 later_trans [OF l1 l2] w(1) handler_ok_discard [where hs = "[cg, ns]"]] keep disj by simp_all
    show ?thesis
    proof (cases "key = in_key i")
      case True
      then show ?thesis using step drop1 Some by auto
    next
      case other: False
      show ?thesis
      proof (cases "p = Ok True")
        case True
        then show ?thesis using step other p drop2 by auto
      next
        case False
        then show ?thesis using step other p replace [OF _ t12 later_trans [OF l1 l2]] by simp
      qed
    qed
  qed
qed

lemma prepare_peer_Ok:
  assumes "prepare_peer K c conn w = (Ok (proc, cg, ns, key), w')"
  shows "peer_of c w' conn proc cg ns key"
proof -
  obtain proc' pid uid w1 where a: "peerProcess K conn w = (Inr (proc', pid, uid), w1)"
    and b: "uid = ct_uid c" "os_try_else (processNetwork K proc' (wl_unit (ct_workload c))) (os_close K proc') (\<lambda>(cg, ns, key). os_ret (proc', cg, ns, key)) w1 = (Inr (proc, cg, ns, key), w')"
    using assms unfolding prepare_peer_def by (elim os_try_OkE) (auto simp: os_after_def os_fail_def split: if_splits)
  from b(2) have n: "processNetwork K proc (wl_unit (ct_workload c)) w1 = (Inr (cg, ns, key), w')" "proc' = proc"
    by (auto elim!: os_try_else_OkE simp: os_ret_Ok split: prod.splits)
  have "triple (\<lambda>_. True) (peerProcess K conn) (\<lambda>x w. answered w (Net (NPeerCred conn)) (RCred (fst (snd x)) (snd (snd x))) \<and>
      answered w (File (FOpen (''/proc/'' @ itoa (fst (snd x))))) (RHandle (fst x)))" (is "triple _ _ ?Q")
  proof -
    have Q: "stable (?Q x)" for x by (intro stable_rules)
    have R: "stable (\<lambda>w. True \<and> answered w (Net (NPeerCred conn)) (RCred (fst x) (snd x)))" for x by (intro stable_rules)
    have g: "grows (peer_alive K h)" for h unfolding peer_alive_def by (auto intro!: grows_rules)
    show ?thesis unfolding peerProcess_def
      by (rule triple_skip, intro stable_rules, intro grows_rules, rule triple_try [OF triple_map_error [OF triple_cred]],
          intro stable_rules, rule triple_skip [OF R], intro grows_rules, rule triple_finally [OF _ Q], rule triple_skip [OF R g],
          rule triple_try [OF triple_handle [OF R]], rule triple_skip_else [OF _ g], intro stable_rules, rule triple_ret)
        (auto intro: grows_rules)
  qed
  then have "answered w1 (Net (NPeerCred conn)) (RCred pid uid)" "answered w1 (File (FOpen (''/proc/'' @ itoa pid))) (RHandle proc)"
    using a n(2) by (auto simp: triple_def)
  with later_grows [OF processNetwork_grows n(1)] processNetwork_Ok [OF n(1)] b(1) show ?thesis
    unfolding peer_of_def by (blast intro: later_answered)
qed
lemma os_try_assoc: "os_try (os_try m f) g = os_try m (\<lambda>x. os_try (f x) g)"
  by (rule ext) (simp add: os_try_def split: prod.splits sum.splits)

lemma that_pair: "snd x = b \<Longrightarrow> (\<And>a. x = (a, b) \<Longrightarrow> thesis) \<Longrightarrow> thesis"
  by (cases x) simp

text \<open>Reading the saved state; a missing file is no error.\<close>

lemma read_state_world:
  "\<exists>g :: string \<Rightarrow> savedState option result. \<forall>w. snd (read_state K c w) = snd (os_try (os_try (os_handle K (File (FOpen (statePath c)))) (\<lambda>f.
      os_finally (os_read K f 8192) (os_close K f))) (\<lambda>raw. os_lift (g raw)) w)"
proof (rule exI, rule allI)
  fix w
  show "snd (read_state K c w) = snd (os_try (os_try (os_handle K (File (FOpen (statePath c)))) (\<lambda>f.
      os_finally (os_read K f 8192) (os_close K f))) (\<lambda>raw. os_lift (case json_next raw of
              None \<Rightarrow> Inl (ErrLib ''json'')
            | Some (j, rest) \<Rightarrow> (case dec_saved j \<lparr>ss_cgroup = [], ss_key = []\<rparr> of
                None \<Rightarrow> Inl (ErrLib ''json'')
              | Some s \<Rightarrow>
                  if ss_cgroup s = ''/'' \<or> \<not> has_prefix ''/'' (ss_cgroup s) \<or> path_clean (ss_cgroup s) \<noteq> ss_cgroup s
                  then Fail ''invalid saved cgroup'' else Ok (Some s)))) w)"
    unfolding read_state_def os_try_assoc
    by (cases "os_handle K (File (FOpen (statePath c))) w"; cases "fst (os_handle K (File (FOpen (statePath c))) w)")
      (simp_all add: os_try_def)
qed

lemma read_state_turns:
  assumes "read_state K c w = (r, w')" "w_ok w"
  shows "turns w {} {} w'" "later w w'"
proof -
  obtain g :: "string \<Rightarrow> savedState option result" where g: "\<forall>w. snd (read_state K c w) = snd (os_try (os_try (os_handle K (File (FOpen (statePath c)))) (\<lambda>f.
      os_finally (os_read K f 8192) (os_close K f))) (\<lambda>raw. os_lift (g raw)) w)" (is "\<forall>w. _ = snd (?m w)")
    using read_state_world [of K c] by (rule exE)
  have "snd (?m w) = w'" using g [rule_format, of w] unfolding assms(1) snd_conv by (rule sym)
  then obtain r0 where m: "?m w = (r0, w')" by (rule that_pair)
  have "leakless (os_try (os_handle K (File (FOpen (statePath c)))) (\<lambda>f. os_finally (os_read K f 8192) (os_close K f))) (\<lambda>_. {})"
    by (rule os_scope_try, rule gains_rules, rule drops_rules) (auto intro: leakless_gains gains_rules)
  then have "leakless ?m (\<lambda>_. {})" by (rule os_try_plain) (auto intro: os_lift_gains)
  from plain_turns [OF this assms(2) m] show "turns w {} {} w'" .
  have "grows ?m" by (intro grows_rules)
  from later_grows [OF this m] show "later w w'" .
qed

lemma candidate_Some:
  assumes "candidate K c key pid w = (Ok (Some (cg, ns)), w')"
  shows "belongs c w' cg ns key"
proof -
  let ?open = "os_try (os_handle K (File (FOpen (''/proc/'' @ pid)))) (\<lambda>proc. os_finally
      (os_try (os_stat K (File (FFstat proc))) (\<lambda>st. if st_uid st \<noteq> ct_uid c then os_fail (ErrLib ''continue'')
        else processNetwork K proc (wl_unit (ct_workload c)))) (os_close K proc))"
  let ?Q = "\<lambda>x w. belongs c w (fst x) (fst (snd x)) (snd (snd x))"
  have "triple (\<lambda>_. True) ?open ?Q"
  proof (rule triple_try [OF triple_handle])
    fix proc
    let ?P = "\<lambda>w. True \<and> answered w (File (FOpen (''/proc/'' @ pid))) (RHandle proc)"
    show "triple ?P (os_finally (os_try (os_stat K (File (FFstat proc))) (\<lambda>st. if st_uid st \<noteq> ct_uid c then os_fail (ErrLib ''continue'')
        else processNetwork K proc (wl_unit (ct_workload c)))) (os_close K proc)) ?Q"
    proof (rule triple_finally, rule triple_try [OF triple_stat])
      fix st
      let ?R = "\<lambda>w. ?P w \<and> answered w (File (FFstat proc)) (RStat st)"
      have R: "stable ?R" by (intro stable_rules)
      have "triple ?R (processNetwork K proc (wl_unit (ct_workload c))) ?Q" if "st_uid st = ct_uid c"
      proof (rule tripleI)
        fix w x w' assume "?R w" and run: "processNetwork K proc (wl_unit (ct_workload c)) w = (Ok x, w')"
        obtain cg ns key where x: "x = (cg, ns, key)" by (cases x)
        have "?R w'" using later_grows [OF processNetwork_grows run] \<open>?R w\<close> by (rule stableD [OF R])
        moreover have "network_of w' proc (wl_unit (ct_workload c)) cg ns key" using processNetwork_Ok run x by blast
        ultimately show "?Q x w'" unfolding x belongs_def saved_of_def fst_conv snd_conv using that by blast
      qed
      then show "triple ?R (if st_uid st \<noteq> ct_uid c then os_fail (ErrLib ''continue'') else processNetwork K proc (wl_unit (ct_workload c))) ?Q"
        by (auto intro: triple_fail)
    qed (auto intro: stable_rules grows_rules)
  qed (auto intro: stable_rules)
  moreover have outer: "os_try ?open (\<lambda>(cg, ns, key'). if key' \<noteq> key then os_after (os_close_all K [cg, ns]) (os_ret None) else os_ret (Some (cg, ns))) w = (Ok (Some (cg, ns)), w')"
    using assms unfolding candidate_def os_default_def by (auto simp: os_ret_def split: if_splits prod.splits sum.splits)
  have "?open w = (Ok (cg, ns, key), w')"
    by (rule os_try_OkE [OF outer]) (auto simp: os_ret_def os_after_def split: if_splits prod.splits)
  ultimately show ?thesis by (auto simp: triple_def)
qed

lemma recover_loop_ok:
  assumes "recover_loop K ord c key pids w = (r, c', w')" "ct_current c = None" "w_ok w"
  shows "handler_ok c w {} c' w'"
  using assms
proof (induction pids arbitrary: w)
  case Nil
  then show ?case by (auto simp: handler_ok_def owned_def sound_def turns_id)
next
  case (Cons pid pids)
  obtain x w1 where x: "candidate K c key pid w = (x, w1)" by (rule prod.exhaust)
  note t1 = leakless_turns [OF candidate_leakless Cons.prems(3) x] and l1 = later_grows [OF candidate_grows x]
  show ?case
  proof (cases "\<exists>cg ns. x = Ok (Some (cg, ns))")
    case False
    then have "recover_loop K ord c key pids w1 = (r, c', w')" using Cons.prems(1) x by (auto split: sum.splits option.splits)
    moreover have "turns w {} {} w1" using t1 False by (auto split: sum.splits option.splits)
    ultimately show ?thesis using Cons.IH [OF _ Cons.prems(2)] handler_ok_before [OF _ l1 Cons.prems(3)] turns_ok by blast
  next
    case True
    then obtain cg ns where cg: "x = Ok (Some (cg, ns))" by blast
    have t: "turns w {} {cg, ns} w1" using t1 cg by simp
    then have ok: "w_ok w1" "{cg, ns} \<subseteq> live w1" by (auto simp: turns_def)
    obtain s w2 where s: "start_worker K ord c cg ns key w1 = (s, w2)" by (rule prod.exhaust)
    note t2 = leakless_turns [OF start_worker_leakless ok(1) s] and l2 = later_grows [OF start_worker_grows s]
    show ?thesis
    proof (cases s)
      case (Inl e)
      then have r: "c' = c" "w' = os_close_all K [cg, ns] w2" using Cons.prems(1) x cg s by simp_all
      have "turns w1 {cg, ns} {} w'" unfolding r(2)
        using turns_seq [OF ok(1) _ drops_turns [OF drops_close_all [where K = K and hs = "[cg, ns]"]], of "{}" w2] t2 Inl by (auto dest: turns_ok)
      from turns_comp [OF Cons.prems(3) t this] have "turns w {} {} w'" by simp
      moreover have "later w w'" unfolding r(2)
        using later_trans [OF later_trans [OF l1 l2] later_appends [OF appends_close_all [where K = K and hs = "[cg, ns]"]]] .
      ultimately show ?thesis using r(1) Cons.prems(2) by (simp add: handler_ok_def owned_def sound_def)
    next
      case (Inr i)
      then have r: "c' = c\<lparr>ct_current := Some i\<rparr>" "w' = w2" using Cons.prems(1) x cg s by simp_all
      from start_worker_Ok [of K ord c cg ns key w1 i w2] s Inr
      have i: "in_cgroup i = cg" "in_netns i = ns" "in_key i = key" "captured c i w2" by auto
      have "turns w1 {cg, ns} (inst_handles i) w2" using turns_frame [OF t2 ok(2)] Inr i by (simp add: inst_handles_def)
      from turns_comp [OF Cons.prems(3) t this] have "turns w {} (inst_handles i) w2" by simp
      moreover have "belongs c w2 cg ns key" using candidate_Some [of K c key pid w cg ns w1] x cg stableD [OF stable_belongs l2] by simp
      ultimately show ?thesis using r i Cons.prems(2) later_trans [OF l1 l2]
        by (simp add: handler_ok_def owned_def sound_def admitted_def)
    qed
  qed
qed

lemma recover_group_ok:
  assumes run: "recover_group K ord c key cg w = (r, c', w')" and "ct_current c = None" "w_ok w"
  shows "handler_ok c w {} c' w'"
proof -
  let ?rd = "os_try (os_handle K (File (FOpenat cg ''cgroup.procs'' ReadOnly))) (\<lambda>procs. os_finally (os_read K procs 1048576) (os_close K procs))"
  obtain raw w1 where raw: "?rd w = (raw, w1)" by (rule prod.exhaust)
  have "leakless ?rd (\<lambda>_. {})" by (rule os_scope_try, rule gains_rules, rule drops_rules) (auto intro: leakless_gains gains_rules)
  note t = plain_turns [OF this assms(3) raw]
  have "grows ?rd" by (intro grows_rules)
  note l = later_grows [OF this raw]
  show ?thesis
  proof (cases raw)
    case (Inl e)
    then have "c' = c" "w' = w1" using run raw by (simp_all add: recover_group_def)
    then show ?thesis using t l assms(2) by (simp add: handler_ok_def owned_def sound_def)
  next
    case (Inr s)
    then have "recover_loop K ord c key (fields s) w1 = (r, c', w')" using run raw by (simp add: recover_group_def)
    from handler_ok_before [OF t l assms(3) recover_loop_ok [OF this assms(2) turns_ok [OF t]]] show ?thesis .
  qed
qed

text \<open>A handler within the scope of a handle that is closed in the end.\<close>

lemma handler_ok_scope:
  assumes "turns w {} {h} w1" "later w w1" "w_ok w" "handler_ok c w1 {} c' w2" "owned c = {}"
  shows "handler_ok c w {} c' (os_close K h w2)"
proof -
  have w1: "w_ok w1" "{h} \<subseteq> live w1" using assms(1) by (auto simp: turns_def)
  have h: "turns w1 {} (owned c') w2" using assms(4,5) by (simp add: handler_ok_def)
  have fresh: "h \<notin> owned c'" using turns_fresh [OF h w1] by simp
  have "turns w1 {h} (owned c' \<union> {h}) w2" using turns_frame [OF h w1(2)] by simp
  from turns_comp [OF w1(1) this drops_turns [OF drops_close [of K h] turns_ok [OF h]]] fresh
  have "turns w1 {h} (owned c') (os_close K h w2)" by simp
  from turns_comp [OF assms(3,1) this] have "turns w {} (owned c') (os_close K h w2)" using fresh by simp
  moreover have "later w (os_close K h w2)"
    using assms(2,4) later_appends [OF appends_close, of w2 K h] by (auto simp: handler_ok_def intro: later_trans)
  moreover have "sound c' (os_close K h w2)" if "sound c w"
    using that assms(2,4) later_appends [OF appends_close, of w2 K h] by (auto simp: handler_ok_def intro: sound_later)
  ultimately show ?thesis using assms(4,5) by (simp add: handler_ok_def)
qed

lemma handler_ok_skip: "turns w {} {} w' \<Longrightarrow> later w w' \<Longrightarrow> ct_current c = None \<Longrightarrow> handler_ok c w {} c w'"
  by (simp add: handler_ok_def owned_def sound_def)

lemma recover_ok:
  assumes run: "recover K ord c w = (r, c', w')" and none: "ct_current c = None" and w: "w_ok w"
  shows "handler_ok c w {} c' w'"
proof -
  obtain s w1 where s: "read_state K c w = (s, w1)" by (rule prod.exhaust)
  note t1 = read_state_turns [OF s w]
  note step = run [unfolded recover_def s prod.case]
  show ?thesis
  proof (cases "\<exists>v. s = Ok (Some v)")
    case False
    then have "c' = c" "w' = w1" using step by (auto split: sum.splits option.splits)
    then show ?thesis using handler_ok_skip [OF t1 none] by simp
  next
    case True
    then obtain v where v: "s = Ok (Some v)" by blast
    obtain g w2 where g: "os_handle K (File (FOpen (''/sys/fs/cgroup'' @ ss_cgroup v))) w1 = (g, w2)" by (rule prod.exhaust)
    note t2 = leakless_turns [OF os_handle_leakless turns_ok [OF t1(1)] g] and l2 = later_grows [OF grows_handles(2) g]
    show ?thesis
    proof (cases g)
      case (Inl e)
      obtain u w3 where u: "os_do K (Path (PRemove (statePath c))) w2 = (u, w3)" by (rule prod.exhaust)
      have t12: "turns w {} {} w2" using turns_seq [OF w t1(1)] t2 Inl by simp
      have t3: "turns w2 {} {} w3" by (rule plain_turns [OF os_do_leakless turns_ok [OF t12] u])
      have l3: "later w2 w3" by (rule later_grows [OF grows_calls(1) u])
      have "turns w {} {} w3" using turns_seq [OF w t12 t3] by simp
      note ok = handler_ok_skip [OF this later_trans [OF later_trans [OF t1(2) l2] l3] none] handler_ok_skip [OF t12 later_trans [OF t1(2) l2] none]
      have "c' = c \<and> (w' = w2 \<or> w' = w3)" using step v g Inl u by (auto split: if_splits)
      then show ?thesis using ok by auto
    next
      case (Inr cg)
      obtain r3 c3 w3 where r3: "recover_group K ord c (ss_key v) cg w2 = (r3, c3, w3)" by (rule prod_cases3)
      then have r: "c' = c3" "w' = os_close K cg w3" using step v g Inr by simp_all
      have t: "turns w {} {cg} w2" using turns_seq [OF w t1(1)] t2 Inr by simp
      show ?thesis unfolding r
        by (rule handler_ok_scope [OF t later_trans [OF t1(2) l2] w recover_group_ok [OF r3 none turns_ok [OF t]]])
          (simp add: owned_def none)
    qed
  qed
qed

lemma reconcile_release_ok:
  assumes run: "reconcile_release K c now w = (c', w')" and w: "w_ok w" "owned c \<subseteq> live w"
  shows "handler_ok c w {} c' w'"
proof (cases "ct_current c")
  case None
  then show ?thesis using run w by (auto simp: reconcile_release_def handler_ok_def owned_def turns_id)
next
  case (Some i)
  obtain d w1 where d: "exited K i w = (d, w1)" by (rule prod.exhaust)
  obtain x w2 where x: "expiredEmpty K i now w1 = (x, w2)" by (rule prod.exhaust)
  note t1 = plain_turns [OF exited_leakless w(1) d]
  note t2 = plain_turns [OF expiredEmpty_leakless turns_ok [OF t1] x]
  note l1 = later_grows [OF exited_grows d] and l2 = later_grows [OF expiredEmpty_grows x]
  have t12: "turns w {} {} w2" using turns_seq [OF w(1) t1 t2] by simp
  have I: "inst_handles i \<subseteq> live w" using w(2) Some by (simp add: owned_def)
  have released: "handler_ok c w {} (c\<lparr>ct_current := None\<rparr>) (f (inst_close K i v))"
    if v: "turns w {} {} v" "later w v" and f: "drops f {}" "appends f" for v f
  proof -
    have ok: "w_ok v" "inst_handles i \<subseteq> live v" using v(1) I turns_fresh [OF v(1) w(1) I] by (auto dest: turns_ok)
    have "handler_ok c v {} (c\<lparr>ct_current := None\<rparr>) (f (inst_close K i v))"
    proof (rule handler_ok_replace [OF Some ok(2,1), where K = K])
      fix w1 assume w1: "w_ok w1" "w1 = inst_close K i v"
      show "handler_ok (c\<lparr>ct_current := None\<rparr>) w1 {} (c\<lparr>ct_current := None\<rparr>) (f (inst_close K i v))"
        using drops_turns [OF f(1) w1(1)] later_appends [OF f(2), of w1] w1(2) by (simp add: handler_ok_def owned_def sound_def)
    qed simp_all
    then show ?thesis by (rule handler_ok_before [OF v w(1)])
  qed
  have kept: "handler_ok c w {} (c\<lparr>ct_current := Some (i\<lparr>in_empty := t\<rparr>)\<rparr>) w2" for t
  proof -
    have "turns w (owned c) (owned c) w2" using turns_frame [OF t12, of "inst_handles i"] I Some by (simp add: owned_def)
    moreover have "sound (c\<lparr>ct_current := Some (i\<lparr>in_empty := t\<rparr>)\<rparr>) w2" if "sound c w"
      using that later_trans [OF l1 l2] Some by (auto simp: sound_def intro: stableD [OF stable_admitted])
    ultimately show ?thesis using later_trans [OF l1 l2] Some by (simp add: handler_ok_def owned_def)
  qed
  show ?thesis
  proof (cases "d = Ok True")
    case True
    then have "c' = c\<lparr>ct_current := None\<rparr>" "w' = inst_close K i w1" using run Some d by (simp_all add: reconcile_release_def)
    then show ?thesis using released [OF t1 l1 drops_id appends_id] by simp
  next
    case False
    note step = run [unfolded reconcile_release_def Some option.case d prod.case x, simplified False if_False]
    have cl: "inst_close K (i\<lparr>in_empty := t\<rparr>) = inst_close K i" for t by (rule ext) (simp add: inst_close_def split: prod.split sum.split)
    have "\<exists>t. i' = i\<lparr>in_empty := t\<rparr>" if "x = Inr (b, i')" for b i'
    proof -
      have "\<exists>t. i = i\<lparr>in_empty := t\<rparr>" by (rule exI [of _ "in_empty i"]) simp
      then show ?thesis using x that by (auto simp: expiredEmpty_def os_ret_Ok elim!: os_try_OkE split: if_splits option.splits)
    qed
    then consider e where "x = Inl e" | b t where "x = Inr (b, i\<lparr>in_empty := t\<rparr>)" by (metis obj_sumE prod.exhaust)
    then show ?thesis
    proof cases
      case 1
      then have "c' = c" "w' = w2" using step by simp_all
      moreover have "c\<lparr>ct_current := Some (i\<lparr>in_empty := in_empty i\<rparr>)\<rparr> = c" using Some by simp
      ultimately show ?thesis using kept [of "in_empty i"] by simp
    next
      case 2
      show ?thesis
      proof (cases b)
        case True
        then have "c' = c\<lparr>ct_current := None\<rparr>" "w' = os_note K (Path (PRemove (statePath c))) (inst_close K i w2)" using step 2 by (simp_all add: cl)
        then show ?thesis using released [OF t12 later_trans [OF l1 l2] drops_note appends_note] by simp
      next
        case False
        then have "c' = c\<lparr>ct_current := Some (i\<lparr>in_empty := t\<rparr>)\<rparr>" "w' = w2" using step 2 by simp_all
        then show ?thesis using kept by simp
      qed
    qed
  qed
qed

lemma handler_ok_trans:
  assumes "handler_ok c w {} c1 w1" "handler_ok c1 w1 {} c2 w2" "w_ok w"
  shows "handler_ok c w {} c2 w2"
proof -
  have "turns w (owned c) (owned c2) w2"
    using turns_comp [OF assms(3), of "owned c" "owned c1" w1 "owned c1" "owned c2" w2] assms(1,2) by (simp add: handler_ok_def)
  moreover have "c2 = c\<lparr>ct_current := ct_current c2\<rparr>"
  proof -
    have "c2 = c1\<lparr>ct_current := ct_current c2\<rparr>" "c1 = c\<lparr>ct_current := ct_current c1\<rparr>" using assms(1,2) by (simp_all add: handler_ok_def)
    then show ?thesis by (metis controller.surjective controller.update_convs(3))
  qed
  ultimately show ?thesis using assms(1,2) by (auto simp: handler_ok_def intro: later_trans)
qed

lemma reconcile_round_ok:
  assumes run: "reconcile_round K ord c now w = (c', w')" and w: "w_ok w" "owned c \<subseteq> live w"
  shows "handler_ok c w {} c' w'"
proof -
  obtain c1 w1 where 1: "reconcile_release K c now w = (c1, w1)" by (rule prod.exhaust)
  note h1 = reconcile_release_ok [OF 1 w]
  obtain r2 c2 w2 where 2: "recover K ord c1 w1 = (r2, c2, w2)" by (rule prod_cases3)
  show ?thesis
  proof (cases "ct_current c1 = None")
    case True
    then have "c' = c2" "w' = w2" using run 1 2 by (simp_all add: reconcile_round_def)
    moreover have "w_ok w1" using h1 by (auto simp: handler_ok_def dest: turns_ok)
    ultimately show ?thesis using handler_ok_trans [OF h1 recover_ok [OF 2 True] w(1)] by simp
  next
    case False
    then show ?thesis using run 1 h1 by (auto simp: reconcile_round_def)
  qed
qed

section \<open>The gate as a system\<close>

text \<open>
  The connections that hold one of the sixteen slots, those among them whose peer is identified and that wait for
  the lock, and the answers given so far, each with the instance that was current at that moment.
\<close>

type_synonym peer = "nat \<times> handle \<times> handle \<times> handle \<times> string"

record gate_state =
  gt_controller :: controller
  gt_world :: world
  gt_slots :: "nat list"
  gt_peers :: "peer list"
  gt_answers :: "(nat \<times> unit result \<times> inst option) list"

definition gate_limit :: nat where
  "gate_limit = 16"

text \<open>A connection beyond the limit is closed without an answer: no step. Identifying a peer and handling it under
  the lock are one step each; the steps of different connections and of the reconciliation interleave.\<close>

inductive gate_step :: "kernel \<Rightarrow> map_order \<Rightarrow> gate_state \<Rightarrow> gate_state \<Rightarrow> bool" for K ord where
  accept: "length (gt_slots s) < gate_limit \<Longrightarrow> conn \<notin> set (gt_slots s) \<Longrightarrow>
    gate_step K ord s (s\<lparr>gt_slots := gt_slots s @ [conn]\<rparr>)"
| refuse: "conn \<in> set (gt_slots s) \<Longrightarrow> conn \<notin> fst ` set (gt_peers s) \<Longrightarrow>
    prepare_peer K (gt_controller s) conn (gt_world s) = (Inl e, w') \<Longrightarrow>
    gate_step K ord s (s\<lparr>gt_world := w', gt_slots := removeAll conn (gt_slots s),
      gt_answers := gt_answers s @ [(conn, Inl e, ct_current (gt_controller s))]\<rparr>)"
| identify: "conn \<in> set (gt_slots s) \<Longrightarrow> conn \<notin> fst ` set (gt_peers s) \<Longrightarrow>
    prepare_peer K (gt_controller s) conn (gt_world s) = (Ok p, w') \<Longrightarrow>
    gate_step K ord s (s\<lparr>gt_world := w', gt_peers := gt_peers s @ [(conn, p)]\<rparr>)"
| admit: "gt_peers s = ps @ (conn, proc, cg, ns, key) # qs \<Longrightarrow>
    prepare_locked K ord (gt_controller s) cg ns key (gt_world s) = (r, c', w') \<Longrightarrow>
    gate_step K ord s (s\<lparr>gt_controller := c', gt_world := os_close K proc w', gt_slots := removeAll conn (gt_slots s),
      gt_peers := ps @ qs, gt_answers := gt_answers s @ [(conn, r, ct_current c')]\<rparr>)"
| reconcile: "reconcile_round K ord (gt_controller s) now (gt_world s) = (c', w') \<Longrightarrow>
    gate_step K ord s (s\<lparr>gt_controller := c', gt_world := w'\<rparr>)"

inductive_cases gate_stepE: "gate_step K ord s s'"

definition gate_start :: "controller \<Rightarrow> world \<Rightarrow> gate_state" where
  "gate_start c w = \<lparr>gt_controller = c\<lparr>ct_current := None\<rparr>, gt_world = w, gt_slots = [], gt_peers = [], gt_answers = []\<rparr>"

inductive gate_reach :: "kernel \<Rightarrow> map_order \<Rightarrow> controller \<Rightarrow> world \<Rightarrow> gate_state \<Rightarrow> bool" for K ord c w where
  start: "gate_reach K ord c w (gate_start c w)"
| step: "gate_reach K ord c w s \<Longrightarrow> gate_step K ord s s' \<Longrightarrow> gate_reach K ord c w s'"

fun peer_handles :: "peer \<Rightarrow> handle set" where
  "peer_handles (conn, proc, cg, ns, key) = {proc, cg, ns}"

text \<open>How many of the owners hold a handle.\<close>

definition owners :: "handle \<Rightarrow> handle set list \<Rightarrow> nat" where
  "owners x Rs = length (filter (\<lambda>R. x \<in> R) Rs)"

definition gate_owners :: "world \<Rightarrow> gate_state \<Rightarrow> handle set list" where
  "gate_owners w0 s = live w0 # owned (gt_controller s) # map peer_handles (gt_peers s)"

definition parts :: "world \<Rightarrow> handle set list \<Rightarrow> bool" where
  "parts w Rs = (\<forall>x. owners x Rs = (if x \<in> live w then 1 else 0))"

lemma owners_simps [simp]: "owners x [] = 0" "owners x (R # Rs) = (if x \<in> R then 1 else 0) + owners x Rs"
  "owners x (Rs @ Qs) = owners x Rs + owners x Qs"
  by (simp_all add: owners_def)

lemma owners_Un: "A \<inter> B = {} \<Longrightarrow> owners x ((A \<union> B) # Rs) = owners x (A # B # Rs)"
  by auto

lemma parts_turns:
  assumes "parts w (A # Rs)" "turns w A A' w'" "w_ok w"
  shows "parts w' (A' # Rs)"
proof -
  have "owners x (A' # Rs) = (if x \<in> live w' then 1 else 0)" for x
  proof -
    have p: "owners x (A # Rs) = (if x \<in> live w then 1 else 0)" using assms(1) by (simp add: parts_def)
    have "x \<in> live w' \<longleftrightarrow> x \<in> live w \<and> x \<notin> A \<or> x \<in> A'" using assms(2) by (auto simp: turns_def)
    moreover have "x \<in> A' \<Longrightarrow> x \<in> A \<or> x \<notin> live w" using assms(2,3) by (fastforce simp: turns_def w_ok_iff)
    ultimately show ?thesis using p by (auto split: if_splits)
  qed
  then show ?thesis by (simp add: parts_def)
qed

lemma parts_perm: "parts w Rs \<Longrightarrow> (\<And>x. owners x Qs = owners x Rs) \<Longrightarrow> parts w Qs"
  by (simp add: parts_def)

lemma parts_subset: "parts w Rs \<Longrightarrow> R \<in> set Rs \<Longrightarrow> R \<subseteq> live w"
proof
  fix x assume p: "parts w Rs" and R: "R \<in> set Rs" "x \<in> R"
  then have "filter (\<lambda>R. x \<in> R) Rs \<noteq> []" by (auto simp: filter_empty_conv)
  then have "owners x Rs \<noteq> 0" by (simp add: owners_def)
  moreover have "owners x Rs = (if x \<in> live w then 1 else 0)" using p by (simp add: parts_def)
  ultimately show "x \<in> live w" by (auto split: if_splits)
qed

lemma parts_disjoint: "parts w (Ps @ A # Qs @ B # Rs) \<Longrightarrow> A \<inter> B = {}"
proof (rule ccontr)
  assume p: "parts w (Ps @ A # Qs @ B # Rs)" and "A \<inter> B \<noteq> {}"
  then obtain x where "x \<in> A" "x \<in> B" by blast
  moreover have "owners x (Ps @ A # Qs @ B # Rs) \<le> 1" using p by (simp only: parts_def) simp
  ultimately show False by simp
qed

text \<open>The invariant.\<close>

definition answers_ok :: "gate_state \<Rightarrow> bool" where
  "answers_ok s =
     (\<forall>(conn, r, cur) \<in> set (gt_answers s). r = Ok () \<longrightarrow>
        (\<exists>i proc cg ns. cur = Some i \<and> admitted (gt_controller s) i (gt_world s) \<and>
           peer_of (gt_controller s) (gt_world s) conn proc cg ns (in_key i)))"

definition peers_ok :: "gate_state \<Rightarrow> bool" where
  "peers_ok s =
     (\<forall>(conn, proc, cg, ns, key) \<in> set (gt_peers s). proc \<notin> {cg, ns} \<and>
        peer_of (gt_controller s) (gt_world s) conn proc cg ns key)"

definition same_controller :: "controller \<Rightarrow> controller \<Rightarrow> bool" where
  "same_controller c c' = (c' = c\<lparr>ct_current := ct_current c'\<rparr>)"

lemma same_handler: "same_controller c c1 \<Longrightarrow> handler_ok c1 w X c2 w' \<Longrightarrow> same_controller c c2"
  unfolding same_controller_def handler_ok_def by (metis controller.surjective controller.update_convs(3))

definition gate_ok :: "controller \<Rightarrow> world \<Rightarrow> gate_state \<Rightarrow> bool" where
  "gate_ok c w0 s =
     (same_controller c (gt_controller s) \<and> w_ok (gt_world s) \<and> parts (gt_world s) (gate_owners w0 s) \<and> length (gt_slots s) \<le> gate_limit \<and>
      sound (gt_controller s) (gt_world s) \<and> peers_ok s \<and> answers_ok s)"

lemma ok_later:
  assumes "later (gt_world s) w'" "c' = (gt_controller s)\<lparr>ct_current := x\<rparr>"
  shows "peers_ok s \<Longrightarrow> peers_ok (s\<lparr>gt_controller := c', gt_world := w'\<rparr>)"
    and "answers_ok s \<Longrightarrow> answers_ok (s\<lparr>gt_controller := c', gt_world := w'\<rparr>)"
proof -
  note st = stableD [OF stable_peer_of assms(1)] stableD [OF stable_admitted assms(1)]
  show "peers_ok s \<Longrightarrow> peers_ok (s\<lparr>gt_controller := c', gt_world := w'\<rparr>)"
    unfolding peers_ok_def assms(2) by (auto intro: st)
  show "answers_ok s \<Longrightarrow> answers_ok (s\<lparr>gt_controller := c', gt_world := w'\<rparr>)"
    unfolding answers_ok_def assms(2) by (fastforce intro: st)
qed

lemma prepare_peer_distinct:
  assumes run: "prepare_peer K c conn w = (Ok (proc, cg, ns, key), w')" and w: "w_ok w"
  shows "proc \<notin> {cg, ns}"
proof -
  obtain proc' pid uid w1 where a: "peerProcess K conn w = (Inr (proc', pid, uid), w1)"
    and b: "os_try_else (processNetwork K proc' (wl_unit (ct_workload c))) (os_close K proc') (\<lambda>(cg, ns, key). os_ret (proc', cg, ns, key)) w1 = (Inr (proc, cg, ns, key), w')"
    using run unfolding prepare_peer_def by (elim os_try_OkE) (auto simp: os_after_def os_fail_def split: if_splits)
  from b have n: "processNetwork K proc (wl_unit (ct_workload c)) w1 = (Inr (cg, ns, key), w')" "proc' = proc"
    by (auto elim!: os_try_else_OkE simp: os_ret_Ok split: prod.splits)
  have 1: "w_ok w1" "proc \<in> live w1" using leaklessD(2) [OF peerProcess_leakless w a] n(2) by auto
  then have "proc < w_next w1" by (auto simp: w_ok_iff)
  moreover have "{cg, ns} \<subseteq> {w_next w1..<w_next w'}" using leaklessD(2) [OF processNetwork_leakless 1(1) n(1)] by auto
  ultimately show ?thesis by auto
qed

lemma gate_ok_refuse:
  assumes ok: "gate_ok c w0 s" and run: "prepare_peer K (gt_controller s) conn (gt_world s) = (Inl e, w')"
  shows "gate_ok c w0 (s\<lparr>gt_world := w', gt_slots := removeAll conn (gt_slots s),
      gt_answers := gt_answers s @ [(conn, Inl e, ct_current (gt_controller s))]\<rparr>)"
proof -
  have w: "w_ok (gt_world s)" using ok by (simp add: gate_ok_def)
  have t: "turns (gt_world s) {} {} w'" using leakless_turns [OF prepare_peer_leakless w run] by simp
  have l: "later (gt_world s) w'" by (rule later_grows [OF prepare_peer_grows run])
  have "parts w' ({} # gate_owners w0 s)" by (rule parts_turns [OF _ t w]) (use ok in \<open>simp add: gate_ok_def parts_def\<close>)
  then have "parts w' (gate_owners w0 s)" by (simp add: parts_def)
  moreover have "sound (gt_controller s) w'" using ok sound_later [OF _ l] by (simp add: gate_ok_def)
  moreover have "length (removeAll conn (gt_slots s)) \<le> gate_limit"
    using ok by (auto simp: gate_ok_def intro: le_trans [OF length_removeAll_less_eq])
  ultimately show ?thesis using ok ok_later [OF l, of "gt_controller s" "ct_current (gt_controller s)"] turns_ok [OF t]
    by (simp add: gate_ok_def gate_owners_def peers_ok_def answers_ok_def)
qed

lemma gate_ok_identify:
  assumes ok: "gate_ok c w0 s" and run: "prepare_peer K (gt_controller s) conn (gt_world s) = (Ok p, w')"
  shows "gate_ok c w0 (s\<lparr>gt_world := w', gt_peers := gt_peers s @ [(conn, p)]\<rparr>)"
proof -
  obtain proc cg ns key where p: "p = (proc, cg, ns, key)" by (cases p)
  have w: "w_ok (gt_world s)" using ok by (simp add: gate_ok_def)
  have t: "turns (gt_world s) {} {proc, cg, ns} w'" using leakless_turns [OF prepare_peer_leakless w run] p by simp
  have l: "later (gt_world s) w'" by (rule later_grows [OF prepare_peer_grows run])
  have "parts w' ({proc, cg, ns} # gate_owners w0 s)" by (rule parts_turns [OF _ t w]) (use ok in \<open>simp add: gate_ok_def parts_def\<close>)
  then have "parts w' (gate_owners w0 (s\<lparr>gt_world := w', gt_peers := gt_peers s @ [(conn, p)]\<rparr>))"
    by (rule parts_perm) (simp add: gate_owners_def p)
  moreover have "sound (gt_controller s) w'" using ok sound_later [OF _ l] by (simp add: gate_ok_def)
  moreover have "proc \<notin> {cg, ns} \<and> peer_of (gt_controller s) w' conn proc cg ns key"
    using prepare_peer_distinct [OF run [unfolded p] w] prepare_peer_Ok [OF run [unfolded p]] by blast
  ultimately show ?thesis using ok ok_later [OF l, of "gt_controller s" "ct_current (gt_controller s)"] turns_ok [OF t] p
    by (simp add: gate_ok_def peers_ok_def answers_ok_def)
qed

lemma gate_ok_reconcile:
  assumes ok: "gate_ok c w0 s" and run: "reconcile_round K ord (gt_controller s) now (gt_world s) = (c', w')"
  shows "gate_ok c w0 (s\<lparr>gt_controller := c', gt_world := w'\<rparr>)"
proof -
  have w: "w_ok (gt_world s)" and pt: "parts (gt_world s) (gate_owners w0 s)" using ok by (simp_all add: gate_ok_def)
  have "owned (gt_controller s) \<subseteq> live (gt_world s)" by (rule parts_subset [OF pt]) (simp add: gate_owners_def)
  note h = reconcile_round_ok [OF run w this]
  then have t: "turns (gt_world s) (owned (gt_controller s)) (owned c') w'" by (simp add: handler_ok_def)
  have "parts (gt_world s) (owned (gt_controller s) # live w0 # map peer_handles (gt_peers s))"
    by (rule parts_perm [OF pt]) (simp add: gate_owners_def)
  from parts_turns [OF this t w] have "parts w' (gate_owners w0 (s\<lparr>gt_controller := c', gt_world := w'\<rparr>))"
    by (rule parts_perm) (simp add: gate_owners_def)
  moreover have "same_controller c c'" using ok h by (auto simp: gate_ok_def intro: same_handler)
  ultimately show ?thesis using ok h ok_later [of s w' c' "ct_current c'"] turns_ok [OF t]
    by (auto simp: gate_ok_def handler_ok_def)
qed

lemma gate_ok_admit:
  assumes ok: "gate_ok c w0 s" and peers: "gt_peers s = ps @ (conn, proc, cg, ns, key) # qs"
    and run: "prepare_locked K ord (gt_controller s) cg ns key (gt_world s) = (r, c', w')"
  shows "gate_ok c w0 (s\<lparr>gt_controller := c', gt_world := os_close K proc w', gt_slots := removeAll conn (gt_slots s),
      gt_peers := ps @ qs, gt_answers := gt_answers s @ [(conn, r, ct_current c')]\<rparr>)" (is "gate_ok c w0 ?s")
proof -
  let ?c = "gt_controller s" and ?w = "gt_world s" and ?v = "os_close K proc w'"
  have w: "w_ok ?w" and pt: "parts ?w (gate_owners w0 s)" using ok by (simp_all add: gate_ok_def)
  have sub: "{proc, cg, ns} \<subseteq> live ?w" "owned ?c \<subseteq> live ?w"
    by (rule parts_subset [OF pt], simp add: gate_owners_def peers)+
  have disj: "owned ?c \<inter> {proc, cg, ns} = {}"
    by (rule parts_disjoint [of ?w "[live w0]" _ "map peer_handles ps" _ "map peer_handles qs"])
      (use pt in \<open>simp add: gate_owners_def peers\<close>)
  have peer: "proc \<notin> {cg, ns}" "peer_of ?c ?w conn proc cg ns key" using ok peers by (auto simp: gate_ok_def peers_ok_def)
  then have "belongs ?c ?w cg ns key" by (auto simp: belongs_def)
  from prepare_locked_ok [OF run w _ sub(2) _ this] sub disj
  have h: "handler_ok ?c ?w {cg, ns} c' w'" and key: "r = Ok () \<Longrightarrow> \<exists>i. ct_current c' = Some i \<and> in_key i = key" by auto
  have t1: "turns ?w ({cg, ns} \<union> owned ?c) (owned c') w'" using h by (simp add: handler_ok_def)
  have l: "later ?w ?v" using h later_appends [OF appends_close, of w' K proc] by (auto simp: handler_ok_def intro: later_trans)
  have fresh: "proc \<notin> owned c'" using turns_fresh [OF t1 w, of "{proc}"] sub(1) peer(1) disj by auto
  have t: "turns ?w ({proc, cg, ns} \<union> owned ?c) (owned c') ?v"
    by (rule turns_eq [OF turns_comp [OF w t1 drops_turns [OF drops_close [of K proc] turns_ok [OF t1]]]]) (use fresh in auto)
  have "parts ?w (({proc, cg, ns} \<union> owned ?c) # live w0 # map peer_handles (ps @ qs))"
    by (rule parts_perm [OF pt]) (use disj in \<open>auto simp: gate_owners_def peers\<close>)
  from parts_turns [OF this t w] have "parts ?v (gate_owners w0 ?s)" by (rule parts_perm) (simp add: gate_owners_def)
  moreover have snd: "sound c' ?v" using ok h sound_later [OF _ later_appends [OF appends_close, of w' K proc]]
    by (auto simp: gate_ok_def handler_ok_def)
  moreover have c': "c' = ?c\<lparr>ct_current := ct_current c'\<rparr>" using h by (simp add: handler_ok_def)
  moreover have "\<exists>i proc cg ns. ct_current c' = Some i \<and> admitted c' i ?v \<and> peer_of c' ?v conn proc cg ns (in_key i)" if "r = Ok ()"
  proof -
    from key [OF that] obtain i where i: "ct_current c' = Some i" "in_key i = key" by blast
    have "peer_of c' ?v conn proc cg ns key" by (subst c') (use stableD [OF stable_peer_of l peer(2)] in simp)
    with i snd show ?thesis by (auto simp: sound_def)
  qed
  moreover have "length (removeAll conn (gt_slots s)) \<le> gate_limit"
    using ok by (auto simp: gate_ok_def intro: le_trans [OF length_removeAll_less_eq])
  moreover have "same_controller c c'" using ok h by (auto simp: gate_ok_def intro: same_handler)
  moreover have "peers_ok (s\<lparr>gt_controller := c', gt_world := ?v\<rparr>)" "answers_ok (s\<lparr>gt_controller := c', gt_world := ?v\<rparr>)"
    using ok ok_later [OF l c'] by (simp_all add: gate_ok_def)
  ultimately show ?thesis using turns_ok [OF t] by (simp add: gate_ok_def) (auto simp: peers_ok_def answers_ok_def peers)
qed

lemma gate_ok_step: "gate_ok c w0 s \<Longrightarrow> gate_step K ord s s' \<Longrightarrow> gate_ok c w0 s'"
proof (erule gate_stepE, goal_cases)
  case (1 conn)
  then show ?case by (auto simp: gate_ok_def gate_owners_def peers_ok_def answers_ok_def)
qed (auto intro: gate_ok_refuse gate_ok_identify gate_ok_admit gate_ok_reconcile)

lemma gate_ok_start: "w_ok w \<Longrightarrow> gate_ok c w (gate_start c w)"
  by (simp add: gate_ok_def same_controller_def gate_start_def gate_owners_def parts_def owned_def sound_def peers_ok_def answers_ok_def gate_limit_def)

lemma gate_reach_ok: "gate_reach K ord c w s \<Longrightarrow> w_ok w \<Longrightarrow> gate_ok c w s"
  by (induction rule: gate_reach.induct) (auto intro: gate_ok_step gate_ok_start)

section \<open>The properties\<close>

text \<open>C7. Every open handle has exactly one owner: it was open before the gate started, or it belongs to the current
  instance, or to a connection that waits for the lock. So on every path no handle is lost and none has two
  owners that would close it, whatever the system answers and however the connections and the reconciliation interleave. At most sixteen
  connections are handled at the same time.\<close>

theorem gate_accounts_handles:
  assumes "gate_reach K ord c w s" "w_ok w"
  shows "(\<forall>x. owners x (gate_owners w s) = (if x \<in> live (gt_world s) then 1 else 0)) \<and> length (gt_slots s) \<le> 16"
  using gate_reach_ok [OF assms] by (simp add: gate_ok_def parts_def gate_limit_def)

text \<open>C2. A connection that was answered READY is one of the configured user, and the control group and network
  namespace of its process are those of an instance that is captured: its namespace passed the check, all nine
  programs are attached to its control group, and its worker was started in its namespace and reported ready.
  Every other connection was refused.\<close>

theorem gate_ready_captured:
  assumes "gate_reach K ord c w s" "w_ok w" "(conn, Ok (), cur) \<in> set (gt_answers s)"
  shows "\<exists>i proc cg ns. cur = Some i \<and> captured c i (gt_world s) \<and>
    belongs c (gt_world s) (in_cgroup i) (in_netns i) (in_key i) \<and> peer_of c (gt_world s) conn proc cg ns (in_key i)"
proof -
  have ok: "gate_ok c w s" by (rule gate_reach_ok [OF assms(1,2)])
  then have c: "gt_controller s = c\<lparr>ct_current := ct_current (gt_controller s)\<rparr>" by (simp add: gate_ok_def same_controller_def)
  from ok assms(3) obtain i proc cg ns where "cur = Some i" "admitted (gt_controller s) i (gt_world s)"
    "peer_of (gt_controller s) (gt_world s) conn proc cg ns (in_key i)" by (auto simp: gate_ok_def answers_ok_def)
  moreover have "admitted (gt_controller s) i (gt_world s) = admitted c i (gt_world s)"
    "peer_of (gt_controller s) (gt_world s) conn proc cg ns (in_key i) = peer_of c (gt_world s) conn proc cg ns (in_key i)"
    by (subst c, simp)+
  ultimately show ?thesis by (auto simp: admitted_def)
qed

text \<open>A system in which a connection is admitted.\<close>

definition ex_gate_kernel :: kernel where
  "ex_gate_kernel log c =
     (case c of
        Proc p \<Rightarrow> (case p of CRun tool ns args \<Rightarrow> ex_ip args | CExecutable \<Rightarrow> RText ''/nix/store/agent''
          | CReadyLine h \<Rightarrow> RText (''READY'' @ [CHR 0x0A]) | _ \<Rightarrow> ROk)
      | File f \<Rightarrow> (case f of FReadAll h n \<Rightarrow> RText ''0::/web'' | FReadlink h \<Rightarrow> RText ''/sys/fs/cgroup/web''
          | FFstat h \<Rightarrow> RStat \<lparr>st_ino = int h, st_uid = 0, st_mode = 0\<rparr> | _ \<Rightarrow> ROk)
      | Path q \<Rightarrow> (case q of PCreateTemp d \<Rightarrow> RText ''/run/tmp'' | _ \<Rightarrow> ROk)
      | Net n \<Rightarrow> (case n of NPeerCred conn \<Rightarrow> RCred 42 1000 | NPoll h \<Rightarrow> RNum 0 | _ \<Rightarrow> ROk)
      | _ \<Rightarrow> ROk)"

definition ex_controller :: controller where
  "ex_controller = \<lparr>ct_config = ex_configuration, ct_workload = ex_workload, ct_current = None, ct_uid = 1000, ct_gid = 100,
     ct_worker_uid = 2000, ct_groups = 0\<rparr>"

definition ex_gate_world :: world where
  "ex_gate_world = \<lparr>w_next = 1, w_live = [0], w_log = []\<rparr>"

text \<open>A step whose value is the same in every world.\<close>

definition gives :: "'a os \<Rightarrow> 'a \<Rightarrow> bool" where
  "gives m x = (\<forall>w. \<exists>w'. m w = (Ok x, w'))"

lemma givesE: "gives m x \<Longrightarrow> (\<And>w'. m w = (Ok x, w') \<Longrightarrow> thesis) \<Longrightarrow> thesis"
  unfolding gives_def by blast

lemma gives_succeeds: "gives m x \<Longrightarrow> succeeds m"
  unfolding gives_def succeeds_def by blast

lemma succeeds_gives:
  assumes "gives m x" "succeeds (f x)"
  shows "succeeds (os_try m f)"
  unfolding succeeds_def
proof
  fix w
  obtain w1 where m: "m w = (Ok x, w1)" using assms(1) by (rule givesE)
  obtain y w2 where "f x w1 = (Ok y, w2)" using assms(2) by (rule succeedsE)
  with m show "\<exists>y w'. os_try m f w = (Ok y, w')" by (simp add: os_try_def)
qed

lemma succeeds_try_else: "succeeds m \<Longrightarrow> (\<And>x. succeeds (f x)) \<Longrightarrow> succeeds (os_try_else m c f)"
proof -
  assume m: "succeeds m" and f: "\<And>x. succeeds (f x)"
  have "os_try_else m c f = os_try m f"
  proof
    fix w
    obtain x w' where "m w = (Ok x, w')" using m by (rule succeedsE)
    then show "os_try_else m c f w = os_try m f w" by (simp add: os_try_def os_try_else_def)
  qed
  then show ?thesis using succeeds_try [OF m f] by simp
qed

lemma ex_gate_calls: "succeeds (os_do ex_gate_kernel c)" "succeeds (os_handle ex_gate_kernel c)"
proof -
  have "\<forall>e. ex_gate_kernel log c \<noteq> RErr e" for log
    by (simp add: ex_gate_kernel_def ex_ip_def split: os_call.split proc_call.split file_call.split path_call.split net_call.split)
  then show "succeeds (os_do ex_gate_kernel c)" "succeeds (os_handle ex_gate_kernel c)" by (rule succeeds_calls)+
qed

lemma ex_gate_ip:
  "gives (run_ip ex_gate_kernel ex_configuration ns args) (case ex_ip (ip_args ex_configuration args) of RText s \<Rightarrow> s | _ \<Rightarrow> [])"
  by (auto simp: gives_def run_ip_def os_map_error_def os_call_defs ex_gate_kernel_def ex_ip_def)

lemma ex_gate_network: "succeeds (setupNetwork ex_gate_kernel ex_configuration ns)"
proof -
  let ?ip = "run_ip ex_gate_kernel ex_configuration ns"
  have links: "links_of (json_print (JArr [JObj [(''ifname'', JStr ''lo''), (''flags'', JArr [JStr ''UP''])]])) =
      Ok [hd (projr (links_of (json_print (JArr [JObj [(''ifname'', JStr ''lo''), (''flags'', JArr [JStr ''UP''])]]))))]" by code_simp
  have lo: "nl_name (hd (projr (links_of (json_print (JArr [JObj [(''ifname'', JStr ''lo''), (''flags'', JArr [JStr ''UP''])]]))))) = ''lo''" by code_simp
  have routes: "routes_of ''[]'' = Ok []" by code_simp
  have ip: "succeeds (?ip args)" for args by (rule gives_succeeds [OF ex_gate_ip])
  have family: "succeeds (check_family ?ip [] fam)" if "fam \<noteq> ''link''" for fam unfolding check_family_def using that
    by (intro succeeds_gives [OF ex_gate_ip])
      (simp add: ex_ip_def ip_args_def ex_configuration_def routes succeeds_def os_try_def os_lift_def)
  let ?text = "json_print (JArr [JObj [(''ifname'', JStr ''lo''), (''flags'', JArr [JStr ''UP''])]])"
  let ?links = "[hd (projr (links_of ?text))]"
  have "(case ex_ip (ip_args ex_configuration [''-d'', ''-j'', ''link'', ''show'']) of RText s \<Rightarrow> s | _ \<Rightarrow> []) = ?text"
    by (simp add: ex_ip_def ip_args_def ex_configuration_def)
  then have g1: "gives (?ip [''-d'', ''-j'', ''link'', ''show'']) ?text" using ex_gate_ip [of ns "[''-d'', ''-j'', ''link'', ''show'']"] by simp
  have g2: "gives (os_lift (links_of ?text)) ?links" using links by (simp add: gives_def os_lift_def)
  have g3: "gives (check_links ?ip ?links False []) (False, [])" using lo by (simp add: gives_def os_ret_def)
  show ?thesis unfolding setupNetwork_def Let_def
    by (rule succeeds_gives [OF g1], rule succeeds_gives [OF g2], rule succeeds_gives [OF g3])
      (simp, intro succeeds_rules family ip; simp)
qed

lemma ex_gate_texts: "succeeds (os_text ex_gate_kernel (Proc CExecutable))" "gives (worker_ready ex_gate_kernel h) ()"
  "succeeds (os_text ex_gate_kernel (File (FReadlink h)))" "succeeds (os_temp ex_gate_kernel dir)"
  "succeeds (os_close_check ex_gate_kernel h)" "gives (populated ex_gate_kernel cg) False"
proof -
  show "succeeds (os_text ex_gate_kernel (Proc CExecutable))" "gives (worker_ready ex_gate_kernel h) ()"
    "succeeds (os_text ex_gate_kernel (File (FReadlink h)))"
    by (simp_all add: succeeds_def gives_def worker_ready_def os_try_def os_ret_def os_call_defs ex_gate_kernel_def)
  show "succeeds (os_temp ex_gate_kernel dir)" by (simp add: succeeds_def os_temp_def os_call_defs ex_gate_kernel_def new_handle_def)
  show "succeeds (os_close_check ex_gate_kernel h)" by (simp add: succeeds_def os_close_check_def os_call_defs ex_gate_kernel_def)
  have "\<not> contains_sub ''populated 1'' (limit_text 4096 ''0::/web'')" by code_simp
  then show "gives (populated ex_gate_kernel cg) False"
    by (simp add: gives_def populated_def os_default_def os_try_def os_finally_def os_ret_def os_read_def os_handle_def new_handle_def
        os_call_defs ex_gate_kernel_def)
qed

lemma ex_gate_starts: "succeeds (start_worker ex_gate_kernel id ex_controller cg ns key)"
proof -
  note calls = ex_gate_calls ex_gate_texts(1) gives_succeeds [OF ex_gate_texts(2)]
  have hooks: "succeeds (attach_hooks ex_gate_kernel cg c hs)" for c hs
    by (induction hs arbitrary: c) (simp_all, (intro succeeds_rules succeeds_try_else calls)+)
  have cap: "succeeds (attachCapture ex_gate_kernel cg a b)" for a b
    unfolding attachCapture_def by (intro succeeds_rules calls hooks)
  have wg: "succeeds (writeGroup ex_gate_kernel h n v)" for h n v unfolding writeGroup_def by (intro succeeds_rules calls)
  have res: "succeeds (workerCgroup ex_gate_kernel id root w)" for root w
    unfolding workerCgroup_def Let_def
    by (rule succeeds_try, intro succeeds_rules calls, rule succeeds_try, rule calls, rule succeeds_rules, rule succeeds_gives [OF ex_gate_texts(6)])
      (auto intro!: succeeds_rules wg split: prod.splits)
  have w: "succeeds os_write_end" by (simp add: succeeds_def os_write_end_def new_handle_def)
  have conf: "succeeds (sealedWorkerConfig ex_gate_kernel wl ca)" for wl ca unfolding sealedWorkerConfig_def by (intro succeeds_rules calls)
  have "succeeds (launch ex_gate_kernel id ex_controller cg ns key cap)" for cap
    unfolding launch_def by (intro succeeds_rules succeeds_try_else calls w conf res)
  moreover have "succeeds (setupNetwork ex_gate_kernel (ct_config ex_controller) ns)" using ex_gate_network by (simp add: ex_controller_def)
  ultimately show ?thesis unfolding start_worker_def by (intro succeeds_rules cap)
qed

lemma ex_gate_saves: "succeeds (saveState ex_gate_kernel c i)"
  unfolding saveState_def Let_def
  by (auto intro!: succeeds_rules succeeds_try_else ex_gate_calls ex_gate_texts split: prod.splits)

lemma ex_gate_adopts: "fst (adopt ex_gate_kernel id ex_controller cg ns key w) = Ok ()"
proof -
  obtain i w1 where i: "start_worker ex_gate_kernel id ex_controller cg ns key w = (Ok i, w1)" using ex_gate_starts by (rule succeedsE)
  obtain u w2 where "saveState ex_gate_kernel ex_controller i w1 = (Ok u, w2)" using ex_gate_saves by (rule succeedsE)
  with i show ?thesis by (simp add: adopt_def)
qed

lemma ex_identified: "fst (prepare_peer ex_gate_kernel ex_controller 7 ex_gate_world) = Ok (2, 4, 5, ''4:5'')"
proof -
  have group: "workloadCgroup (cgroup_line (limit_text 8192 ''0::/web'')) [] = Ok ''/web''" by code_simp
  have "itoa 4 = ''4''" "itoa 5 = ''5''" by code_simp+
  moreover have "wl_unit ex_workload = []" by (simp add: ex_workload_def zero_workload_def)
  ultimately show ?thesis
    by (simp add: prepare_peer_def peerProcess_def peer_alive_def processNetwork_def host_network_def openProcessFile_def os_try_def os_try_else_def
      os_finally_def os_map_error_def os_call_defs os_read_def os_handle_def new_handle_def os_close_def os_release_def os_note_def os_lift_def
      os_ret_def ex_gate_kernel_def ex_gate_world_def ex_controller_def group)
qed

text \<open>The connection takes a slot, is identified and is admitted.\<close>

lemma ex_gate_reach: "\<exists>s cur. gate_reach ex_gate_kernel id ex_controller ex_gate_world s \<and> (7, Ok (), cur) \<in> set (gt_answers s)"
proof -
  let ?s0 = "gate_start ex_controller ex_gate_world"
  let ?s1 = "?s0\<lparr>gt_slots := [7]\<rparr>"
  let ?w1 = "snd (prepare_peer ex_gate_kernel ex_controller 7 ex_gate_world)"
  let ?s2 = "?s1\<lparr>gt_world := ?w1, gt_peers := [(7, 2, 4, 5, ''4:5'')]\<rparr>"
  have none: "ex_controller\<lparr>ct_current := None\<rparr> = ex_controller" by (simp add: ex_controller_def)
  obtain r c' w' where l: "prepare_locked ex_gate_kernel id ex_controller 4 5 ''4:5'' ?w1 = (r, c', w')" by (rule prod_cases3)
  have "ct_current ex_controller = None" by (simp add: ex_controller_def)
  then have r: "r = Ok ()" using l ex_gate_adopts [of 4 5 "''4:5''" ?w1] by (simp add: prepare_locked_def)
  have "gate_step ex_gate_kernel id ?s0 ?s1" using gate_step.accept [of ?s0 7] by (simp add: gate_start_def gate_limit_def)
  moreover have "gate_step ex_gate_kernel id ?s1 ?s2"
    using gate_step.identify [of 7 ?s1 ex_gate_kernel "(2, 4, 5, ''4:5'')" ?w1 id] ex_identified
    by (simp add: gate_start_def none prod_eq_iff)
  moreover have "gate_step ex_gate_kernel id ?s2 (?s2\<lparr>gt_controller := c', gt_world := os_close ex_gate_kernel 2 w', gt_slots := removeAll 7 [7],
      gt_peers := [], gt_answers := [(7, r, ct_current c')]\<rparr>)"
    using gate_step.admit [of ?s2 "[]" 7 2 4 5 "''4:5''" "[]" ex_gate_kernel id r c' w'] l by (simp add: gate_start_def none)
  ultimately have "gate_reach ex_gate_kernel id ex_controller ex_gate_world (?s2\<lparr>gt_controller := c', gt_world := os_close ex_gate_kernel 2 w',
      gt_slots := removeAll 7 [7], gt_peers := [], gt_answers := [(7, r, ct_current c')]\<rparr>)"
    by (meson gate_reach.start gate_reach.step)
  then show ?thesis using r by (intro exI [of _ "ct_current c'"] exI conjI) auto
qed

theorem gate_accounts_handles_witness:
  "\<exists>s :: gate_state. gt_answers s \<noteq> [] \<and> length (gt_slots s) \<le> 16 \<and>
    (\<forall>x. owners x (gate_owners ex_gate_world s) = (if x \<in> live (gt_world s) then 1 else 0))"
proof -
  obtain s cur where s: "gate_reach ex_gate_kernel id ex_controller ex_gate_world s" "(7, Ok (), cur) \<in> set (gt_answers s)"
    using ex_gate_reach by blast
  have "w_ok ex_gate_world" by (simp add: ex_gate_world_def w_ok_def)
  from gate_accounts_handles [OF s(1) this] s(2) show ?thesis by (intro exI [of _ s]) auto
qed

theorem gate_ready_captured_witness:
  "\<exists>(s :: gate_state) i proc cg ns. captured ex_controller i (gt_world s) \<and> peer_of ex_controller (gt_world s) 7 proc cg ns (in_key i)"
proof -
  obtain s cur where s: "gate_reach ex_gate_kernel id ex_controller ex_gate_world s" "(7, Ok (), cur) \<in> set (gt_answers s)"
    using ex_gate_reach by blast
  have "w_ok ex_gate_world" by (simp add: ex_gate_world_def w_ok_def)
  from gate_ready_captured [OF s(1) this s(2)] show ?thesis by blast
qed

end
