(* ===== verification/Agent_Serve.thy ===== *)
theory Agent_Serve
  imports Agent_Gate
begin

text \<open>
  The daemon around the gates (\<^verbatim>\<open>serve\<close>, \<^verbatim>\<open>gate\<close> and \<^verbatim>\<open>notifyReady\<close> of \<^verbatim>\<open>agent.go\<close>): one controller and one control
  socket per workload, the checks on their accounts, and the client that waits at a gate. The loop of the client
  has no bound of its own, so it is a partial function; it returns once its context ends.
\<close>

section \<open>Starting\<close>

text \<open>\<^verbatim>\<open>os.ModeSocket\<close> is the file type \<^verbatim>\<open>S_IFSOCK\<close>.\<close>

definition is_socket :: "file_stat \<Rightarrow> bool" where
  "is_socket st = ((st_mode st div 4096) mod 16 = 12)"

definition clear_socket :: "kernel \<Rightarrow> string \<Rightarrow> unit os" where
  "clear_socket K path w =
     (case os_stat K (Path (PLstat path)) w of
        (Inr st, w1) \<Rightarrow> if \<not> is_socket st then (Fail ''control path is not a socket'', w1) else os_do K (Path (PRemove path)) w1
      | (Inl e, w1) \<Rightarrow> (if is_not_exist e then Ok () else Inl e, w1))"

definition accounts :: "kernel \<Rightarrow> workload \<Rightarrow> (int \<times> int \<times> int) os" where
  "accounts K w =
     os_try (numericUser K (wl_user w)) (\<lambda>uid.
     os_try (numericGroup K (wl_group w)) (\<lambda>gid.
     os_try (numericUser K (wl_worker_user w)) (\<lambda>workerUID.
     if uid = 0 \<or> gid = 0 \<or> workerUID = 0 \<or> uid = workerUID then os_fail (Err ''unsafe account IDs'')
     else os_ret (uid, gid, workerUID))))"

definition shares_account :: "int \<Rightarrow> workload \<Rightarrow> controller \<Rightarrow> bool" where
  "shares_account uid w other =
     (uid = ct_uid other \<and> (wl_unit w = [] \<or> wl_unit (ct_workload other) = [] \<or> wl_unit w = wl_unit (ct_workload other)))"

text \<open>One round of the loop: the new controller and its listener. An error after \<^verbatim>\<open>Listen\<close> leaves the listener in the
  list that the deferred function closes; \<open>stop\<close> is that function.\<close>

definition serve_workload ::
  "kernel \<Rightarrow> configuration \<Rightarrow> handle \<Rightarrow> (handle list \<Rightarrow> world \<Rightarrow> world) \<Rightarrow> controller list \<Rightarrow> handle list \<Rightarrow> workload \<Rightarrow> (controller \<times> handle) os" where
  "serve_workload K cfg groups stop cs ls w =
     os_try_else (accounts K w) (stop ls) (\<lambda>(uid, gid, workerUID).
     os_try_else (os_lift (if list_ex (shares_account uid w) cs then Fail ''shared application UID requires distinct attested system units'' else Ok ())) (stop ls) (\<lambda>_.
     os_try_else (os_do K (Path (PMkdirAll (path_dir (wl_socket w))))) (stop ls) (\<lambda>_.
     os_try_else (os_do K (Path (PChown (path_dir (wl_socket w)) gid))) (stop ls) (\<lambda>_.
     os_try_else (clear_socket K (wl_socket w)) (stop ls) (\<lambda>_.
     os_try_else (os_handle K (Path (PListen (wl_socket w)))) (stop ls) (\<lambda>l.
     os_try_else (os_do K (Path (PChown (wl_socket w) gid))) (stop (ls @ [l])) (\<lambda>_.
     os_try_else (os_do K (Path (PChmod (wl_socket w) 432))) (stop (ls @ [l])) (\<lambda>_.
     os_ret (\<lparr>ct_config = cfg, ct_workload = w, ct_current = None, ct_uid = uid, ct_gid = gid, ct_worker_uid = workerUID,
       ct_groups = groups\<rparr>, l)))))))))"

fun serve_workloads ::
  "kernel \<Rightarrow> configuration \<Rightarrow> handle \<Rightarrow> (handle list \<Rightarrow> world \<Rightarrow> world) \<Rightarrow> controller list \<Rightarrow> handle list \<Rightarrow> workload list \<Rightarrow> (controller list \<times> handle list) os" where
  "serve_workloads K cfg groups stop cs ls [] = os_ret (cs, ls)"
| "serve_workloads K cfg groups stop cs ls (w # ws) =
     os_try (serve_workload K cfg groups stop cs ls w) (\<lambda>(c, l).
     serve_workloads K cfg groups stop (cs @ [c]) (ls @ [l]) ws)"

text \<open>The deferred functions: the context, the listeners, the instances of the controllers, the control groups. What the
  controllers do from their creation on is the subject of \<^verbatim>\<open>Agent_Gate\<close>; the start-up below is that of the daemon
  alone, so no controller has an instance yet.\<close>

fun close_current :: "kernel \<Rightarrow> controller list \<Rightarrow> world \<Rightarrow> world" where
  "close_current K [] w = w"
| "close_current K (c # cs) w = close_current K cs (case ct_current c of None \<Rightarrow> w | Some i \<Rightarrow> inst_close K i w)"

definition serve_stop :: "kernel \<Rightarrow> handle \<Rightarrow> controller list \<Rightarrow> handle list \<Rightarrow> world \<Rightarrow> world" where
  "serve_stop K groups cs ls w = os_close K groups (close_current K cs (os_close_all K ls (cancel K w)))"

text \<open>A datagram to the service manager, if there is a socket for it; its errors are of no consequence.\<close>

definition notifyReady :: "kernel \<Rightarrow> world \<Rightarrow> world" where
  "notifyReady K w =
     (case os_text K (Net (NGetenv ''NOTIFY_SOCKET'')) w of
        (Inl _, w1) \<Rightarrow> w1
      | (Inr p, w1) \<Rightarrow>
          if p = [] then w1
          else (case os_handle K (Net (NDial p)) w1 of
                  (Inl _, w2) \<Rightarrow> w2
                | (Inr c, w2) \<Rightarrow> os_close K c (os_note K (File (FWrite c ''READY=1'')) w2)))"

definition serve_start :: "kernel \<Rightarrow> map_order \<Rightarrow> configuration \<Rightarrow> (handle \<times> controller list \<times> handle list) os" where
  "serve_start K ord cfg =
     os_try (os_num K (Proc CGeteuid)) (\<lambda>euid.
     if euid \<noteq> 0 then os_fail (Err ''serve requires host root privileges'')
     else
     os_try_else (delegatedWorkerRoot K ord) (cancel K) (\<lambda>groups.
     os_try (serve_workloads K cfg groups (serve_stop K groups []) [] [] (cf_workloads cfg)) (\<lambda>(cs, ls).
     os_after (notifyReady K) (os_ret (groups, cs, ls)))))"

section \<open>The client of a gate\<close>

text \<open>\<^verbatim>\<open>ReadString\<close> of a line from at most 4096 bytes is the call \<open>NReadLine\<close>, an error when no line end comes. The
  \<^verbatim>\<open>select\<close> answers whether the context is done or the pause of 100 ms is over.\<close>

definition gate_reply :: "string \<Rightarrow> unit result" where
  "gate_reply line =
     (if line \<noteq> ''READY'' @ [CHR 0x0A] then Fail (''agent refused: '' @ trim_space line) else Ok ())"

partial_function (option) gate :: "kernel \<Rightarrow> string \<Rightarrow> world \<Rightarrow> (unit result \<times> world) option" where
  "gate K path w =
     (case os_handle K (Net (NDial path)) w of
        (Inr conn, w1) \<Rightarrow> Some (os_try (os_finally (os_text K (Net (NReadLine conn 4096))) (os_close K conn)) (\<lambda>line. os_lift (gate_reply line)) w1)
      | (Inl e, w1) \<Rightarrow>
          (case os_do K (Net (NSleep 100)) w1 of
             (Inl e', w2) \<Rightarrow> Some (Inl e', w2)
           | (Inr _, w2) \<Rightarrow> gate K path w2))"

section \<open>Isolation of the workloads\<close>

lemma clear_socket_leakless [gains_rules]: "leakless (clear_socket K path) (\<lambda>_. {})"
proof (rule gainsI)
  fix w r w' assume w: "w_ok w" and run: "clear_socket K path w = (r, w')"
  have "w_next w' = w_next w \<and> w_live w' = w_live w"
    using run by (auto simp: clear_socket_def os_call_defs split: os_reply.splits if_splits)
  then show "w_ok w' \<and> w_next w \<le> w_next w' \<and>
    live w' - {} = (case r of Inl _ \<Rightarrow> live w - {} - {} | Inr y \<Rightarrow> (live w - {}) \<union> {}) \<and>
    (case r of Inl _ \<Rightarrow> True | Inr y \<Rightarrow> {} \<subseteq> ({} :: handle set) \<and> {} \<subseteq> {} \<union> {w_next w..<w_next w'})"
    using w by (cases r) (simp_all add: w_ok_iff)
qed

lemma numeric_leakless [gains_rules]: "leakless (numericUser K n) (\<lambda>_. {})" "leakless (numericGroup K n) (\<lambda>_. {})"
  unfolding numericUser_def numericGroup_def by (intro os_try_plain gains_rules os_lift_gains refl)+

lemma accounts_leakless [gains_rules]: "leakless (accounts K w) (\<lambda>_. {})"
  unfolding accounts_def by (auto intro!: os_try_plain gains_rules os_ret_gains)

lemma serve_stop_drops: "drops (serve_stop K groups [] ls) ({groups} \<union> set ls)"
proof -
  have "serve_stop K groups [] ls = (\<lambda>w. os_close K groups (os_close_all K ls (cancel K w)))"
    by (rule ext) (simp add: serve_stop_def)
  moreover have "drops (\<lambda>w. os_close K groups (os_close_all K ls (cancel K w))) (({} \<union> set ls) \<union> {groups})"
    by (rule drops_comp [OF drops_comp [OF drops_note drops_close_all] drops_close])
  ultimately show ?thesis by (simp add: Un_commute)
qed

lemma serve_workload_gains:
  "gains ({groups} \<union> set ls) ({groups} \<union> set ls) {} (serve_workload K cfg groups (serve_stop K groups []) cs ls w) (\<lambda>(c, l). {groups} \<union> set ls \<union> {l})"
  unfolding serve_workload_def
  apply (rule os_try_else_plain, rule gains_rules, rule serve_stop_drops, clarify)
  apply (rule os_try_else_plain, rule os_lift_gains, rule refl, rule serve_stop_drops)
  apply (rule os_try_else_plain, rule gains_rules, rule serve_stop_drops)
  apply (rule os_try_else_plain, rule gains_rules, rule serve_stop_drops)
  apply (rule os_try_else_plain, rule gains_rules, rule serve_stop_drops)
  apply (rule os_try_else_gains, rule os_handle_leakless, rule serve_stop_drops)
  apply (rule os_try_else_plain, rule gains_rules)
   apply (rule drops_eq, rule serve_stop_drops, simp)
  apply (rule os_try_else_plain, rule gains_rules)
   apply (rule drops_eq, rule serve_stop_drops, simp)
  apply (rule os_ret_gains, simp)
  done

lemma gains_bind:
  assumes m: "gains Z Z {} m own1" and f: "\<And>x. gains (own1 x) (own1 x) {} (f x) own"
  shows "gains Z Z {} (os_try m f) own"
proof (rule gainsI)
  fix w r w' assume w: "w_ok w" "Z \<subseteq> live w" and run: "os_try m f w = (r, w')"
  obtain r1 w1 where r1: "m w = (r1, w1)" by (rule prod.exhaust)
  show "w_ok w' \<and> w_next w \<le> w_next w' \<and>
    live w' - {} = (case r of Inl _ \<Rightarrow> live w - Z - {} | Inr y \<Rightarrow> (live w - {}) \<union> own y) \<and>
    (case r of Inl _ \<Rightarrow> True | Inr y \<Rightarrow> Z \<subseteq> own y \<and> own y \<subseteq> Z \<union> {w_next w..<w_next w'})"
  proof (cases r1)
    case (Inl e)
    then have "r = Inl e" "w' = w1" using run r1 by (simp_all add: os_try_def)
    then show ?thesis using gainsD(1) [OF m w _ _ r1 [unfolded Inl]] by simp
  next
    case (Inr x)
    then have run2: "f x w1 = (r, w')" using run r1 by (simp add: os_try_def)
    from gainsD(2) [OF m w _ _ r1 [unfolded Inr]]
    have x: "w_ok w1" "w_next w \<le> w_next w1" "live w1 = live w \<union> own1 x" "Z \<subseteq> own1 x" "own1 x \<subseteq> Z \<union> {w_next w..<w_next w1}" by simp_all
    have fresh: "own1 x - Z \<subseteq> {w_next w..<w_next w1}" using x(5) by blast
    have sub: "own1 x \<subseteq> live w1" using x(3) by blast
    show ?thesis
    proof (cases r)
      case (Inl e)
      have "live w1 - own1 x = live w - Z" using x(3,4,5) w(1) by (fastforce simp: w_ok_iff)
      then show ?thesis using gainsD(1) [OF f x(1) sub _ _ run2 [unfolded Inl]] x(2) Inl by auto
    next
      case (Inr y)
      from gainsD(2) [OF f x(1) sub _ _ run2 [unfolded Inr]]
      have y: "w_ok w'" "w_next w1 \<le> w_next w'" "live w' = live w1 \<union> own y" "own1 x \<subseteq> own y" "own y \<subseteq> own1 x \<union> {w_next w1..<w_next w'}" by simp_all
      have "own y \<subseteq> Z \<union> {w_next w..<w_next w'}" using y(2,5) x(2,5) by fastforce
      moreover have "live w' = live w \<union> own y" using x(3) y(3,4) by blast
      ultimately show ?thesis using y(1,2,4) x(2,4) Inr by auto
    qed
  qed
qed

lemma serve_workloads_gains:
  "gains ({groups} \<union> set ls) ({groups} \<union> set ls) {} (serve_workloads K cfg groups (serve_stop K groups []) cs ls ws) (\<lambda>(cs, ls). {groups} \<union> set ls)"
proof (induction ws arbitrary: cs ls)
  case Nil
  show ?case unfolding serve_workloads.simps by (rule os_ret_gains) simp
next
  case (Cons w ws)
  have "gains (case x of (c, l) \<Rightarrow> {groups} \<union> set ls \<union> {l}) (case x of (c, l) \<Rightarrow> {groups} \<union> set ls \<union> {l}) {}
      (case x of (c, l) \<Rightarrow> serve_workloads K cfg groups (serve_stop K groups []) (cs @ [c]) (ls @ [l]) ws) (\<lambda>(cs, ls). {groups} \<union> set ls)" for x
  proof (cases x)
    case (Pair c l)
    have "{groups} \<union> set (ls @ [l]) = {groups} \<union> set ls \<union> {l}" by auto
    then show ?thesis using Cons.IH [of "ls @ [l]" "cs @ [c]"] Pair by simp
  qed
  then show ?case unfolding serve_workloads.simps by (rule gains_bind [OF serve_workload_gains])
qed

lemma notifyReady_live:
  assumes "w_ok w"
  shows "w_ok (notifyReady K w) \<and> w_next w \<le> w_next (notifyReady K w) \<and> live (notifyReady K w) = live w"
proof -
  have fresh: "w_next w \<notin> live w" using assms by (auto simp: w_ok_iff)
  show ?thesis using assms fresh
    by (auto simp: notifyReady_def os_call_defs os_handle_def new_handle_def os_close_def os_release_def sys_def Let_def w_ok_def list_all_iff
      split: os_reply.splits)
qed

lemma notifyReady_gains: "own y = Z \<Longrightarrow> gains Z Z {} (os_after (notifyReady K) (os_ret y)) own"
  using notifyReady_live by (fastforce intro!: gainsI simp: os_after_def os_ret_def)

text \<open>A start that fails leaves nothing open; one that succeeds leaves the control groups and the listeners.\<close>

lemma serve_start_leakless: "leakless (serve_start K ord cfg) (\<lambda>(groups, cs, ls). {groups} \<union> set ls)"
proof -
  have "gains {groups} {groups} {} (os_try (serve_workloads K cfg groups (serve_stop K groups []) [] [] ws) (\<lambda>(cs, ls).
      os_after (notifyReady K) (os_ret (groups, cs, ls)))) (\<lambda>(groups, cs, ls). {groups} \<union> set ls)" for groups ws
  proof (rule gains_bind)
    show "gains {groups} {groups} {} (serve_workloads K cfg groups (serve_stop K groups []) [] [] ws) (\<lambda>(cs, ls). {groups} \<union> set ls)"
      using serve_workloads_gains [of groups "[]"] by simp
    fix x :: "controller list \<times> handle list"
    obtain cs ls where x: "x = (cs, ls)" by (rule prod.exhaust)
    have "gains ({groups} \<union> set ls) ({groups} \<union> set ls) {} (os_after (notifyReady K) (os_ret (groups, cs, ls))) (\<lambda>(groups, cs, ls). {groups} \<union> set ls)"
      by (rule notifyReady_gains) simp
    then show "gains (case x of (cs, ls) \<Rightarrow> {groups} \<union> set ls) (case x of (cs, ls) \<Rightarrow> {groups} \<union> set ls) {}
        (case x of (cs, ls) \<Rightarrow> os_after (notifyReady K) (os_ret (groups, cs, ls))) (\<lambda>(groups, cs, ls). {groups} \<union> set ls)" using x by simp
  qed
  then show ?thesis unfolding serve_start_def
    by (auto intro!: os_try_plain gains_rules os_try_else_gains [OF delegatedWorkerRoot_leakless drops_note])
qed

lemma serve_workload_Ok:
  assumes "serve_workload K cfg groups stop cs ls w s = (Ok (c, l), s')"
  shows "ct_workload c = w \<and> ct_config c = cfg \<and> ct_current c = None \<and> ct_groups c = groups \<and>
    ct_uid c \<noteq> 0 \<and> ct_gid c \<noteq> 0 \<and> ct_worker_uid c \<noteq> 0 \<and> ct_uid c \<noteq> ct_worker_uid c \<and> \<not> list_ex (shares_account (ct_uid c) w) cs"
proof -
  let ?rest = "\<lambda>(uid, gid, workerUID).
     os_try_else (os_lift (if list_ex (shares_account uid w) cs then Fail ''shared application UID requires distinct attested system units'' else Ok ())) (stop ls) (\<lambda>_.
     os_try_else (os_do K (Path (PMkdirAll (path_dir (wl_socket w))))) (stop ls) (\<lambda>_.
     os_try_else (os_do K (Path (PChown (path_dir (wl_socket w)) gid))) (stop ls) (\<lambda>_.
     os_try_else (clear_socket K (wl_socket w)) (stop ls) (\<lambda>_.
     os_try_else (os_handle K (Path (PListen (wl_socket w)))) (stop ls) (\<lambda>l.
     os_try_else (os_do K (Path (PChown (wl_socket w) gid))) (stop (ls @ [l])) (\<lambda>_.
     os_try_else (os_do K (Path (PChmod (wl_socket w) 432))) (stop (ls @ [l])) (\<lambda>_.
     os_ret (\<lparr>ct_config = cfg, ct_workload = w, ct_current = None, ct_uid = uid, ct_gid = gid, ct_worker_uid = workerUID,
       ct_groups = groups\<rparr>, l))))))))"
  have run: "os_try_else (accounts K w) (stop ls) ?rest s = (Ok (c, l), s')" using assms unfolding serve_workload_def .
  obtain x s1 where x: "accounts K w s = (Ok x, s1)" "?rest x s1 = (Ok (c, l), s')" by (rule os_try_else_OkE [OF run])
  obtain uid gid wuid where u: "x = (uid, gid, wuid)" by (cases x)
  have "uid \<noteq> 0 \<and> gid \<noteq> 0 \<and> wuid \<noteq> 0 \<and> uid \<noteq> wuid"
    using x(1) u unfolding accounts_def by (auto elim!: os_try_OkE simp: os_ret_Ok os_fail_Ok split: if_splits)
  moreover from x(2) u have "\<not> list_ex (shares_account uid w) cs \<and> c = \<lparr>ct_config = cfg, ct_workload = w, ct_current = None, ct_uid = uid,
      ct_gid = gid, ct_worker_uid = wuid, ct_groups = groups\<rparr>"
    by (auto elim!: os_try_else_OkE simp: os_ret_Ok os_lift_Ok split: if_splits)
  ultimately show ?thesis by simp
qed

definition accounts_safe :: "controller \<Rightarrow> bool" where
  "accounts_safe c = (ct_uid c \<noteq> 0 \<and> ct_gid c \<noteq> 0 \<and> ct_worker_uid c \<noteq> 0 \<and> ct_uid c \<noteq> ct_worker_uid c)"

definition apart :: "controller \<Rightarrow> controller \<Rightarrow> bool" where
  "apart c d =
     (ct_uid c = ct_uid d \<longrightarrow> wl_unit (ct_workload c) \<noteq> [] \<and> wl_unit (ct_workload d) \<noteq> [] \<and> wl_unit (ct_workload c) \<noteq> wl_unit (ct_workload d))"

lemma serve_workloads_Ok:
  assumes "serve_workloads K cfg groups stop cs ls ws s = (Ok (cs', ls'), s')"
  shows "\<exists>ds. cs' = cs @ ds \<and> map ct_workload ds = ws \<and> list_all accounts_safe ds \<and>
    (sorted_wrt apart cs \<longrightarrow> sorted_wrt apart cs')"
  using assms
proof (induction ws arbitrary: cs ls s)
  case Nil
  then show ?case by (simp add: os_ret_Ok)
next
  case (Cons w ws)
  then obtain c l s1 where c: "serve_workload K cfg groups stop cs ls w s = (Ok (c, l), s1)"
    and rest: "serve_workloads K cfg groups stop (cs @ [c]) (ls @ [l]) ws s1 = (Ok (cs', ls'), s')"
    by (auto elim!: os_try_OkE)
  from Cons.IH [OF rest] obtain ds where ds: "cs' = (cs @ [c]) @ ds" "map ct_workload ds = ws" "list_all accounts_safe ds"
    "sorted_wrt apart (cs @ [c]) \<longrightarrow> sorted_wrt apart cs'" by blast
  note ok = serve_workload_Ok [OF c]
  have "sorted_wrt apart cs \<Longrightarrow> sorted_wrt apart (cs @ [c])"
    using ok by (auto simp: sorted_wrt_append apart_def shares_account_def list_ex_iff)
  moreover have "accounts_safe c" using ok by (simp add: accounts_safe_def)
  ultimately show ?case using ds ok by (intro exI [of _ "c # ds"]) auto
qed

lemma unitPattern_service: "rx_match unitPattern s \<Longrightarrow> \<not> has_suffix ''.slice'' s"
proof -
  assume "rx_match unitPattern s"
  then obtain r where "s = r @ ''.service''" unfolding rx_match_lang unitPattern_def by (auto simp: rx_lang_lit simp del: rx_lit.simps)
  then show ?thesis by (auto simp: has_suffix_iff append_eq_append_conv2 Cons_eq_append_conv append_eq_Cons_conv)
qed

text \<open>The control group of a process belongs to at most one of two different services.\<close>

lemma units_exclusive:
  assumes "unit_prefix u [] ps = Some a" "unit_prefix v [] ps = Some b" "\<not> has_suffix ''.slice'' u" "\<not> has_suffix ''.slice'' v"
  shows "u = v"
proof -
  have path: "\<exists>pre post. ps = pre @ x # post \<and> list_all (has_suffix ''.slice'') pre" if "unit_prefix x [] ps = Some r" for x r
    using that unfolding unit_prefix_iff by (auto simp: list_all_iff)
  obtain pre post where 1: "ps = pre @ u # post" "list_all (has_suffix ''.slice'') pre" using path [OF assms(1)] by blast
  obtain pre' post' where 2: "ps = pre' @ v # post'" "list_all (has_suffix ''.slice'') pre'" using path [OF assms(2)] by blast
  show ?thesis
  proof (cases "length pre" "length pre'" rule: linorder_cases)
    case less
    then have "u \<in> set pre'" using 1(1) 2(1) by (metis nth_append nth_append_length nth_mem)
    then show ?thesis using 2(2) assms(3) by (auto simp: list_all_iff)
  next
    case equal
    then show ?thesis using 1(1) 2(1) by simp
  next
    case greater
    then have "v \<in> set pre" using 1(1) 2(1) by (metis nth_append nth_append_length nth_mem)
    then show ?thesis using 1(2) assms(4) by (auto simp: list_all_iff)
  qed
qed
text \<open>C14. When the agent has started, every workload has a controller whose application and worker accounts are not
  root and differ from each other, and no process can be taken for two workloads: two controllers of the same user have
  different system units, and no control group is in both.\<close>

theorem serve_isolated:
  assumes run: "serve_start K ord cfg w = (Ok (groups, cs, ls), w')" and valid: "list_all (\<lambda>w. validate w = Ok w) (cf_workloads cfg)"
  shows "map ct_workload cs = cf_workloads cfg \<and> list_all accounts_safe cs \<and>
    (\<forall>i j line. i < j \<longrightarrow> j < length cs \<longrightarrow> ct_uid (cs ! i) = ct_uid (cs ! j) \<longrightarrow>
       \<not> (is_ok (workloadCgroup line (wl_unit (ct_workload (cs ! i)))) \<and> is_ok (workloadCgroup line (wl_unit (ct_workload (cs ! j))))))"
proof -
  obtain s1 s2 where "serve_workloads K cfg groups (serve_stop K groups []) [] [] (cf_workloads cfg) s1 = (Ok (cs, ls), s2)"
    using run unfolding serve_start_def
    by (auto elim!: os_try_OkE os_try_else_OkE simp: os_fail_Ok os_after_def os_ret_Ok split: if_splits)
  from serve_workloads_Ok [OF this] have cs: "map ct_workload cs = cf_workloads cfg" "list_all accounts_safe cs" "sorted_wrt apart cs" by auto
  have slice: "\<not> has_suffix ''.slice'' (wl_unit (ct_workload c))" if "c \<in> set cs" "wl_unit (ct_workload c) \<noteq> []" for c
  proof -
    have "ct_workload c \<in> set (cf_workloads cfg)" using that(1) cs(1) by (metis image_eqI list.set_map)
    then have "validate (ct_workload c) = Ok (ct_workload c)" using valid by (auto simp: list_all_iff)
    then have "rx_match unitPattern (wl_unit (ct_workload c))" using that(2) by (auto simp: validate_Ok workload_ok_def)
    then show ?thesis by (rule unitPattern_service)
  qed
  have "\<not> (is_ok (workloadCgroup line (wl_unit (ct_workload (cs ! i)))) \<and> is_ok (workloadCgroup line (wl_unit (ct_workload (cs ! j)))))"
    if ij: "i < j" "j < length cs" "ct_uid (cs ! i) = ct_uid (cs ! j)" for i j line
  proof
    let ?u = "wl_unit (ct_workload (cs ! i))" and ?v = "wl_unit (ct_workload (cs ! j))"
    have "apart (cs ! i) (cs ! j)" using cs(3) ij by (simp add: sorted_wrt_iff_nth_less)
    then have uv: "?u \<noteq> []" "?v \<noteq> []" "?u \<noteq> ?v" using ij(3) by (auto simp: apart_def)
    assume "is_ok (workloadCgroup line ?u) \<and> is_ok (workloadCgroup line ?v)"
    then obtain a b where "unit_prefix ?u [] (split_on CHR ''/'' (trim_prefix ''/'' line)) = Some a"
      "unit_prefix ?v [] (split_on CHR ''/'' (trim_prefix ''/'' line)) = Some b"
      using uv by (auto simp: workloadCgroup_def split: if_splits option.splits)
    from units_exclusive [OF this] slice uv ij show False by simp
  qed
  then show ?thesis using cs(1,2) by blast
qed

section \<open>The client returns\<close>

definition pauses :: "world \<Rightarrow> nat" where
  "pauses w = length (filter (\<lambda>(c, r). c = Net (NSleep 100)) (w_log w))"

text \<open>C30. The client of a gate returns once its context ends, here after \<open>n\<close> pauses, whatever the socket answers; and it
  reports success only when the line it read from the agent was READY.\<close>

theorem gate_returns:
  assumes "\<And>w. n \<le> pauses w \<Longrightarrow> \<exists>e. K (w_log w) (Net (NSleep 100)) = RErr e"
  shows "\<exists>r w'. gate K path w = Some (r, w') \<and>
    (r = Ok () \<longrightarrow> (\<exists>conn. answered w' (Net (NReadLine conn 4096)) (RText (''READY'' @ [CHR 0x0A]))))"
proof (induction "n - pauses w" arbitrary: w rule: less_induct)
  case less
  obtain d w1 where d: "os_handle K (Net (NDial path)) w = (d, w1)" by (rule prod.exhaust)
  have p1: "pauses w1 = pauses w" if "d = Inl e" for e
    using d that by (auto simp: os_handle_def pauses_def new_handle_def Let_def split: os_reply.splits)
  show ?case
  proof (cases d)
    case (Inr conn)
    let ?run = "os_try (os_finally (os_text K (Net (NReadLine conn 4096))) (os_close K conn)) (\<lambda>line. os_lift (gate_reply line))"
    have "triple (\<lambda>_. True) ?run (\<lambda>_ w. answered w (Net (NReadLine conn 4096)) (RText (''READY'' @ [CHR 0x0A])))"
      by (rule triple_try [OF triple_finally [OF triple_text]])
        (auto intro!: triple_lift stable_rules grows_rules simp: gate_reply_def split: if_splits)
    moreover obtain r w2 where "?run w1 = (r, w2)" by (rule prod.exhaust)
    moreover have "gate K path w = Some (?run w1)" by (subst gate.simps) (simp add: d Inr)
    ultimately show ?thesis unfolding triple_def by auto
  next
    case (Inl e)
    obtain s w2 where s: "os_do K (Net (NSleep 100)) w1 = (s, w2)" by (rule prod.exhaust)
    show ?thesis
    proof (cases s)
      case (Inl e')
      then have "gate K path w = Some (Inl e', w2)" by (subst gate.simps) (simp add: d \<open>d = Inl e\<close> s)
      then show ?thesis by simp
    next
      case (Inr u)
      have "pauses w1 < n" using assms [of w1] s Inr by (fastforce simp: os_call_defs)
      moreover have "pauses w2 = Suc (pauses w1)" using s by (auto simp: os_call_defs pauses_def)
      ultimately have "n - pauses w2 < n - pauses w" using p1 [OF \<open>d = Inl e\<close>] by simp
      from less.hyps [OF this] show ?thesis by (subst gate.simps) (simp add: d \<open>d = Inl e\<close> s Inr)
    qed
  qed
qed

lemma gate_answer_ready: "gate_answer r error_text = ''READY'' @ [CHR 0x0A] \<longleftrightarrow> r = Ok ()"
  by (auto simp: gate_answer_def split: sum.splits)

definition ex_closed_kernel :: kernel where
  "ex_closed_kernel log c = RErr (ErrLib ''ECONNREFUSED'')"

theorem gate_returns_witness: "\<exists>r. gate ex_closed_kernel ''/run/gate.sock'' start_world = Some r"
  using gate_returns [of 0 ex_closed_kernel "''/run/gate.sock''" start_world] by (auto simp: ex_closed_kernel_def)

definition ex_host_kernel :: kernel where
  "ex_host_kernel log c =
     (case c of
        Proc p \<Rightarrow> (case p of CGeteuid \<Rightarrow> RNum 0 | CLookupUser u \<Rightarrow> RText (if u = ''web'' then ''1000'' else ''2000'')
          | CLookupGroup g \<Rightarrow> RText ''100'' | _ \<Rightarrow> ROk)
      | Path q \<Rightarrow> (case q of PLstat s \<Rightarrow> RErr (ErrLib ''ENOENT'') | PReadFile s \<Rightarrow> RText ''0::/system.slice/agent.service/supervisor'' | _ \<Rightarrow> ROk)
      | _ \<Rightarrow> ROk)"

lemma ex_host_calls: "gives (os_num ex_host_kernel (Proc CGeteuid)) 0" "succeeds (os_handle ex_host_kernel (Path (PListen p)))"
  "succeeds (os_handle ex_host_kernel (File f))" "succeeds (os_do ex_host_kernel (Path (PMkdirAll p)))"
  "succeeds (os_do ex_host_kernel (Path (PChown p g)))" "succeeds (os_do ex_host_kernel (Path (PChmod p g)))" "succeeds (clear_socket ex_host_kernel p)"
  "succeeds (os_do ex_host_kernel (File f))"
  by (simp_all add: gives_def succeeds_def clear_socket_def os_handle_def new_handle_def os_call_defs ex_host_kernel_def is_not_exist_def)

definition ex_served :: workload where
  "ex_served = projr (validate ex_workload)"

lemma ex_served_valid: "validate ex_served = Ok ex_served" "wl_user ex_served = ''web''" "wl_worker_user ex_served = ''web-worker''"
proof -
  obtain w where w: "validate ex_workload = Ok w" using ex_workload_valid by (auto simp: is_ok_iff)
  have e: "ex_served = w" "w = wl_fill ex_workload" using w by (simp add: ex_served_def, simp add: validate_Ok)
  show "validate ex_served = Ok ex_served" unfolding e(1) using w by (auto simp: validate_Ok)
  show "wl_user ex_served = ''web''" "wl_worker_user ex_served = ''web-worker''"
    unfolding e by (simp_all add: ex_workload_def)
qed

lemma ex_host_accounts: "gives (accounts ex_host_kernel ex_served) (1000, 100, 2000)"
proof -
  have "atoi ''1000'' = Some 1000" "atoi ''100'' = Some 100" "atoi ''2000'' = Some 2000" by code_simp+
  then show ?thesis
    by (simp add: gives_def accounts_def numericUser_def numericGroup_def os_try_def os_lift_def os_ret_def os_call_defs ex_host_kernel_def ex_served_valid)
qed

lemma ex_host_groups: "succeeds (delegatedWorkerRoot ex_host_kernel id)"
proof -
  have "gives (os_text ex_host_kernel (Path (PReadFile ''/proc/self/cgroup''))) ''0::/system.slice/agent.service/supervisor''"
    by (simp add: gives_def os_call_defs ex_host_kernel_def)
  moreover have "trim_space (trim_prefix ''0::'' ''0::/system.slice/agent.service/supervisor'') = ''/system.slice/agent.service/supervisor''" by code_simp
  moreover have "path_clean ''/system.slice/agent.service/supervisor'' = ''/system.slice/agent.service/supervisor''"
    "path_base ''/system.slice/agent.service/supervisor'' = ''supervisor''"
    "path_dir ''/system.slice/agent.service/supervisor'' = ''/system.slice/agent.service''" "has_suffix ''.service'' ''/system.slice/agent.service''"
    by code_simp+
  moreover have "succeeds (writeGroup ex_host_kernel h n v)" for h n v unfolding writeGroup_def by (intro succeeds_rules ex_host_calls)
  ultimately show ?thesis unfolding delegatedWorkerRoot_def Let_def
    by (intro succeeds_gives) (auto simp: has_prefix_def intro!: succeeds_rules ex_host_calls split: prod.splits)
qed

lemma ex_host_starts: "succeeds (serve_start ex_host_kernel id (ex_configuration\<lparr>cf_workloads := [ex_served]\<rparr>))"
proof -
  have gives_else: "gives m x \<Longrightarrow> succeeds (f x) \<Longrightarrow> succeeds (os_try_else m c f)" for m :: "'a os" and x f c
    unfolding gives_def succeeds_def os_try_else_def by (metis (no_types, lifting) case_prod_conv old.sum.simps(6))
  have "succeeds (serve_workload ex_host_kernel cfg groups stop [] [] ex_served)" for cfg groups stop
    unfolding serve_workload_def
    by (rule gives_else [OF ex_host_accounts]) (simp, intro succeeds_try_else succeeds_rules ex_host_calls; simp add: succeeds_def os_lift_def)
  then show ?thesis unfolding serve_start_def
    by (intro succeeds_gives [OF ex_host_calls(1)])
      (auto intro!: succeeds_try_else succeeds_rules ex_host_groups split: prod.splits)
qed

theorem serve_isolated_witness:
  "\<exists>groups cs ls. fst (serve_start ex_host_kernel id (ex_configuration\<lparr>cf_workloads := [ex_served]\<rparr>) start_world) = Ok (groups, cs, ls) \<and>
    map ct_workload cs = [ex_served] \<and> list_all accounts_safe cs"
proof -
  obtain x w' where x: "serve_start ex_host_kernel id (ex_configuration\<lparr>cf_workloads := [ex_served]\<rparr>) start_world = (Ok x, w')"
    using ex_host_starts by (rule succeedsE)
  obtain groups cs ls where "x = (groups, cs, ls)" by (cases x)
  with x serve_isolated [of ex_host_kernel id "ex_configuration\<lparr>cf_workloads := [ex_served]\<rparr>" start_world groups cs ls w'] ex_served_valid
  show ?thesis by auto
qed

end
