(* ===== verification/Agent_Worker.thy ===== *)
theory Agent_Worker
  imports Agent_Network
begin

text \<open>
  The forwarding of one captured connection by the worker (\<^verbatim>\<open>worker.go\<close>, \<^verbatim>\<open>proxy.go\<close>, the map entries of
  \<^verbatim>\<open>bpf.go\<close>): the key of a connection, the destination that the capture recorded for it, the decision, and the
  tunnel through an HTTP proxy. The sockets, the map of the capture and the parser of HTTP responses
  (\<^verbatim>\<open>http.ReadResponse\<close>) are the fields of an environment.
\<close>

section \<open>Keys and destinations\<close>

record connectionKey =
  ck_netns :: "64 word"
  ck_family :: "32 word"
  ck_source_port :: "32 word"
  ck_proxy_port :: "32 word"
  ck_pad :: "32 word"
  ck_source :: "8 word list"

record destination =
  de_cookie :: "64 word"
  de_created :: "64 word"
  de_family :: "32 word"
  de_port :: "32 word"
  de_address :: "8 word list"

definition bytes_word :: "8 word list \<Rightarrow> 'a::len word" where
  "bytes_word bs = word_of_parts 8 (map uint bs)"

definition destination_addr :: "destination \<Rightarrow> addrport result" where
  "destination_addr d =
     (case (if de_family d = 2 then Ok (Addr4 (bytes_word (take 4 (de_address d))))
            else if de_family d = 10 then Ok (addr_unmap (Addr6 (bytes_word (de_address d)) []))
            else Fail (''unknown address family '' @ itoa (uint (de_family d)))) of
        Inl e \<Rightarrow> Inl e
      | Inr ip \<Rightarrow>
          if de_port d = 0 \<or> de_port d > 65535 then Fail ''invalid destination port''
          else Ok \<lparr>dp_addr = ip, dp_port = ucast (de_port d)\<rparr>)"

text \<open>The bytes of an address, the most significant first.\<close>

definition word_bytes :: "nat \<Rightarrow> 'a::len word \<Rightarrow> 8 word list" where
  "word_bytes n w = map (\<lambda>k. ucast (drop_bit (8 * k) w)) (rev [0..<n])"

section \<open>The environment of a connection\<close>

record conn_env =
  ev_control :: "unit result"
  ev_cookie :: "64 word result"
  ev_remote :: addr
  ev_remote_port :: "16 word"
  ev_local_port :: "16 word"
  ev_lookup :: "nat \<Rightarrow> connectionKey \<Rightarrow> destination result"
  ev_dial :: "string \<Rightarrow> unit result"
  ev_write :: "string \<Rightarrow> unit result"
  ev_stream :: string
  ev_status :: "string \<Rightarrow> int result"

text \<open>\<^verbatim>\<open>To4\<close> yields four bytes for an IPv4 address, mapped into IPv6 or not; the rest of the array stays zero.\<close>

definition connectionIdentity :: "conn_env \<Rightarrow> connectionKey result" where
  "connectionIdentity env =
     (case ev_control env of
        Inl e \<Rightarrow> Inl e
      | Inr _ \<Rightarrow>
      (case ev_cookie env of
        Inl e \<Rightarrow> Inl e
      | Inr netns \<Rightarrow>
          let k = \<lparr>ck_netns = netns, ck_family = 0, ck_source_port = ucast (ev_remote_port env),
                   ck_proxy_port = ucast (ev_local_port env), ck_pad = 0, ck_source = replicate 16 0\<rparr> in
          Ok (case addr_unmap (ev_remote env) of
                Addr4 w \<Rightarrow> k\<lparr>ck_family := 2, ck_source := word_bytes 4 w @ replicate 12 0\<rparr>
              | Addr6 w _ \<Rightarrow> k\<lparr>ck_family := 10, ck_source := word_bytes 16 w\<rparr>
              | AddrInvalid \<Rightarrow> k\<lparr>ck_family := 10\<rparr>)))"

definition err_key_not_exist :: go_error where
  "err_key_not_exist = ErrLib ''ErrKeyNotExist''"

text \<open>Attempts \<open>i\<close> to 19; \<open>prev\<close> is the error of the attempt before.\<close>

fun lookup_loop :: "conn_env \<Rightarrow> connectionKey \<Rightarrow> nat \<Rightarrow> nat \<Rightarrow> go_error \<Rightarrow> destination result" where
  "lookup_loop env k 0 i prev = Inl (ErrWrap ''no original destination'' prev)"
| "lookup_loop env k (Suc n) i prev =
     (case ev_lookup env i k of
        Inr d \<Rightarrow> Ok d
      | Inl e \<Rightarrow> if e \<noteq> err_key_not_exist then Inl e else lookup_loop env k n (Suc i) e)"

definition originalDestination :: "conn_env \<Rightarrow> destination result" where
  "originalDestination env =
     (case connectionIdentity env of
        Inl e \<Rightarrow> Inl e
      | Inr k \<Rightarrow> lookup_loop env k 20 0 (ErrLib ''nil''))"

section \<open>The tunnel\<close>

text \<open>\<^verbatim>\<open>ReadSlice\<close> with a buffer of 4096 bytes: the line, its end included, and what follows.\<close>

definition read_slice :: "string \<Rightarrow> (string \<times> string) result" where
  "read_slice s =
     (let n = length (takeWhile (\<lambda>c. c \<noteq> CHR 0x0A) s) in
      if n \<ge> 4096 then Inl (ErrLib ''bufio: buffer full'')
      else if n = length s then Inl (ErrLib ''EOF'')
      else Ok (take (Suc n) s, drop (Suc n) s))"

lemma read_slice_Ok:
  assumes "read_slice s = Ok (line, rest)"
  shows "s = line @ rest" "line \<noteq> []" "length rest < length s" "length line \<le> 4096" "last line = CHR 0x0A" "CHR 0x0A \<notin> set (butlast line)"
proof -
  let ?h = "takeWhile (\<lambda>c. c \<noteq> CHR 0x0A) s"
  have n: "length ?h < 4096" "length ?h \<noteq> length s" and l: "line = take (Suc (length ?h)) s" "rest = drop (Suc (length ?h)) s"
    using assms by (auto simp: read_slice_def Let_def split: if_splits)
  then have lt: "length ?h < length s" by (metis le_neq_implies_less length_takeWhile_le)
  have "s ! length ?h = CHR 0x0A" using nth_length_takeWhile [OF lt] by simp
  moreover have "take (length ?h) s = ?h" by (rule takeWhile_eq_take [symmetric])
  ultimately have line: "line = ?h @ [CHR 0x0A]" unfolding l(1) take_Suc_conv_app_nth [OF lt] by simp
  show "s = line @ rest" "line \<noteq> []" "length rest < length s" using l lt by auto
  show "length line \<le> 4096" "last line = CHR 0x0A" using line n(1) by simp_all
  show "CHR 0x0A \<notin> set (butlast line)" using line by (auto dest: set_takeWhileD)
qed

function header_loop :: "string \<Rightarrow> string \<Rightarrow> (string \<times> string) result" where
  "header_loop header s =
     (case read_slice s of
        Inl e \<Rightarrow> Inl e
      | Inr (line, rest) \<Rightarrow>
          if length (header @ line) > 32768 then Fail ''CONNECT response headers too large''
          else if line = [CHR 0x0D, CHR 0x0A] then Ok (header @ line, rest)
          else header_loop (header @ line) rest)"
  by pat_completeness auto
termination by (relation "measure (\<lambda>(_, s). length s)") (auto dest: read_slice_Ok)

declare header_loop.simps [simp del]

definition connect_request :: "string \<Rightarrow> string" where
  "connect_request authority =
     ''CONNECT '' @ authority @ '' HTTP/1.1'' @ [CHR 0x0D, CHR 0x0A] @ ''Host: '' @ authority @ [CHR 0x0D, CHR 0x0A, CHR 0x0D, CHR 0x0A]"

text \<open>The bytes of the tunnel that were already received, when it is open.\<close>

definition dialTunnel :: "conn_env \<Rightarrow> string \<Rightarrow> string \<Rightarrow> string result" where
  "dialTunnel env socket authority =
     (if contains_any authority [CHR 0x0D, CHR 0x0A, CHR '' '', CHR 0x09] then Fail ''invalid CONNECT authority''
      else case ev_dial env socket of
        Inl e \<Rightarrow> Inl e
      | Inr _ \<Rightarrow>
      (case ev_write env (connect_request authority) of
        Inl e \<Rightarrow> Inl e
      | Inr _ \<Rightarrow>
      (case header_loop [] (ev_stream env) of
        Inl e \<Rightarrow> Inl e
      | Inr (header, rest) \<Rightarrow>
      (case ev_status env header of
        Inl e \<Rightarrow> Inl e
      | Inr status \<Rightarrow>
          if status \<noteq> 200 then Fail (''CONNECT returned HTTP '' @ itoa status) else Ok rest))))"

section \<open>Forwarding\<close>

datatype forwarding =
    Rejected go_error
  | NameService
  | Denied addrport go_error
  | EgressFailed go_error
  | Tunnelled string string
  | Forwarded string

definition addrport_string :: "addrport \<Rightarrow> string" where
  "addrport_string a = join_host_port (addr_string (dp_addr a)) (itoa (uint (dp_port a)))"

definition forward_connection :: "workload \<Rightarrow> conn_env \<Rightarrow> forwarding" where
  "forward_connection w env =
     (case originalDestination env of
        Inl e \<Rightarrow> Rejected e
      | Inr d \<Rightarrow>
      (case destination_addr d of
        Inl e \<Rightarrow> Rejected e
      | Inr a \<Rightarrow>
      if dp_port a = 53 then NameService
      else case target w a of
        Inl e \<Rightarrow> Denied a e
      | Inr socket \<Rightarrow>
          if socket = wl_internet_socket w
          then (case dialTunnel env socket (addrport_string a) of Inl e \<Rightarrow> EgressFailed e | Inr rest \<Rightarrow> Tunnelled (addrport_string a) rest)
          else (case ev_dial env socket of Inl e \<Rightarrow> EgressFailed e | Inr _ \<Rightarrow> Forwarded socket)))"

section \<open>The namespace of the worker\<close>

record net_interface =
  ni_name :: string
  ni_up :: bool
  ni_loopback :: bool
  ni_addresses :: "string list result"

fun check_interfaces :: "net_interface list \<Rightarrow> unit result" where
  "check_interfaces [] = Ok ()"
| "check_interfaces (i # rest) =
     (if gm_get fallbackTunnelKinds (ni_name i) \<noteq> None \<and> \<not> ni_up i \<and> ni_addresses i = Ok []
      then check_interfaces rest
      else if \<not> ni_loopback i \<and> ni_name i \<noteq> ''realm0''
      then Fail (''refusing namespace with non-loopback interface '' @ ni_name i)
      else check_interfaces rest)"

section \<open>Keys identify connections\<close>

lemma word_bytes_inj:
  fixes v w :: "'a::len word"
  assumes "word_bytes n v = word_bytes n w" "8 * n = LENGTH('a)"
  shows "v = w"
proof (rule bit_word_eqI)
  fix i assume i: "i < LENGTH('a)"
  have k: "i div 8 < n" using i assms(2) by (simp add: less_mult_imp_div_less mult.commute)
  have "ucast (drop_bit (8 * (i div 8)) v) = (ucast (drop_bit (8 * (i div 8)) w) :: 8 word)"
    using assms(1) k by (simp add: word_bytes_def)
  then have "bit (ucast (drop_bit (8 * (i div 8)) v) :: 8 word) (i mod 8) = bit (ucast (drop_bit (8 * (i div 8)) w) :: 8 word) (i mod 8)" by simp
  then show "bit v i = bit w i" by (simp add: bit_simps)
qed

lemma word_bytes_length [simp]: "length (word_bytes n w) = n"
  by (simp add: word_bytes_def)

text \<open>The connections a key can stand for.\<close>

definition same_connection :: "conn_env \<Rightarrow> conn_env \<Rightarrow> bool" where
  "same_connection a b =
     (ev_cookie a = ev_cookie b \<and> ev_remote_port a = ev_remote_port b \<and> ev_local_port a = ev_local_port b \<and>
      (case (addr_unmap (ev_remote a), addr_unmap (ev_remote b)) of
         (Addr4 v, Addr4 w) \<Rightarrow> v = w
       | (Addr6 v _, Addr6 w _) \<Rightarrow> v = w
       | _ \<Rightarrow> False))"

lemma connection_key_unique:
  assumes "connectionIdentity a = Ok k" "connectionIdentity b = Ok k" "ev_remote a \<noteq> AddrInvalid" "ev_remote b \<noteq> AddrInvalid"
  shows "same_connection a b"
proof -
  have valid: "addr_unmap (ev_remote a) \<noteq> AddrInvalid" "addr_unmap (ev_remote b) \<noteq> AddrInvalid"
    using assms(3,4) by (auto simp: addr_unmap_def split: addr.splits)
  have "uint (ucast p :: 32 word) = uint p" for p :: "16 word"
  proof -
    have "uint p < 2 ^ LENGTH(16)" by (rule unsigned_less)
    then have "take_bit 32 (uint p) = uint p" by (intro take_bit_int_eq_self) simp_all
    then show ?thesis by (simp add: unsigned_ucast_eq)
  qed
  then have port: "ucast p = (ucast q :: 32 word) \<Longrightarrow> p = q" for p q :: "16 word" by (metis word_uint_eq_iff)
  show ?thesis using assms(1,2) valid
    by (auto simp: connectionIdentity_def same_connection_def Let_def port dest: port word_bytes_inj split: sum.splits addr.splits)
qed

section \<open>The tunnel consumes the response and nothing else\<close>

definition is_line :: "string \<Rightarrow> bool" where
  "is_line l = (l \<noteq> [] \<and> last l = CHR 0x0A \<and> CHR 0x0A \<notin> set (butlast l) \<and> length l \<le> 4096)"

abbreviation crlf :: string where
  "crlf \<equiv> [CHR 0x0D, CHR 0x0A]"

lemma read_slice_iff: "read_slice s = Ok (line, rest) \<longleftrightarrow> is_line line \<and> s = line @ rest"
proof
  assume "read_slice s = Ok (line, rest)"
  then show "is_line line \<and> s = line @ rest" using read_slice_Ok by (simp add: is_line_def)
next
  assume l: "is_line line \<and> s = line @ rest"
  then obtain b where b: "line = b @ [CHR 0x0A]" "CHR 0x0A \<notin> set b" unfolding is_line_def by (metis append_butlast_last_id)
  then have s: "s = b @ CHR 0x0A # rest" using l by simp
  have "takeWhile (\<lambda>c. c \<noteq> CHR 0x0A) s = b" unfolding s by (subst takeWhile_append2) (use b(2) in auto)
  then show "read_slice s = Ok (line, rest)" using l b by (auto simp: read_slice_def is_line_def)
qed

lemma header_loop_iff:
  "header_loop h s = Ok (hdr, rest) \<longleftrightarrow>
    (\<exists>ls. list_all (\<lambda>l. is_line l \<and> l \<noteq> crlf) ls \<and> hdr = h @ concat ls @ crlf \<and> s = concat ls @ crlf @ rest \<and> length hdr \<le> 32768)"
proof (induction h s rule: header_loop.induct)
  case (1 h s)
  show ?case (is "?L \<longleftrightarrow> ?R")
  proof
    assume ?L
    then obtain line s' where l: "read_slice s = Ok (line, s')" by (subst (asm) header_loop.simps) (auto split: sum.splits)
    then have line: "is_line line" "s = line @ s'" by (simp_all add: read_slice_iff)
    show ?R
    proof (cases "line = crlf")
      case True
      then show ?thesis using \<open>?L\<close> l line by (subst (asm) header_loop.simps) (auto intro!: exI [of _ "[]"] split: if_splits)
    next
      case False
      with \<open>?L\<close> l have "\<not> length (h @ line) > 32768" "header_loop (h @ line) s' = Ok (hdr, rest)"
        by (subst (asm) header_loop.simps, simp split: if_splits)+
      with "1.IH" [OF l refl] False obtain ls where "list_all (\<lambda>l. is_line l \<and> l \<noteq> crlf) ls" "hdr = (h @ line) @ concat ls @ crlf"
        "s' = concat ls @ crlf @ rest" "length hdr \<le> 32768" by blast
      then show ?thesis using line False by (intro exI [of _ "line # ls"]) simp
    qed
  next
    assume ?R
    then obtain ls where ls: "list_all (\<lambda>l. is_line l \<and> l \<noteq> crlf) ls" "hdr = h @ concat ls @ crlf" "s = concat ls @ crlf @ rest" "length hdr \<le> 32768" by blast
    show ?L
    proof (cases ls)
      case Nil
      have "read_slice s = Ok (crlf, rest)" using ls(3) Nil by (simp add: read_slice_iff is_line_def)
      then show ?thesis using ls Nil by (subst header_loop.simps) simp
    next
      case (Cons l ls')
      have r: "read_slice s = Ok (l, concat ls' @ crlf @ rest)" using ls Cons by (simp add: read_slice_iff)
      have len: "\<not> length (h @ l) > 32768" using ls(2,4) Cons by simp
      have "header_loop (h @ l) (concat ls' @ crlf @ rest) = Ok (hdr, rest)"
        using "1.IH" [OF r refl len] ls Cons by auto
      then show ?thesis using r len ls(1) Cons by (subst header_loop.simps) simp
    qed
  qed
qed

text \<open>C21. A tunnel opens exactly when the authority is a single word, the proxy was reached and its answer is a block of
  complete lines of at most 4096 bytes, 32 kilobytes together, that ends with an empty line and has status 200.
  Exactly these bytes are consumed: what the proxy sent after them is the beginning of the tunnel.\<close>

theorem tunnel_exact:
  "dialTunnel env socket authority = Ok rest \<longleftrightarrow>
    \<not> contains_any authority [CHR 0x0D, CHR 0x0A, CHR '' '', CHR 0x09] \<and> is_ok (ev_dial env socket) \<and>
    is_ok (ev_write env (connect_request authority)) \<and>
    (\<exists>ls. list_all (\<lambda>l. is_line l \<and> l \<noteq> crlf) ls \<and> ev_stream env = concat ls @ crlf @ rest \<and>
       length (concat ls @ crlf) \<le> 32768 \<and> ev_status env (concat ls @ crlf) = Ok 200)"
proof -
  have "dialTunnel env socket authority = Ok rest \<longleftrightarrow>
      \<not> contains_any authority [CHR 0x0D, CHR 0x0A, CHR '' '', CHR 0x09] \<and> is_ok (ev_dial env socket) \<and>
      is_ok (ev_write env (connect_request authority)) \<and>
      (\<exists>hdr. header_loop [] (ev_stream env) = Ok (hdr, rest) \<and> ev_status env hdr = Ok 200)"
    unfolding dialTunnel_def by (auto simp: is_ok_iff split: sum.splits if_splits)
  then show ?thesis unfolding header_loop_iff append_Nil by blast
qed

section \<open>What is forwarded\<close>

lemma lookup_loop_Ok: "lookup_loop env k n i prev = Ok d \<Longrightarrow> \<exists>j. i \<le> j \<and> j < i + n \<and> ev_lookup env j k = Ok d"
proof (induction n arbitrary: i prev)
  case (Suc n)
  show ?case
  proof (cases "ev_lookup env i k")
    case (Inl e)
    then have "lookup_loop env k n (Suc i) e = Ok d" using Suc.prems by (auto split: if_splits)
    from Suc.IH [OF this] show ?thesis by (metis Suc_leD add_Suc_right add_Suc_shift)
  next
    case (Inr d')
    then show ?thesis using Suc.prems by (intro exI [of _ i]) simp
  qed
qed simp

text \<open>The destination that the capture recorded under the key of this connection.\<close>

definition recorded :: "conn_env \<Rightarrow> addrport \<Rightarrow> bool" where
  "recorded env a =
     (\<exists>k i d. connectionIdentity env = Ok k \<and> i < 20 \<and> ev_lookup env i k = Ok d \<and> destination_addr d = Ok a)"

lemma forwarded_recorded:
  assumes "originalDestination env = Ok d" "destination_addr d = Ok a"
  shows "recorded env a"
proof -
  obtain k where k: "connectionIdentity env = Ok k" "lookup_loop env k 20 0 (ErrLib ''nil'') = Ok d"
    using assms(1) by (auto simp: originalDestination_def split: sum.splits)
  from lookup_loop_Ok [OF k(2)] k(1) assms(2) show ?thesis by (auto simp: recorded_def)
qed

lemma destination_addr_plain: "destination_addr d = Ok a \<Longrightarrow> dp_addr a \<noteq> AddrInvalid \<and> (\<forall>x z. dp_addr a = Addr6 x z \<longrightarrow> z = [])"
  by (auto simp: destination_addr_def addr_unmap_def split: if_splits)

definition public_addr :: "addr \<Rightarrow> bool" where
  "public_addr a = (case a of Addr4 x \<Rightarrow> \<not> in_ranges reserved4 (uint x) | Addr6 x z \<Rightarrow> \<not> in_ranges reserved6 (uint x) | AddrInvalid \<Rightarrow> False)"

lemma not_reserved_public:
  assumes "destination_addr d = Ok a" "\<not> reserved (dp_addr a)"
  shows "public_addr (dp_addr a)"
  using destination_addr_plain [OF assms(1)] assms(2) reserved_v4 reserved_v6 by (cases "dp_addr a") (auto simp: public_addr_def)

text \<open>C5. A captured connection of a validated workload is forwarded only to the destination recorded for it: directly,
  to the socket of the first route with the longest prefix that matches the destination; through the proxy,
  with the text of the destination as the authority, and only when a route leads there or the destination is a
  public address on a declared port.\<close>

theorem connection_forwarded:
  assumes "validate w0 = Ok w"
  shows "case forward_connection w env of
     Forwarded s \<Rightarrow> \<exists>a j. recorded env a \<and> dp_port a \<noteq> 53 \<and> best_at a (wl_routes w) j \<and> s = rt_socket (wl_routes w ! j)
   | Tunnelled t rest \<Rightarrow> \<exists>a. recorded env a \<and> dp_port a \<noteq> 53 \<and> t = addrport_string a \<and> dialTunnel env (wl_internet_socket w) t = Ok rest \<and>
       (list_ex (route_matches a) (wl_routes w) \<or> public_addr (dp_addr a) \<and> dp_port a \<in> set (wl_internet_ports w))
   | _ \<Rightarrow> True"
proof -
  have w: "workload_ok w" using assms by (auto simp: validate_Ok)
  have routed: "\<exists>j. best_at a (wl_routes w) j \<and> target w a = Ok (rt_socket (wl_routes w ! j))" if "list_ex (route_matches a) (wl_routes w)" for a
    using that target_routed [OF w] by (metis list_ex_iff)
  have unrouted: "\<not> reserved (dp_addr a) \<and> s = wl_internet_socket w \<and> dp_port a \<in> set (wl_internet_ports w)"
    if "target w a = Ok s" "\<not> list_ex (route_matches a) (wl_routes w)" for a s
  proof -
    have "select_route a (wl_routes w) [] (- 1) = Some []" using that(2) by (intro target_unrouted [OF w]) (auto simp: list_ex_iff)
    then show ?thesis using that(1) by (auto simp: target_def reserved_def forbidden_value list_ex_iff split: if_splits)
  qed
  show ?thesis
  proof (cases "\<exists>d a s. originalDestination env = Ok d \<and> destination_addr d = Ok a \<and> dp_port a \<noteq> 53 \<and> target w a = Ok s")
    case False
    then show ?thesis by (auto simp: forward_connection_def split: sum.splits)
  next
    case True
    then obtain d a s where d: "originalDestination env = Ok d" "destination_addr d = Ok a" "dp_port a \<noteq> 53" "target w a = Ok s" by blast
    have rec: "recorded env a" by (rule forwarded_recorded [OF d(1,2)])
    show ?thesis
    proof (cases "s = wl_internet_socket w")
      case True
      have "list_ex (route_matches a) (wl_routes w) \<or> public_addr (dp_addr a) \<and> dp_port a \<in> set (wl_internet_ports w)"
        using unrouted [OF d(4)] not_reserved_public [OF d(2)] by blast
      then show ?thesis using d True rec by (auto simp: forward_connection_def split: sum.splits)
    next
      case False
      then have "list_ex (route_matches a) (wl_routes w)" using unrouted [OF d(4)] by blast
      from routed [OF this] d(4) obtain j where "best_at a (wl_routes w) j" "s = rt_socket (wl_routes w ! j)" by auto
      then show ?thesis using d False rec by (auto simp: forward_connection_def split: sum.splits)
    qed
  qed
qed

text \<open>A connection to a public web server, through the proxy.\<close>

definition ex_conn :: conn_env where
  "ex_conn = \<lparr>ev_control = Ok (), ev_cookie = Ok 7, ev_remote = Addr4 0x7F000001, ev_remote_port = 40000, ev_local_port = 15001,
     ev_lookup = (\<lambda>i k. if i = 0 then Inl err_key_not_exist else Ok \<lparr>de_cookie = 1, de_created = 2, de_family = 2, de_port = 443,
       de_address = [1, 1, 1, 1] @ replicate 12 0\<rparr>),
     ev_dial = (\<lambda>_. Ok ()), ev_write = (\<lambda>_. Ok ()), ev_stream = ''HTTP/1.1 200 OK'' @ crlf @ crlf @ ''tunnel'', ev_status = (\<lambda>_. Ok 200)\<rparr>"

theorem connection_forwarded_witness:
  "\<exists>a. recorded ex_conn a \<and> ''1.1.1.1:443'' = addrport_string a \<and>
    dialTunnel ex_conn (wl_internet_socket (wl_fill ex_workload)) ''1.1.1.1:443'' = Ok ''tunnel''"
proof -
  have slices: "read_slice (''HTTP/1.1 200 OK'' @ crlf @ crlf @ ''tunnel'') = Ok (''HTTP/1.1 200 OK'' @ crlf, crlf @ ''tunnel'')"
    "read_slice (crlf @ ''tunnel'') = Ok (crlf, ''tunnel'')" by (simp_all add: read_slice_iff is_line_def)
  have hdr: "header_loop [] (''HTTP/1.1 200 OK'' @ crlf @ crlf @ ''tunnel'') = Ok (''HTTP/1.1 200 OK'' @ crlf @ crlf, ''tunnel'')"
    by (subst header_loop.simps, subst slices(1)) (simp, subst header_loop.simps, simp add: slices(2) [simplified])
  have dest: "destination_addr \<lparr>de_cookie = 1, de_created = 2, de_family = 2, de_port = 443, de_address = [1, 1, 1, 1] @ replicate 12 0\<rparr> =
      Ok \<lparr>dp_addr = Addr4 0x01010101, dp_port = 443\<rparr>" by code_simp
  have str: "addrport_string \<lparr>dp_addr = Addr4 0x01010101, dp_port = 443\<rparr> = ''1.1.1.1:443''" by code_simp
  have plain: "\<not> contains_any ''1.1.1.1:443'' [CHR 0x0D, CHR 0x0A, CHR '' '', CHR 0x09]" by code_simp
  have socket: "wl_internet_socket (wl_fill ex_workload) = ''/run/egress/proxy.sock''" by (simp add: wl_fill_def ex_workload_def)
  let ?d = "\<lparr>de_cookie = 1, de_created = 2, de_family = 2, de_port = 443, de_address = [1, 1, 1, 1] @ replicate 12 0\<rparr> :: destination"
  have "lookup_loop ex_conn k (Suc (Suc n)) 0 e = Ok ?d" for k n e by (simp add: ex_conn_def)
  from this [of _ 18] have twenty: "lookup_loop ex_conn k 20 0 e = Ok ?d" for k e by simp
  have "is_ok (connectionIdentity ex_conn)" by (simp add: connectionIdentity_def ex_conn_def Let_def)
  then have "originalDestination ex_conn = Ok ?d" by (auto simp: originalDestination_def is_ok_iff twenty)
  moreover have "dialTunnel ex_conn s ''1.1.1.1:443'' = Ok ''tunnel''" for s
    using plain hdr by (simp add: dialTunnel_def ex_conn_def)
  ultimately have "forward_connection (wl_fill ex_workload) ex_conn = Tunnelled ''1.1.1.1:443'' ''tunnel''"
    using dest str ex_targets_eval(2) socket by (simp add: forward_connection_def)
  then show ?thesis using connection_forwarded [OF ex_valid, of ex_conn] by auto
qed

end
