(* ===== verification/Agent_Dns.thy ===== *)
theory Agent_Dns
  imports Agent_Config
begin

text \<open>
  The resolver of a worker (\<^verbatim>\<open>dns.go\<close>): names of the configuration are answered from it, every other question is
  sent to the upstream through the proxy, if there is one. The DNS library is a parameter: the canonical form of a
  name, the skeleton of a reply, and the wire format. What the upstream answers is an environment.
\<close>

section \<open>Messages\<close>

record dns_question =
  qn_name :: string
  qn_type :: int
  qn_class :: int

datatype dns_record = AddressRecord string int int addr | OtherRecord string

record dns_msg =
  ms_id :: "16 word"
  ms_response :: bool
  ms_opcode :: int
  ms_rcode :: int
  ms_available :: bool
  ms_authoritative :: bool
  ms_question :: "dns_question list"
  ms_answer :: "dns_record list"
  ms_udp_size :: "16 word option"

record dns_lib =
  dl_canonical :: "string \<Rightarrow> string"
  dl_set_reply :: "dns_msg \<Rightarrow> dns_msg"
  dl_pack :: "dns_msg \<Rightarrow> string result"
  dl_unpack :: "string \<Rightarrow> dns_msg result"

abbreviation TypeA :: int where "TypeA \<equiv> 1"
abbreviation TypeAAAA :: int where "TypeAAAA \<equiv> 28"
abbreviation ClassINET :: int where "ClassINET \<equiv> 1"
abbreviation OpcodeQuery :: int where "OpcodeQuery \<equiv> 0"
abbreviation RcodeFormatError :: int where "RcodeFormatError \<equiv> 1"
abbreviation RcodeServerFailure :: int where "RcodeServerFailure \<equiv> 2"
abbreviation RcodeRefused :: int where "RcodeRefused \<equiv> 5"

section \<open>The names of the configuration\<close>

type_synonym hosts = "(string, addr list) gmap"

text \<open>The entries in the order in which Go walks the map; \<^verbatim>\<open>MustParseAddr\<close> panics on a text that is no address.\<close>

fun host_addresses :: "string \<Rightarrow> string list \<Rightarrow> hosts \<Rightarrow> hosts option" where
  "host_addresses name [] h = Some h"
| "host_addresses name (s # ss) h =
     (case parse_addr s of
        None \<Rightarrow> None
      | Some a \<Rightarrow> host_addresses name ss (gm_put name ((case gm_get h name of None \<Rightarrow> [] | Some as \<Rightarrow> as) @ [a]) h))"

fun new_hosts :: "(string \<Rightarrow> string) \<Rightarrow> (string \<times> string list) list \<Rightarrow> hosts \<Rightarrow> hosts option" where
  "new_hosts canonical [] h = Some h"
| "new_hosts canonical ((name, addresses) # rest) h =
     (case host_addresses (canonical name) addresses h of None \<Rightarrow> None | Some h' \<Rightarrow> new_hosts canonical rest h')"

section \<open>Answers\<close>

text \<open>The reply of the upstream. An error of \<^verbatim>\<open>NewRequest\<close> or of \<^verbatim>\<open>Do\<close> is no reply.\<close>

record upstream_reply =
  ur_status :: int
  ur_content_type :: string
  ur_bytes :: string
  ur_broken :: bool

record upstream =
  up_slot :: bool
  up_post :: "string \<Rightarrow> string \<Rightarrow> upstream_reply option"

text \<open>\<^verbatim>\<open>io.ReadAll\<close> of at most 65536 bytes.\<close>

definition read_reply :: "upstream_reply \<Rightarrow> string result" where
  "read_reply r =
     (if length (ur_bytes r) \<ge> 65536 then Ok (take 65536 (ur_bytes r))
      else if ur_broken r then Inl (ErrLib ''read'') else Ok (ur_bytes r))"

fun host_records :: "dns_question \<Rightarrow> addr list \<Rightarrow> dns_record list" where
  "host_records q [] = []"
| "host_records q (ip # ips) =
     (if qn_type q = TypeA \<and> addr_is4 ip then [AddressRecord (qn_name q) TypeA 60 ip] else []) @
     (if qn_type q = TypeAAAA \<and> addr_is6 ip then [AddressRecord (qn_name q) TypeAAAA 60 ip] else []) @ host_records q ips"

definition ask_upstream :: "dns_lib \<Rightarrow> workload \<Rightarrow> upstream \<Rightarrow> dns_msg \<Rightarrow> dns_question \<Rightarrow> dns_msg \<Rightarrow> dns_msg" where
  "ask_upstream L w up q question a =
     (if \<not> up_slot up then a\<lparr>ms_rcode := RcodeServerFailure\<rparr>
      else case dl_pack L q of
        Inl _ \<Rightarrow> a\<lparr>ms_rcode := RcodeFormatError\<rparr>
      | Inr raw \<Rightarrow>
      (case up_post up (wl_dns_upstream w) raw of
        None \<Rightarrow> a\<lparr>ms_rcode := RcodeServerFailure\<rparr>
      | Some resp \<Rightarrow>
      if ur_status resp \<noteq> 200 \<or> \<not> has_prefix ''application/dns-message'' (ur_content_type resp)
      then a\<lparr>ms_rcode := RcodeServerFailure\<rparr>
      else case read_reply resp of
        Inl _ \<Rightarrow> a\<lparr>ms_rcode := RcodeServerFailure\<rparr>
      | Inr body \<Rightarrow>
      if length body > 65535 then a\<lparr>ms_rcode := RcodeServerFailure\<rparr>
      else case dl_unpack L body of
        Inl _ \<Rightarrow> a\<lparr>ms_rcode := RcodeServerFailure\<rparr>
      | Inr m \<Rightarrow>
          if \<not> ms_response m \<or> ms_id m \<noteq> ms_id q \<or> length (ms_question m) \<noteq> 1 \<or> hd (ms_question m) \<noteq> question
          then a\<lparr>ms_rcode := RcodeServerFailure\<rparr> else m))"

definition dns_answer :: "dns_lib \<Rightarrow> workload \<Rightarrow> hosts \<Rightarrow> upstream \<Rightarrow> dns_msg \<Rightarrow> dns_msg" where
  "dns_answer L w hosts up q =
     (let a = (dl_set_reply L q)\<lparr>ms_available := (wl_internet_socket w \<noteq> [])\<rparr> in
      if ms_opcode q \<noteq> OpcodeQuery \<or> length (ms_question q) \<noteq> 1 \<or> qn_class (hd (ms_question q)) \<noteq> ClassINET
      then a\<lparr>ms_rcode := RcodeFormatError\<rparr>
      else
        let question = hd (ms_question q) in
        case gm_get hosts (dl_canonical L (qn_name question)) of
          Some addresses \<Rightarrow> a\<lparr>ms_authoritative := True, ms_answer := ms_answer a @ host_records question addresses\<rparr>
        | None \<Rightarrow>
            if wl_internet_socket w = [] then a\<lparr>ms_rcode := RcodeRefused\<rparr>
            else ask_upstream L w up q question a)"

section \<open>Datagrams\<close>

definition udpAnswerSize :: "dns_msg \<Rightarrow> int" where
  "udpAnswerSize q =
     (let size = (case ms_udp_size q of None \<Rightarrow> 512 | Some s \<Rightarrow> uint s) in
      if size < 512 then 512 else if size > 1232 then 1232 else size)"

text \<open>The reader of a socket: a datagram that is truncated or shorter than a header is dropped, and so is one that finds
  the queue of 128 datagrams full.\<close>

definition udp_read :: "nat \<Rightarrow> bool \<Rightarrow> string \<Rightarrow> string list \<Rightarrow> string list" where
  "udp_read capacity truncated wire queue =
     (if truncated \<or> length wire < 12 then queue
      else if length queue < capacity then queue @ [wire] else queue)"

text \<open>A worker: what it sends for a datagram, packed after it was cut to the size the client takes.\<close>

definition udp_work ::
  "dns_lib \<Rightarrow> (int \<Rightarrow> dns_msg \<Rightarrow> dns_msg) \<Rightarrow> (dns_msg \<Rightarrow> dns_msg) \<Rightarrow> string \<Rightarrow> string option" where
  "udp_work L shorten answer wire =
     (case dl_unpack L wire of
        Inl _ \<Rightarrow> None
      | Inr m \<Rightarrow>
          if ms_response m then None
          else (case dl_pack L (shorten (udpAnswerSize m) (answer m)) of Inl _ \<Rightarrow> None | Inr w \<Rightarrow> Some w))"

section \<open>Which names leave the host\<close>

text \<open>The replies of the library: documented as a response with the identifier and the first question of the query, no
  records and the code of success.\<close>

definition set_reply_documented :: "dns_lib \<Rightarrow> bool" where
  "set_reply_documented L =
     (\<forall>q. ms_id (dl_set_reply L q) = ms_id q \<and> ms_response (dl_set_reply L q) \<and> ms_rcode (dl_set_reply L q) = 0 \<and>
        ms_question (dl_set_reply L q) = take 1 (ms_question q) \<and> ms_answer (dl_set_reply L q) = [])"

lemma host_records_set:
  "set (host_records q as) =
    {AddressRecord (qn_name q) (qn_type q) 60 ip | ip. ip \<in> set as \<and> (qn_type q = TypeA \<and> addr_is4 ip \<or> qn_type q = TypeAAAA \<and> addr_is6 ip)}"
  by (induction "as") auto

lemma ask_upstream_id:
  assumes "ms_id a = ms_id q" "ms_response a" "ms_question a = [question]"
  shows "ms_id (ask_upstream L w up q question a) = ms_id q \<and> ms_response (ask_upstream L w up q question a) \<and>
    ms_question (ask_upstream L w up q question a) = [question]"
proof -
  have "ask_upstream L w up q question a = a\<lparr>ms_rcode := RcodeServerFailure\<rparr> \<or> ask_upstream L w up q question a = a\<lparr>ms_rcode := RcodeFormatError\<rparr> \<or>
      (ms_response (ask_upstream L w up q question a) \<and> ms_id (ask_upstream L w up q question a) = ms_id q \<and>
       length (ms_question (ask_upstream L w up q question a)) = 1 \<and> hd (ms_question (ask_upstream L w up q question a)) = question)"
    unfolding ask_upstream_def by (auto split: sum.splits option.splits)
  then show ?thesis using assms by (auto simp: length_Suc_conv)
qed

text \<open>C26. Every answer is a response to the query: it has its identifier and question. A name of the configuration is
  answered from the configuration alone, with exactly its addresses of the family asked for, and it never
  depends on the upstream; neither does any answer of a workload without an Internet socket, which refuses
  the names it does not know.\<close>

theorem dns_answers:
  assumes "set_reply_documented L" "ms_opcode q = OpcodeQuery" "ms_question q = [question]" "qn_class question = ClassINET"
  shows "ms_id (dns_answer L w hosts up q) = ms_id q \<and> ms_response (dns_answer L w hosts up q) \<and> ms_question (dns_answer L w hosts up q) = [question] \<and>
    (case gm_get hosts (dl_canonical L (qn_name question)) of
       Some as \<Rightarrow> dns_answer L w hosts up q = dns_answer L w hosts up' q \<and> ms_rcode (dns_answer L w hosts up q) = 0 \<and>
         set (ms_answer (dns_answer L w hosts up q)) = {AddressRecord (qn_name question) (qn_type question) 60 ip | ip. ip \<in> set as \<and>
           (qn_type question = TypeA \<and> addr_is4 ip \<or> qn_type question = TypeAAAA \<and> addr_is6 ip)}
     | None \<Rightarrow> wl_internet_socket w = [] \<longrightarrow> dns_answer L w hosts up q = dns_answer L w hosts up' q \<and>
         ms_rcode (dns_answer L w hosts up q) = RcodeRefused \<and> ms_answer (dns_answer L w hosts up q) = [])"
proof -
  let ?a = "(dl_set_reply L q)\<lparr>ms_available := (wl_internet_socket w \<noteq> [])\<rparr>"
  have a: "ms_id ?a = ms_id q" "ms_response ?a" "ms_question ?a = [question]" "ms_rcode ?a = 0" "ms_answer ?a = []"
    using assms(1,3) by (simp_all add: set_reply_documented_def)
  show ?thesis
  proof (cases "gm_get hosts (dl_canonical L (qn_name question))")
    case None
    then show ?thesis using assms(2-4) a ask_upstream_id [OF a(1-3), of L w up] by (auto simp: dns_answer_def Let_def)
  next
    case (Some as)
    then show ?thesis using assms(2-4) a by (simp add: dns_answer_def Let_def host_records_set)
  qed
qed

lemma udp_answer_size: "512 \<le> udpAnswerSize q \<and> udpAnswerSize q \<le> 1232"
  by (simp add: udpAnswerSize_def Let_def)

lemma udp_queue_bounded: "length queue \<le> capacity \<Longrightarrow> length (udp_read capacity truncated wire queue) \<le> capacity"
  by (simp add: udp_read_def)

text \<open>A library that keeps names as they are.\<close>

definition ex_dns :: dns_lib where
  "ex_dns = \<lparr>dl_canonical = (\<lambda>n. n),
     dl_set_reply = (\<lambda>q. \<lparr>ms_id = ms_id q, ms_response = True, ms_opcode = ms_opcode q, ms_rcode = 0, ms_available = False,
       ms_authoritative = False, ms_question = take 1 (ms_question q), ms_answer = [], ms_udp_size = None\<rparr>),
     dl_pack = (\<lambda>_. Ok ''wire''), dl_unpack = (\<lambda>_. Inl (ErrLib ''unpack''))\<rparr>"

definition ex_upstream :: upstream where
  "ex_upstream = \<lparr>up_slot = True, up_post = (\<lambda>_ _. None)\<rparr>"

definition ex_query :: dns_msg where
  "ex_query = \<lparr>ms_id = 7, ms_response = False, ms_opcode = 0, ms_rcode = 0, ms_available = False, ms_authoritative = False,
     ms_question = [\<lparr>qn_name = ''db.'', qn_type = 1, qn_class = 1\<rparr>], ms_answer = [], ms_udp_size = None\<rparr>"

theorem dns_answers_witness:
  "set (ms_answer (dns_answer ex_dns ex_workload [(''db.'', [Addr4 1, Addr6 2 []])] ex_upstream ex_query)) = {AddressRecord ''db.'' 1 60 (Addr4 1)}"
proof -
  have "set_reply_documented ex_dns" by (simp add: set_reply_documented_def ex_dns_def)
  from dns_answers [OF this, of ex_query "\<lparr>qn_name = ''db.'', qn_type = 1, qn_class = 1\<rparr>" ex_workload "[(''db.'', [Addr4 1, Addr6 2 []])]" ex_upstream]
  show ?thesis by (auto simp: ex_query_def ex_dns_def gm_get_def addr_is4_def addr_is6_def)
qed

end
