(* ===== verification/Helper_Register.thy ===== *)
theory Helper_Register
  imports Go_Base64 Go_Json Go_Sha "HOL-Library.List_Lexorder" "HOL-Library.Char_ord"
begin

text \<open>
  \<^verbatim>\<open>realm-helper spire-register\<close> (\<^verbatim>\<open>spireregister.go\<close>): the entries a manifest declares are created or updated
  on a SPIRE server, and entries of an earlier run that are declared no more are deleted. The server is reached
  through its command line; what a command does is a parameter over the state of the server, and the theorems
  name the documented behaviour they rely on. The file that records the entries is a string. The texts of errors
  leave out paths and the names of nodes, and the output of a failed command is kept in front of its error.
\<close>

section \<open>SHA-1\<close>

text \<open>Go's \<^verbatim>\<open>crypto/sha1\<close>, as FIPS 180-4 defines it; the padding is that of SHA-256.\<close>

definition rotl :: "nat \<Rightarrow> w32 \<Rightarrow> w32" where
  "rotl n w = push_bit n w OR drop_bit (32 - n) w"

definition sha1_next :: "w32 list \<Rightarrow> w32" where
  "sha1_next ws = rotl 1 (ws ! 2 XOR ws ! 7 XOR ws ! 13 XOR ws ! 15)"

primrec sha1_sched :: "nat \<Rightarrow> w32 list \<Rightarrow> w32 list" where
  "sha1_sched 0 ws = ws"
| "sha1_sched (Suc n) ws = sha1_sched n (sha1_next ws # ws)"

text \<open>Four stages of twenty rounds.\<close>

definition sha1_stages :: "int list" where
  "sha1_stages = replicate 20 0 @ replicate 20 1 @ replicate 20 2 @ replicate 20 3"

fun sha1_round :: "w32 list \<Rightarrow> int \<times> w32 \<Rightarrow> w32 list" where
  "sha1_round [a, b, c, d, e] (i, w) =
     (let (f, k) = (if i = 0 then ((b AND c) OR (NOT b AND d), 0x5A827999)
                    else if i = 1 then (b XOR c XOR d, 0x6ED9EBA1)
                    else if i = 2 then ((b AND c) OR (b AND d) OR (c AND d), 0x8F1BBCDC)
                    else (b XOR c XOR d, 0xCA62C1D6))
      in [rotl 5 a + f + e + w + k, a, rotl 30 b, c, d])"
| "sha1_round st iw = st"

definition sha1_block :: "w32 list \<Rightarrow> string \<Rightarrow> w32 list" where
  "sha1_block st block =
     (let ws = rev (sha1_sched 64 (rev (map be_word (chunks 4 block))))
      in map (\<lambda>(x, y). x + y) (zip st (foldl sha1_round st (zip sha1_stages ws))))"

definition sha1 :: "string \<Rightarrow> string" where
  "sha1 s = concat (map be_bytes (foldl sha1_block [0x67452301, 0xEFCDAB89, 0x98BADCFE, 0x10325476, 0xC3D2E1F0] (chunks 64 (sha256_pad s))))"

section \<open>Entries\<close>

record registration =
  rg_parent :: string
  rg_spiffe :: string
  rg_selectors :: "string list"

type_synonym manifest = "(string, (string, registration) gmap) gmap"

definition zero_registration :: registration where
  "zero_registration = \<lparr>rg_parent = [], rg_spiffe = [], rg_selectors = []\<rparr>"

definition dec_registration :: "registration jdec" where
  "dec_registration = dec_struct False
     [(''parentID'', dec_field rg_parent rg_parent_update dec_string),
      (''spiffeID'', dec_field rg_spiffe rg_spiffe_update dec_string),
      (''selectors'', dec_field rg_selectors rg_selectors_update (dec_slice [] dec_string))]"

definition dec_manifest :: "manifest jdec" where
  "dec_manifest = dec_map [] (dec_map zero_registration dec_registration)"

text \<open>\<^verbatim>\<open>json.Unmarshal\<close>: one value and nothing after it.\<close>

definition unmarshal :: "'a jdec \<Rightarrow> 'a \<Rightarrow> string \<Rightarrow> 'a result" where
  "unmarshal d z raw =
     (case json_next raw of
        None \<Rightarrow> Inl (ErrLib ''json'')
      | Some (j, rest) \<Rightarrow>
          if \<not> json_at_eof rest then Inl (ErrLib ''json'')
          else (case d j z of None \<Rightarrow> Inl (ErrLib ''json'') | Some x \<Rightarrow> Ok x))"

definition complete :: "registration \<Rightarrow> bool" where
  "complete r = (rg_parent r \<noteq> [] \<and> rg_spiffe r \<noteq> [] \<and> rg_selectors r \<noteq> [])"

text \<open>Which incomplete entry the error names depends on the order of the map.\<close>

definition readManifest :: "string result \<Rightarrow> manifest result" where
  "readManifest file =
     (case file of
        Inl e \<Rightarrow> Inl (ErrWrap ''read manifest'' e)
      | Inr raw \<Rightarrow>
      (case unmarshal dec_manifest [] raw of
        Inl e \<Rightarrow> Inl (ErrWrap ''parse manifest'' e)
      | Inr declared \<Rightarrow>
          if list_all (\<lambda>(node, entries). list_all (\<lambda>(name, entry). complete entry) entries) declared then Ok declared
          else Fail ''parentID, spiffeID and selectors are required''))"

text \<open>The file of the last run: \<^const>\<open>None\<close> if there is none.\<close>

definition readState :: "string option result \<Rightarrow> string list result" where
  "readState file =
     (case file of
        Inl e \<Rightarrow> Inl (ErrWrap ''read state'' e)
      | Inr None \<Rightarrow> Ok []
      | Inr (Some raw) \<Rightarrow>
          (case unmarshal (dec_slice [] dec_string) [] raw of
             Inl e \<Rightarrow> Inl (ErrWrap ''parse state'' e)
           | Inr ids \<Rightarrow> Ok ids))"

definition state_text :: "string list \<Rightarrow> string" where
  "state_text ids = json_print (JArr (map JStr ids))"

text \<open>The outcomes of \<^verbatim>\<open>WriteFile\<close> and \<^verbatim>\<open>Rename\<close>; the file changes only when both succeed.\<close>

definition writeState :: "unit result \<Rightarrow> unit result \<Rightarrow> string list \<Rightarrow> unit result \<times> string option" where
  "writeState write rename ids =
     (case write of
        Inl e \<Rightarrow> (Inl e, None)
      | Inr _ \<Rightarrow> (case rename of Inl e \<Rightarrow> (Inl e, None) | Inr _ \<Rightarrow> (Ok (), Some (state_text ids))))"

definition sortedKeys :: "(string, 'a) gmap \<Rightarrow> string list" where
  "sortedKeys m = sort (map fst m)"

section \<open>Identifiers\<close>

definition hex_bytes :: "string \<Rightarrow> string" where
  "hex_bytes s = concat (map (\<lambda>c. [hex_digit (of_char c div 16), hex_digit (of_char c mod 16)]) s)"

definition namespace_bytes :: string where
  "namespace_bytes = [CHR 0x6B, CHR 0xA7, CHR 0xB8, CHR 0x11, CHR 0x9D, CHR 0xAD, CHR 0x11, CHR 0xD1, CHR 0x80, CHR 0xB4,
     CHR 0x00, CHR 0xC0, CHR 0x4F, CHR 0xD4, CHR 0x30, CHR 0xC8]"

definition entry_key :: "string \<Rightarrow> string \<Rightarrow> string" where
  "entry_key node name = ''nyaw-realm:'' @ node @ '':'' @ name"

definition spireEntryID :: "string \<Rightarrow> string \<Rightarrow> string" where
  "spireEntryID node name =
     (let sum = take 16 (sha1 (namespace_bytes @ entry_key node name));
          b = sum[6 := char_of (of_char (sum ! 6) mod 16 + 0x50 :: nat)];
          bytes = b[8 := char_of (of_char (b ! 8) mod 64 + 0x80 :: nat)]
      in hex_bytes (take 4 bytes) @ ''-'' @ hex_bytes (take 2 (drop 4 bytes)) @ ''-'' @ hex_bytes (take 2 (drop 6 bytes)) @ ''-'' @
         hex_bytes (take 2 (drop 8 bytes)) @ ''-'' @ hex_bytes (drop 10 bytes))"

section \<open>The server\<close>

text \<open>A command: the combined output and the error of the process, and the new state of the server.\<close>

type_synonym 's command = "string list \<Rightarrow> 's \<Rightarrow> (string \<times> go_error option) \<times> 's"

definition execute :: "'s command \<Rightarrow> string list \<Rightarrow> 's \<Rightarrow> unit result \<times> 's" where
  "execute run args s =
     (case run args s of ((output, err), s') \<Rightarrow>
        (case err of
           None \<Rightarrow> Ok ()
         | Some e \<Rightarrow> Inl (if trim_space output = [] then e else ErrWrap (trim_space output) e), s'))"

definition healthAttempts :: nat where
  "healthAttempts = 30"

fun wait_loop :: "'s command \<Rightarrow> string \<Rightarrow> nat \<Rightarrow> go_error \<Rightarrow> 's \<Rightarrow> unit result \<times> 's" where
  "wait_loop run socket 0 prev s = (Inl (ErrWrap ''SPIRE server did not become healthy'' prev), s)"
| "wait_loop run socket (Suc n) prev s =
     (case execute run [''healthcheck'', ''-socketPath'', socket] s of
        (Inr _, s') \<Rightarrow> (Ok (), s')
      | (Inl e, s') \<Rightarrow> wait_loop run socket n e s')"

definition wait_server :: "'s command \<Rightarrow> string \<Rightarrow> 's \<Rightarrow> unit result \<times> 's" where
  "wait_server run socket = wait_loop run socket healthAttempts (ErrLib ''nil'')"

definition show_args :: "string \<Rightarrow> string \<Rightarrow> string list" where
  "show_args socket i = [''entry'', ''show'', ''-socketPath'', socket, ''-entryID'', i]"

definition delete_args :: "string \<Rightarrow> string \<Rightarrow> string list" where
  "delete_args socket i = [''entry'', ''delete'', ''-socketPath'', socket, ''-entryID'', i]"

definition write_args :: "string \<Rightarrow> string \<Rightarrow> string \<Rightarrow> registration \<Rightarrow> string list" where
  "write_args verb socket i entry =
     [''entry'', verb, ''-socketPath'', socket, ''-entryID'', i, ''-parentID'', rg_parent entry, ''-spiffeID'', rg_spiffe entry,
      ''-x509SVIDTTL'', ''3600''] @ concat (map (\<lambda>s. [''-selector'', s]) (rg_selectors entry))"

definition apply_entry :: "'s command \<Rightarrow> string \<Rightarrow> string \<times> registration \<Rightarrow> 's \<Rightarrow> unit result \<times> 's" where
  "apply_entry run socket x s =
     (case x of (i, entry) \<Rightarrow>
      (case execute run (show_args socket i) s of (shown, s1) \<Rightarrow>
       let verb = (if is_ok shown then ''update'' else ''create'') in
       (case execute run (write_args verb socket i entry) s1 of
          (Inl e, s2) \<Rightarrow> (Inl (ErrWrap (verb @ '' entry '' @ i) e), s2)
        | (Inr _, s2) \<Rightarrow> (Ok (), s2))))"

section \<open>Reconciliation\<close>

text \<open>The declared entries in the order in which they are applied.\<close>

definition declarations :: "manifest \<Rightarrow> (string \<times> registration) list" where
  "declarations m =
     concat (map (\<lambda>node. map (\<lambda>name. (spireEntryID node name, the (gm_get (the (gm_get m node)) name))) (sortedKeys (the (gm_get m node))))
       (sortedKeys m))"

fun apply_all :: "'s command \<Rightarrow> string \<Rightarrow> (string \<times> registration) list \<Rightarrow> 's \<Rightarrow> unit result \<times> 's" where
  "apply_all run socket [] s = (Ok (), s)"
| "apply_all run socket (x # xs) s =
     (case apply_entry run socket x s of (Inl e, s') \<Rightarrow> (Inl e, s') | (Inr _, s') \<Rightarrow> apply_all run socket xs s')"

fun prune :: "'s command \<Rightarrow> string \<Rightarrow> string list \<Rightarrow> string list \<Rightarrow> 's \<Rightarrow> unit result \<times> 's" where
  "prune run socket keep [] s = (Ok (), s)"
| "prune run socket keep (i # ids) s =
     (if i \<in> set keep then prune run socket keep ids s
      else case execute run (delete_args socket i) s of
        (Inl e, s') \<Rightarrow> (Inl (ErrWrap (''delete stale entry '' @ i) e), s')
      | (Inr _, s') \<Rightarrow> prune run socket keep ids s')"

text \<open>The outcome, the server, and the file if it was replaced.\<close>

definition reconcile ::
  "'s command \<Rightarrow> string \<Rightarrow> string result \<Rightarrow> string option result \<Rightarrow> unit result \<Rightarrow> unit result \<Rightarrow> 's \<Rightarrow> unit result \<times> 's \<times> string option" where
  "reconcile run socket manifest state write rename s =
     (case readManifest manifest of
        Inl e \<Rightarrow> (Inl e, s, None)
      | Inr desired \<Rightarrow>
      (case readState state of
        Inl e \<Rightarrow> (Inl e, s, None)
      | Inr previous \<Rightarrow>
          let decls = declarations desired; current = map fst decls in
          (case apply_all run socket decls s of
             (Inl e, s1) \<Rightarrow> (Inl e, s1, None)
           | (Inr _, s1) \<Rightarrow>
             (case prune run socket current previous s1 of
                (Inl e, s2) \<Rightarrow> (Inl e, s2, None)
              | (Inr _, s2) \<Rightarrow> (case writeState write rename current of (r, file) \<Rightarrow> (r, s2, file))))))"

text \<open>\<^verbatim>\<open>main.go\<close>: the first required option, by name, that was left empty.\<close>

definition requireFlags :: "(string, string) gmap \<Rightarrow> unit result" where
  "requireFlags values =
     (case filter (\<lambda>name. gm_get values name = Some []) (sortedKeys values) of
        [] \<Rightarrow> Ok ()
      | name # _ \<Rightarrow> Fail (''--'' @ name @ '' is required''))"

text \<open>The options as the flag parser returns them: server, socket, manifest and state. A command of the server is a run of
  its binary; the files are read by path.\<close>

definition spireRegisterCommand ::
  "(string \<Rightarrow> 's command) \<Rightarrow> (string \<times> string \<times> string \<times> string) result \<Rightarrow> (string \<Rightarrow> string result) \<Rightarrow> (string \<Rightarrow> string option result) \<Rightarrow>
    unit result \<Rightarrow> unit result \<Rightarrow> 's \<Rightarrow> unit result \<times> 's \<times> string option" where
  "spireRegisterCommand exec parsed manifest_file state_file write rename s =
     (case parsed of
        Inl e \<Rightarrow> (Inl e, s, None)
      | Inr (server, socket, manifestPath, statePath) \<Rightarrow>
      (case requireFlags [(''spire-server'', server), (''socket'', socket), (''manifest'', manifestPath), (''state'', statePath)] of
        Inl e \<Rightarrow> (Inl e, s, None)
      | Inr _ \<Rightarrow>
      (case wait_server (exec server) socket s of
        (Inl e, s') \<Rightarrow> (Inl e, s', None)
      | (Inr _, s') \<Rightarrow> reconcile (exec server) socket (manifest_file manifestPath) (state_file statePath) write rename s')))"

section \<open>What the server is documented to do\<close>

text \<open>\<open>entries\<close> is what the server holds: a \<^verbatim>\<open>show\<close> succeeds for the entries there are and changes nothing; a \<^verbatim>\<open>create\<close> or
  \<^verbatim>\<open>update\<close> that succeeds stores the entry; a \<^verbatim>\<open>delete\<close> that succeeds removes an entry there was; a command that fails
  changes nothing. Commands may fail for any other reason at any time.\<close>

definition spire_documented :: "'s command \<Rightarrow> ('s \<Rightarrow> string \<Rightarrow> registration option) \<Rightarrow> string \<Rightarrow> bool" where
  "spire_documented run entries socket =
     ((\<forall>i s. case execute run (show_args socket i) s of (r, s') \<Rightarrow> entries s' = entries s \<and> (is_ok r \<longleftrightarrow> entries s i \<noteq> None)) \<and>
      (\<forall>verb i entry s. case execute run (write_args verb socket i entry) s of (r, s') \<Rightarrow>
         entries s' = (if is_ok r then (entries s)(i \<mapsto> entry) else entries s)) \<and>
      (\<forall>i s. case execute run (delete_args socket i) s of (r, s') \<Rightarrow>
         entries s' = (if is_ok r then (entries s)(i := None) else entries s) \<and> (is_ok r \<longrightarrow> entries s i \<noteq> None)))"

lemma spireD:
  assumes "spire_documented run entries socket"
  shows "execute run (show_args socket i) s = (r, s') \<Longrightarrow> entries s' = entries s \<and> (is_ok r \<longleftrightarrow> entries s i \<noteq> None)"
    and "execute run (write_args verb socket i entry) s = (r, s') \<Longrightarrow> entries s' = (if is_ok r then (entries s)(i \<mapsto> entry) else entries s)"
    and "execute run (delete_args socket i) s = (r, s') \<Longrightarrow>
      entries s' = (if is_ok r then (entries s)(i := None) else entries s) \<and> (is_ok r \<longrightarrow> entries s i \<noteq> None)"
  using assms [unfolded spire_documented_def, THEN conjunct1, THEN spec [of _ i], THEN spec [of _ s]]
    assms [unfolded spire_documented_def, THEN conjunct2, THEN conjunct1, THEN spec [of _ verb], THEN spec [of _ i], THEN spec [of _ entry], THEN spec [of _ s]]
    assms [unfolded spire_documented_def, THEN conjunct2, THEN conjunct2, THEN spec [of _ i], THEN spec [of _ s]]
  by simp_all

lemma apply_entry_entries:
  assumes D: "spire_documented run entries socket" and run: "apply_entry run socket (i, entry) s = (r, s')"
  shows "entries s' = (if is_ok r then (entries s)(i \<mapsto> entry) else entries s)"
proof -
  obtain shown s1 where 1: "execute run (show_args socket i) s = (shown, s1)" by (rule prod.exhaust)
  let ?verb = "if is_ok shown then ''update'' else ''create''"
  obtain r2 s2 where 2: "execute run (write_args ?verb socket i entry) s1 = (r2, s2)" by (rule prod.exhaust)
  have "s' = s2" "is_ok r \<longleftrightarrow> is_ok r2" using run 1 2 by (auto simp: apply_entry_def Let_def split: sum.splits)
  then show ?thesis using spireD(1) [OF D 1] spireD(2) [OF D 2] by simp
qed

lemma apply_all_entries:
  assumes D: "spire_documented run entries socket" and run: "apply_all run socket xs s = (r, s')"
  shows "\<exists>ys zs. xs = ys @ zs \<and> entries s' = entries s ++ map_of (rev ys) \<and> (is_ok r \<longrightarrow> zs = [])"
  using run
proof (induction xs arbitrary: s)
  case Nil
  then show ?case by simp
next
  case (Cons x xs)
  obtain i entry where x: "x = (i, entry)" by (rule prod.exhaust)
  obtain r1 s1 where 1: "apply_entry run socket (i, entry) s = (r1, s1)" by (rule prod.exhaust)
  note e1 = apply_entry_entries [OF D 1]
  show ?case
  proof (cases r1)
    case (Inl e)
    then have "r = Inl e" "s' = s1" using Cons.prems x 1 by simp_all
    then show ?thesis using e1 Inl by (intro exI [of _ "[]"] exI [of _ "x # xs"]) simp
  next
    case (Inr u)
    then have "apply_all run socket xs s1 = (r, s')" using Cons.prems x 1 by simp
    from Cons.IH [OF this] obtain ys zs where "xs = ys @ zs" "entries s' = entries s1 ++ map_of (rev ys)" "is_ok r \<longrightarrow> zs = []" by blast
    then show ?thesis using e1 Inr x by (intro exI [of _ "x # ys"] exI [of _ zs]) (simp add: map_add_def fun_eq_iff split: option.split)
  qed
qed

lemma prune_entries:
  assumes D: "spire_documented run entries socket" and run: "prune run socket keep ids s = (Ok u, s')"
  shows "entries s' = (\<lambda>x. if x \<in> set ids \<and> x \<notin> set keep then None else entries s x)"
    and "i \<in> set ids \<Longrightarrow> i \<notin> set keep \<Longrightarrow> entries s i \<noteq> None"
proof -
  have "entries s' = (\<lambda>x. if x \<in> set ids \<and> x \<notin> set keep then None else entries s x) \<and>
      (\<forall>i \<in> set ids. i \<notin> set keep \<longrightarrow> entries s i \<noteq> None)"
    using run
  proof (induction ids arbitrary: s)
    case (Cons j ids)
    show ?case
    proof (cases "j \<in> set keep")
      case True
      then show ?thesis using Cons.IH [of s] Cons.prems by auto
    next
      case False
      then obtain v s1 where 1: "execute run (delete_args socket j) s = (Ok v, s1)" and rest: "prune run socket keep ids s1 = (Ok u, s')"
        using Cons.prems by (auto split: prod.splits sum.splits)
      have "entries s1 = (entries s)(j := None)" "entries s j \<noteq> None" using spireD(3) [OF D 1] by simp_all
      then show ?thesis using Cons.IH [OF rest] False by (auto split: if_splits)
    qed
  qed simp
  then show "entries s' = (\<lambda>x. if x \<in> set ids \<and> x \<notin> set keep then None else entries s x)"
    "i \<in> set ids \<Longrightarrow> i \<notin> set keep \<Longrightarrow> entries s i \<noteq> None" by blast+
qed

text \<open>The health check is run at most thirty times, and the first success ends the wait.\<close>

lemma wait_loop_bounded:
  assumes "wait_loop run socket n prev s = (r, s')"
  shows "\<exists>k \<le> n. s' = ((\<lambda>t. snd (execute run [''healthcheck'', ''-socketPath'', socket] t)) ^^ k) s \<and> (is_ok r \<longrightarrow> 0 < k)"
  using assms
proof (induction run socket n prev s rule: wait_loop.induct)
  case (1 run socket prev s)
  then show ?case by auto
next
  case (2 run socket n prev s)
  let ?f = "\<lambda>t. snd (execute run [''healthcheck'', ''-socketPath'', socket] t)"
  obtain q t where x: "execute run [''healthcheck'', ''-socketPath'', socket] s = (q, t)" by (rule prod.exhaust)
  show ?case
  proof (cases q)
    case (Inl e)
    from 2(1) [OF x [symmetric] Inl] 2(2) x Inl obtain k where "k \<le> n" "s' = (?f ^^ k) t" "is_ok r \<longrightarrow> 0 < k" by auto
    moreover have "(?f ^^ Suc k) s = (?f ^^ k) t" by (simp add: funpow_Suc_right x del: funpow.simps(2))
    ultimately show ?thesis by (intro exI [of _ "Suc k"]) simp
  next
    case (Inr u)
    then show ?thesis using 2(2) x by (intro exI [of _ "Suc 0"]) simp
  qed
qed

lemma spireRegisterCommand_Ok:
  assumes "spireRegisterCommand exec parsed manifest_file state_file write rename s = (Ok u, s', file)"
  obtains server socket mp sp s1 where "parsed = Ok (server, socket, mp, sp)" "server \<noteq> []" "socket \<noteq> []" "mp \<noteq> []" "sp \<noteq> []"
    "wait_server (exec server) socket s = (Ok (), s1)"
    "reconcile (exec server) socket (manifest_file mp) (state_file sp) write rename s1 = (Ok u, s', file)"
  using assms that
  by (auto simp: spireRegisterCommand_def requireFlags_def sortedKeys_def gm_get_def filter_empty_conv split: sum.splits prod.splits list.splits if_splits)

section \<open>The recorded identifiers\<close>

lemma hex_digit_plain: "n < 16 \<Longrightarrow> json_plain (hex_digit n)"
proof -
  have "list_all (\<lambda>n. json_plain (hex_digit n)) [0..<16]" by code_simp
  then show "n < 16 \<Longrightarrow> json_plain (hex_digit n)" by (simp add: list_all_iff)
qed

lemma hex_bytes_plain: "list_all json_plain (hex_bytes s)"
proof -
  have "(of_char c :: nat) div 16 < 16" for c by (rule byte_divs(2))
  then show ?thesis by (auto simp: hex_bytes_def list_all_iff intro: hex_digit_plain)
qed

lemma spireEntryID_plain: "list_all json_plain (spireEntryID node name)"
  using hex_bytes_plain by (simp add: spireEntryID_def Let_def json_plain_def)

lemma dec_strings: "dec_slice [] dec_string (JArr (map JStr ids)) [] = Some ids"
proof -
  have "dec_elems [] dec_string (map JStr ids) old = Some ids" for old
    by (induction ids arbitrary: old) (simp_all add: dec_string_def)
  then show ?thesis by (simp add: dec_slice_def)
qed

lemma state_roundtrip:
  assumes "list_all (list_all json_plain) ids"
  shows "readState (Ok (Some (state_text ids))) = Ok ids"
proof -
  have "json_safe (JArr (map JStr ids))" using assms by (simp add: list_all_iff)
  from json_next_print [OF this, of "[]"] have "json_next (state_text ids) = Some (JArr (map JStr ids), [])"
    by (simp add: state_text_def json_follow_def)
  then show ?thesis by (simp add: readState_def unmarshal_def json_at_eof_def skip_ws_def dec_strings)
qed

lemma declarations_plain: "list_all (list_all json_plain) (map fst (declarations m))"
  using spireEntryID_plain by (auto simp: declarations_def list_all_iff)


text \<open>The identifiers of two keys: those of nodes without a colon are told apart, but a colon in a node
  or a name can move between them.\<close>

lemma entry_key_injective:
  assumes "CHR '':'' \<notin> set node" "CHR '':'' \<notin> set node'"
  shows "entry_key node name = entry_key node' name' \<longleftrightarrow> node = node' \<and> name = name'"
proof
  assume "entry_key node name = entry_key node' name'"
  then have e: "node @ CHR '':'' # name = node' @ CHR '':'' # name'" by (simp add: entry_key_def)
  have "takeWhile (\<lambda>c. c \<noteq> CHR '':'') (xs @ CHR '':'' # ys) = xs" if "CHR '':'' \<notin> set xs" for xs ys
    by (subst takeWhile_append2) (use that in auto)
  from this [OF assms(1), of name] this [OF assms(2), of name'] e have "node = node'" by simp
  then show "node = node' \<and> name = name'" using e by simp
qed simp

lemma entry_ids_ambiguous: "spireEntryID ''a:b'' ''c'' = spireEntryID ''a'' ''b:c''"
  by (simp add: spireEntryID_def entry_key_def)

section \<open>The properties\<close>

text \<open>The entries of a manifest that have an identifier, read off the two maps: usually one or none; more only if the names of two
  entries lead to the same identifier.\<close>

definition declared :: "manifest \<Rightarrow> string \<Rightarrow> registration set" where
  "declared m i = {r. \<exists>node entries name. gm_get m node = Some entries \<and> gm_get entries name = Some r \<and> i = spireEntryID node name}"

lemma sortedKeys_set: "k \<in> set (sortedKeys m) \<longleftrightarrow> (\<exists>v. gm_get m k = Some v)"
proof -
  have "k \<in> fst ` set m \<longleftrightarrow> gm_get m k \<noteq> None" by (simp add: gm_get_def map_of_eq_None_iff)
  then show ?thesis by (simp add: sortedKeys_def)
qed

lemma declarations_set: "(i, r) \<in> set (declarations m) \<longleftrightarrow> r \<in> declared m i"
proof
  assume "(i, r) \<in> set (declarations m)"
  then show "r \<in> declared m i" by (fastforce simp: declarations_def declared_def sortedKeys_set)
next
  assume "r \<in> declared m i"
  then obtain node es name where n: "gm_get m node = Some es" "gm_get es name = Some r" "i = spireEntryID node name"
    by (auto simp: declared_def)
  then have "node \<in> set (sortedKeys m)" "name \<in> set (sortedKeys es)" by (auto simp: sortedKeys_set)
  with n show "(i, r) \<in> set (declarations m)"
    by (auto simp: declarations_def intro!: bexI [of _ node] image_eqI [of _ _ name])
qed

lemma declarations_ids: "i \<in> set (map fst (declarations m)) \<longleftrightarrow> declared m i \<noteq> {}"
  using declarations_set [of i _ m] by force

text \<open>C11. A reconciliation that succeeds leaves the server in line with the manifest: every identifier under which the manifest
  declares an entry holds a declared entry, so all of them are applied; an identifier that is declared no more is
  gone if the last run recorded it, and untouched if not. The file it writes reads back as exactly the declared
  identifiers.\<close>

theorem reconcile_converges:
  assumes D: "spire_documented run entries socket" and m: "readManifest manifest = Ok desired" and st: "readState state = Ok previous"
    and run: "reconcile run socket manifest state write rename s = (Ok u, s', file)"
  shows "(\<forall>i. if declared desired i = {} then entries s' i = (if i \<in> set previous then None else entries s i)
        else \<exists>r \<in> declared desired i. entries s' i = Some r) \<and>
    (\<exists>f ids. file = Some f \<and> readState (Ok (Some f)) = Ok ids \<and> set ids = {i. declared desired i \<noteq> {}})"
proof -
  let ?ds = "declarations desired"
  obtain v s1 w where 1: "apply_all run socket ?ds s = (Ok v, s1)" and 2: "prune run socket (map fst ?ds) previous s1 = (Ok w, s')"
    and 3: "writeState write rename (map fst ?ds) = (Ok u, file)"
    using run by (auto simp: reconcile_def m st Let_def split: prod.splits sum.splits)
  from apply_all_entries [OF D 1] have s1: "entries s1 = entries s ++ map_of (rev ?ds)" by auto
  have "if declared desired i = {} then entries s' i = (if i \<in> set previous then None else entries s i)
      else \<exists>r \<in> declared desired i. entries s' i = Some r" for i
  proof (cases "map_of (rev ?ds) i")
    case None
    then have "i \<notin> set (map fst ?ds)" by (simp add: map_of_eq_None_iff)
    then have "declared desired i = {}" "i \<notin> set (map fst ?ds)" using declarations_ids [of i desired] by simp_all
    then show ?thesis using None unfolding prune_entries(1) [OF D 2] s1 by (simp add: map_add_def)
  next
    case (Some r)
    then have r: "r \<in> declared desired i" using declarations_set [of i r desired] by (auto dest: map_of_SomeD)
    then have "declared desired i \<noteq> {}" by blast
    moreover from this have "i \<in> set (map fst ?ds)" using declarations_ids [of i desired] by blast
    ultimately show ?thesis using r Some unfolding prune_entries(1) [OF D 2] s1 by (simp add: map_add_def)
  qed
  moreover have "file = Some (state_text (map fst ?ds))" using 3 by (auto simp: writeState_def split: sum.splits)
  moreover have "set (map fst ?ds) = {i. declared desired i \<noteq> {}}" using declarations_ids [of _ desired] by blast
  ultimately show ?thesis using state_roundtrip [OF declarations_plain [of desired]] by blast
qed

text \<open>C29. Once the recorded list names an entry that the manifest does not declare and that is gone from the server, which
  is what a run leaves behind that deletes one stale entry and fails on the next, no later run of the same
  manifest succeeds: the deletion fails each time, and the list is not rewritten.\<close>

theorem reconcile_stuck:
  assumes D: "spire_documented run entries socket" and m: "readManifest manifest = Ok desired" and st: "readState state = Ok previous"
    and i: "i \<in> set previous" "i \<notin> set (map fst (declarations desired))" "entries s i = None"
  shows "\<exists>e s'. reconcile run socket manifest state write rename s = (Inl e, s', None) \<and> entries s' i = None"
proof -
  let ?ds = "declarations desired"
  obtain r s1 where 1: "apply_all run socket ?ds s = (r, s1)" by (rule prod.exhaust)
  from apply_all_entries [OF D 1] obtain ys zs where "?ds = ys @ zs" "entries s1 = entries s ++ map_of (rev ys)" by blast
  then have gone: "entries s1 i = None" using i by (auto simp: map_add_def map_of_eq_None_iff split: option.splits)
  obtain r2 s2 where 2: "prune run socket (map fst ?ds) previous s1 = (r2, s2)" by (rule prod.exhaust)
  have kept: "entries t i = None \<Longrightarrow> prune run socket keep ids t = (q, t') \<Longrightarrow> entries t' i = None" for keep ids t q t'
  proof (induction ids arbitrary: t)
    case (Cons j ids)
    obtain d t1 where d: "execute run (delete_args socket j) t = (d, t1)" by (rule prod.exhaust)
    have "entries t1 i = None" using spireD(3) [OF D d] Cons.prems(1) by auto
    then show ?case using Cons d by (auto split: if_splits sum.splits)
  qed simp
  show ?thesis
  proof (cases r)
    case (Inl e)
    then show ?thesis using 1 gone by (simp add: reconcile_def m st Let_def)
  next
    case (Inr u)
    have "\<not> is_ok r2" using prune_entries(2) [OF D, of "map fst ?ds" previous s1 _ s2 i] 2 i(1,2) gone by (cases r2) auto
    then obtain e where "r2 = Inl e" by (cases r2) auto
    then show ?thesis using 1 2 Inr kept [OF gone 2] by (simp add: reconcile_def m st Let_def)
  qed
qed

text \<open>A server that keeps its entries in a map and loses one deletion, the one at which its counter is 1.\<close>

type_synonym ex_server = "(string \<rightharpoonup> registration) \<times> nat"

fun ex_selectors :: "string list \<Rightarrow> string list" where
  "ex_selectors (k # s # rest) = s # ex_selectors rest"
| "ex_selectors rest = []"

fun ex_run :: "ex_server command" where
  "ex_run [a, verb, b, socket, c, i] (es, n) =
     (if verb = ''show'' then (([], if es i = None then Some (ErrLib ''exit status 1'') else None), (es, n))
      else if es i = None \<or> n = 1 then ((''failed'', Some (ErrLib ''exit status 1'')), (es, n - 1))
      else (([], None), (es(i := None), n - 1)))"
| "ex_run (a # verb # b # socket # c # i # d # parent # e # spiffe # f # ttl # sels) (es, n) =
     (([], None), (es(i \<mapsto> \<lparr>rg_parent = parent, rg_spiffe = spiffe, rg_selectors = ex_selectors sels\<rparr>), n))"
| "ex_run args s = (([], Some (ErrLib ''exit status 1'')), s)"

lemma ex_run_documented: "spire_documented ex_run fst socket"
proof -
  have sel: "ex_selectors (concat (map (\<lambda>s. [''-selector'', s]) ss)) = ss" for ss by (induction ss) simp_all
  have eta: "\<lparr>rg_parent = rg_parent r, rg_spiffe = rg_spiffe r, rg_selectors = rg_selectors r\<rparr> = r" for r :: registration by (cases r) simp
  have run: "execute ex_run (show_args socket i) (es, n) = (if es i = None then Inl (ErrLib ''exit status 1'') else Ok (), (es, n))"
    "execute ex_run (write_args verb socket i entry) (es, n) = (Ok (), (es(i \<mapsto> entry), n))"
    "execute ex_run (delete_args socket i) (es, n) =
      (if es i = None \<or> n = 1 then (Inl (ErrWrap (trim_space ''failed'') (ErrLib ''exit status 1'')), (es, n - 1)) else (Ok (), (es(i := None), n - 1)))"
    for verb i entry es n
    by (simp_all add: execute_def show_args_def write_args_def delete_args_def sel eta trim_space_def Let_def space_runes_def has_prefix_def)
  show ?thesis unfolding spire_documented_def split_paired_All run by auto
qed

definition ex_registration :: registration where
  "ex_registration = \<lparr>rg_parent = ''spiffe://r/node'', rg_spiffe = ''spiffe://r/web'', rg_selectors = [''unix:uid:1'']\<rparr>"

definition ex_manifest :: json where
  "ex_manifest = JObj [(''n'', JObj [(''web'', JObj [(''parentID'', JStr ''spiffe://r/node''), (''spiffeID'', JStr ''spiffe://r/web''),
     (''selectors'', JArr [JStr ''unix:uid:1''])])])]"

lemma ex_manifest_reads: "readManifest (Ok (json_print ex_manifest)) = Ok [(''n'', [(''web'', ex_registration)])]"
proof -
  have safe: "json_safe ex_manifest" by code_simp
  have "json_next (json_print ex_manifest @ []) = Some (ex_manifest, [])" by (rule json_next_print [OF safe]) (simp add: json_follow_def)
  moreover have "dec_manifest ex_manifest [] = Some [(''n'', [(''web'', ex_registration)])]" by code_simp
  ultimately show ?thesis
    by (simp add: readManifest_def unmarshal_def json_at_eof_def skip_ws_def complete_def ex_registration_def)
qed

lemma ex_declarations: "declarations [(''n'', [(''web'', ex_registration)])] = [(spireEntryID ''n'' ''web'', ex_registration)]"
  by (simp add: declarations_def sortedKeys_def gm_get_def)

lemma ex_not_old: "spireEntryID node name \<noteq> ''old''"
proof -
  have "CHR ''-'' \<in> set (spireEntryID node name)" by (simp add: spireEntryID_def Let_def)
  then show ?thesis by auto
qed

theorem reconcile_converges_witness:
  "\<exists>s' file. reconcile ex_run ''/s'' (Ok (json_print ex_manifest)) (Ok (Some (state_text [''old'']))) (Ok ()) (Ok ())
      ([''old'' \<mapsto> ex_registration], 0) = (Ok (), s', file) \<and>
    fst s' ''old'' = None \<and> fst s' (spireEntryID ''n'' ''web'') = Some ex_registration"
proof -
  let ?m = "[(''n'', [(''web'', ex_registration)])] :: manifest"
  have st: "readState (Ok (Some (state_text [''old'']))) = Ok [''old'']" by (rule state_roundtrip) (simp add: json_plain_def)
  let ?s = "([''old'' \<mapsto> ex_registration], 0) :: ex_server"
  have sel: "ex_selectors (concat (map (\<lambda>s. [''-selector'', s]) (rg_selectors ex_registration))) = rg_selectors ex_registration"
    by (simp add: ex_registration_def)
  obtain s' f where run: "reconcile ex_run ''/s'' (Ok (json_print ex_manifest)) (Ok (Some (state_text [''old'']))) (Ok ()) (Ok ()) ?s = (Ok (), s', f)"
    using ex_not_old [of "''n''" "''web''"] sel
    by (auto simp: reconcile_def ex_manifest_reads st Let_def ex_declarations apply_entry_def execute_def show_args_def write_args_def delete_args_def writeState_def)
  have d: "declared ?m ''old'' = {}" "declared ?m (spireEntryID ''n'' ''web'') = {ex_registration}"
    using declarations_ids [of "''old''" ?m] declarations_set [of "spireEntryID ''n'' ''web''" _ ?m] ex_not_old [of "''n''" "''web''"]
    by (auto simp: ex_declarations)
  note c = reconcile_converges [OF ex_run_documented ex_manifest_reads st run, THEN conjunct1, THEN spec]
  from c [of "''old''"] c [of "spireEntryID ''n'' ''web''"] run show ?thesis
    by (intro exI [of _ s'] exI [of _ f]) (simp add: d)
qed

text \<open>How the list of the theorem arises: two stale entries, and a run that deletes the first and fails on the second.\<close>

lemma stuck_arises:
  "\<exists>e s'. reconcile ex_run ''/s'' (Ok ''{}'') (Ok (Some (state_text [''a'', ''b'']))) (Ok ()) (Ok ()) ([''a'' \<mapsto> ex_registration, ''b'' \<mapsto> ex_registration], 2) =
    (Inl e, s', None) \<and> fst s' ''a'' = None"
proof -
  have st: "readState (Ok (Some (state_text [''a'', ''b'']))) = Ok [''a'', ''b'']" by (rule state_roundtrip) (simp add: json_plain_def)
  have m: "readManifest (Ok ''{}'') = Ok []" by code_simp
  show ?thesis
    by (simp add: reconcile_def m st Let_def declarations_def sortedKeys_def execute_def delete_args_def)
qed

theorem reconcile_stuck_witness:
  "\<exists>e s'. reconcile ex_run ''/s'' (Ok ''{}'') (Ok (Some (state_text [''a'', ''b'']))) (Ok ()) (Ok ()) ([''b'' \<mapsto> ex_registration], 0) = (Inl e, s', None)"
proof -
  have st: "readState (Ok (Some (state_text [''a'', ''b'']))) = Ok [''a'', ''b'']" by (rule state_roundtrip) (simp add: json_plain_def)
  have m: "readManifest (Ok ''{}'') = Ok []" by code_simp
  have "\<exists>e s'. reconcile ex_run ''/s'' (Ok ''{}'') (Ok (Some (state_text [''a'', ''b'']))) (Ok ()) (Ok ()) ([''b'' \<mapsto> ex_registration], 0) = (Inl e, s', None) \<and>
      fst s' ''a'' = None"
    by (rule reconcile_stuck [OF ex_run_documented m st]) (simp_all add: declarations_def sortedKeys_def)
  then show ?thesis by blast
qed

end
