(* ===== verification/Spec2Isabelle.thy ===== *)
theory Spec2Isabelle
  imports Attest_Session Agent_Serve Agent_Worker Agent_Dns Helper_Register
begin

text \<open>
  A verification library for the realm programs of this repository: the Go sources under
  \<^verbatim>\<open>src/pkgs/realm-node-attest\<close>, \<^verbatim>\<open>src/pkgs/realm-agent\<close> and \<^verbatim>\<open>src/pkgs/realm-helper\<close>.

  \<^bold>\<open>The programs.\<close> A realm is a set of nodes whose workloads reach each other only through sockets that a proxy
  authenticates. Three programs make that hold.
  \<^item> \<^emph>\<open>Node attestation\<close>: a SPIRE plugin on the agent's side signs a challenge of the SPIRE server and leaves the
    proof with a responder on its node; the plugin on the server's side fetches the proof from the addresses pinned for that node
    and, if it verifies, yields the attributes of the node. Everything is counted in a registry of metrics.
  \<^item> \<^emph>\<open>realm-agent\<close>: a daemon with one gate per workload. A process that connects to a gate is identified by the
    kernel's credentials, its control group is captured by BPF programs, and a sandboxed worker in its network namespace
    forwards what is captured: to the sockets of the configured routes, or to an HTTP proxy.
  \<^item> \<^emph>\<open>realm-helper spire-register\<close>: brings the entries of a SPIRE server in line with a manifest.

  \<^bold>\<open>Foundations.\<close>
  \<^item> \<open>Realm_Prelude\<close>: errors as values, Go maps (locale \<open>go_map\<close>, interpreted on association lists), times, the collections
    of simplification rules.
  \<^item> \<open>Go_Text\<close>, \<open>Go_Base64\<close>, \<open>Go_Json\<close>, \<open>Go_Sha\<close>, \<open>Go_Netip\<close>, \<open>Go_Url\<close>: what the sources use of Go's standard library, executable, each with
    the laws the components rely on: the matcher of regular expressions decides their language, decoding undoes encoding, the JSON
    text of a tree parses back to it, an address parses back from its text, a prefix contains the addresses that agree with it.
  \<^item> \<open>Go_Os\<close>, \<open>Go_Os_Logic\<close>: system calls. The kernel is an arbitrary function of the log of calls so far, and a program is a
    function on a world with that log and the set of live handles. \<open>gains\<close>, \<open>drops\<close> and \<open>turns\<close> say what a program does to the
    handles, \<open>triple\<close> what is in the log once it succeeded; both have one rule per combinator.

  \<^bold>\<open>Node attestation.\<close>
  \<^item> \<open>Attest_Protocol\<close> (\<^verbatim>\<open>protocol.go\<close>): the messages and their JSON forms, validation, signing, verification. A signed proof
    is accepted by responder and server, what is accepted was verified, and which names are valid.
  \<^item> \<open>Attest_Metrics\<close> (\<^verbatim>\<open>metrics.go\<close>, \<^verbatim>\<open>metrics_listener.go\<close>): every counter and histogram is the aggregate of the events, and only
    registration adds node labels, which bounds the number of series.
  \<^item> \<open>Attest_Server\<close>, \<open>Attest_Server_Runs\<close> (\<^verbatim>\<open>server.go\<close>, \<^verbatim>\<open>address.go\<close>): the state of the server with a heap of attempts, one operation per
    critical section, and a step relation that interleaves them. In every reachable state a grant is sound, an attempt grants at most
    once, a node gets at most six grants a minute and at most 32 attempts are active.
  \<^item> \<open>Attest_Responder\<close>, \<open>Attest_Listeners\<close> (\<^verbatim>\<open>responder_linux.go\<close>): every answer of the handlers is that of an abstract store of
    expiring proofs; a listener never exceeds its limit, activation accepts exactly the documented sockets, and every listener that was
    opened, also that of the metrics, is closed.
  \<^item> \<open>Attest_Agent\<close> (\<^verbatim>\<open>agent.go\<close>): an attempt publishes once and its proof is gone after it. What it relies on of the responder is the
    locale \<open>proof_store\<close>, interpreted on the responder's handler.
  \<^item> \<open>Attest_Plugin\<close> (\<^verbatim>\<open>adapters.go\<close>): both plugins over streams of messages. Attributes rest on a grant, each attempt is counted once, and no
    proof is left behind, unless the request that removes it is lost: then it expires.
  \<^item> \<open>Attest_Session\<close>: an agent's attempt (\<open>BeginAgent\<close>, \<open>Respond\<close>), the responder's handlers and the server's plugin
    (\<open>Attest\<close>), run against each other, complete.

  \<^bold>\<open>realm-agent.\<close>
  \<^item> \<open>Agent_Config\<close> (\<^verbatim>\<open>config.go\<close>): decoding, validation, and the decision where a connection goes. Longest prefix wins, and a
    reserved address is reached through a declared route or not at all.
  \<^item> \<open>Agent_Process\<close> (\<^verbatim>\<open>agent.go\<close>, \<^verbatim>\<open>resources.go\<close>), \<open>Agent_Network\<close> (\<^verbatim>\<open>network.go\<close>): who a peer is, the control groups, and the check of a
    network namespace.
  \<^item> \<open>Agent_Sandbox\<close> (\<^verbatim>\<open>sandbox.go\<close>): the bootstrap becomes the worker only after all confining calls succeeded.
  \<^item> \<open>Agent_Controller\<close> (\<^verbatim>\<open>agent.go\<close>, \<^verbatim>\<open>bpf.go\<close>, \<^verbatim>\<open>recovery.go\<close>): attaching the capture, starting and releasing a worker, the gate's
    handler, recovery and reconciliation.
  \<^item> \<open>Agent_Gate\<close>: up to sixteen handlers and the reconciliation of one workload as a step relation. Every live handle has exactly one
    owner, and READY is answered only to a peer that was identified, whose group is captured and whose worker reported ready.
  \<^item> \<open>Agent_Serve\<close> (\<^verbatim>\<open>agent.go\<close>): no process can be taken for two workloads of the daemon; a client at a gate returns once its context
    ends.
  \<^item> \<open>Agent_Worker\<close> (\<^verbatim>\<open>worker.go\<close>, \<^verbatim>\<open>proxy.go\<close>, \<^verbatim>\<open>bpf.go\<close>): one connection is forwarded to the recorded destination's target or
    not at all, and a tunnel hands on exactly the bytes after the proxy's header.
  \<^item> \<open>Agent_Dns\<close> (\<^verbatim>\<open>dns.go\<close>): configured names are answered from the configuration, all others only by a matching
    reply of the upstream.

  \<^bold>\<open>realm-helper.\<close>
  \<^item> \<open>Helper_Register\<close> (\<^verbatim>\<open>spireregister.go\<close>): a run that succeeds leaves every declared entry, removes those of the last run
    that are declared no more and touches no other; a run that fails between two deletions leaves a list with which no later run succeeds.

  \<^bold>\<open>Bounds and fuel.\<close> The JSON parser takes its fuel from the length of its input, and \<open>json_next_fuel\<close> shows that this is enough. The lookup of a
  destination tries twenty times and the health check thirty times, as in the source. The client of a gate has no bound of its
  own and is a partial function; that it returns is a theorem. All other recursion is structural or has a termination proof.

  \<^bold>\<open>Outside the model.\<close> Code that is not in the repository is a parameter: JOSE, gRPC, HCL, the DNS library, the parser of HTTP
  responses, the kernel, the network, the SPIRE server. What a theorem needs of it is a hypothesis with a name
  (\<open>jose_correct\<close>, \<open>set_reply_documented\<close>, \<open>spire_documented\<close>). Not modelled are the BPF programs (C), the text exposition of the metrics,
  the copying of bytes between two sockets (\<^verbatim>\<open>splice\<close>), the start-up of the worker's sockets and goroutines (\<^verbatim>\<open>runWorker\<close>, \<^verbatim>\<open>startDNS\<close>), the
  commands' \<^verbatim>\<open>main\<close> functions, the bridge, container and wait commands of \<^verbatim>\<open>realm-helper\<close>, the exporter
  \<^verbatim>\<open>realm-identity-metrics\<close>, and the Nix configuration.
\<close>

end
